(* ===== verification/Prelude.thy ===== *)
theory Prelude
  imports Main "HOL-Library.Word" "HOL-Library.Monad_Syntax"
begin

text \<open>
  Shared vocabulary of the development: the named collections the component
  theories feed, C strings, and generic facts about lists that several
  components use.
\<close>

section \<open>Named collections\<close>

text \<open>
  \<open>expr_val\<close> collects the facts that evaluate a dependency expression,
  \<open>buffer\<close> the facts about stores into byte buffers.
\<close>

named_theorems expr_val
named_theorems buffer

section \<open>Bytes and machine words\<close>

type_synonym u8 = "8 word"
type_synonym u32 = "32 word"
type_synonym u64 = "64 word"

lemma unat_less_exp: "unat (w :: 'a :: len word) < 2 ^ LENGTH('a)"
  by (rule unsigned_less)

lemma unat_drop_bit: "unat (drop_bit n w) = unat (w :: 'a :: len word) div 2 ^ n"
  by (simp only: unsigned_drop_bit_eq take_bit_nat_eq_self [OF unat_less_exp]) (rule drop_bit_eq_div)

lemma unat_take_bit: "unat (take_bit n w) = unat (w :: 'a :: len word) mod 2 ^ n"
  by (simp only: unsigned_take_bit_eq) (rule take_bit_eq_mod)

section \<open>C strings\<close>

text \<open>
  A NUL-terminated C string is the list of the characters before its
  terminator. \<open>strcmp\<close> compares the characters as unsigned bytes, the end of the
  string being smaller than every character; only the sign of its result is used
  by the code.
\<close>

fun strcmp :: "string \<Rightarrow> string \<Rightarrow> int" where
  "strcmp [] [] = 0"
| "strcmp [] (y # ys) = -1"
| "strcmp (x # xs) [] = 1"
| "strcmp (x # xs) (y # ys) =
     (if (of_char x :: nat) < of_char y then -1
      else if (of_char y :: nat) < of_char x then 1
      else strcmp xs ys)"

lemma strcmp_eq_0 [simp]: "strcmp xs ys = 0 \<longleftrightarrow> xs = ys"
  by (induction xs ys rule: strcmp.induct) (auto simp: not_less_iff_gr_or_eq)

text \<open>\<open>strncmp (s, p, strlen (p)) == 0\<close>: the first characters of \<open>s\<close> are \<open>p\<close>.\<close>

definition starts_with :: "string \<Rightarrow> string \<Rightarrow> bool" where
  "starts_with p s \<longleftrightarrow> take (length p) s = p"

lemma starts_with_append [simp]: "starts_with p (p @ s)"
  by (simp add: starts_with_def)

lemma starts_with_iff: "starts_with p s \<longleftrightarrow> (\<exists>r. s = p @ r)"
  by (metis append_take_drop_id append_eq_conv_conj starts_with_def)

text \<open>A text between single quotes.\<close>

definition quoted :: "string \<Rightarrow> string" where
  "quoted s = [CHR 0x27] @ s @ [CHR 0x27]"

text \<open>Numbers printed in a base (\<open>%lld\<close>, \<open>%llx\<close>).\<close>

definition digit_char :: "nat \<Rightarrow> char" where
  "digit_char d = (if d < 10 then char_of (48 + d) else char_of (87 + d))"

fun show_nat :: "nat \<Rightarrow> nat \<Rightarrow> string" where
  "show_nat b n = (if n < b \<or> b < 2 then [digit_char n] else show_nat b (n div b) @ [digit_char (n mod b)])"

declare show_nat.simps [simp del]

definition show_int :: "int \<Rightarrow> string" where
  "show_int x = (if x < 0 then CHR ''-'' # show_nat 10 (nat (- x)) else show_nat 10 (nat x))"

section \<open>Error numbers\<close>

definition ENOMEM :: int where "ENOMEM = 12"

definition EINVAL :: int where "EINVAL = 22"

section \<open>Computations that may fail\<close>

text \<open>\<open>wp m Q\<close>: the computation returns, with a result that satisfies \<open>Q\<close>.\<close>

definition wp :: "'a option \<Rightarrow> ('a \<Rightarrow> bool) \<Rightarrow> bool" where
  "wp m Q \<longleftrightarrow> (case m of Some r \<Rightarrow> Q r | None \<Rightarrow> False)"

lemma wp_Some [simp]: "wp (Some r) Q = Q r"
  by (simp add: wp_def)

lemma wp_None [simp]: "\<not> wp None Q"
  by (simp add: wp_def)

lemma wp_bind: "wp (Option.bind m f) Q = wp m (\<lambda>r. wp (f r) Q)"
  by (cases m) simp_all

lemma wp_mono: "wp m P \<Longrightarrow> (\<And>r. P r \<Longrightarrow> Q r) \<Longrightarrow> wp m Q"
  by (cases m) simp_all

lemma wp_conj: "wp m P \<Longrightarrow> wp m Q \<Longrightarrow> wp m (\<lambda>r. P r \<and> Q r)"
  by (cases m) simp_all

lemma wp_iff: "wp m Q \<longleftrightarrow> (\<exists>r. m = Some r \<and> Q r)"
  by (cases m) simp_all

lemma wp_step: "wp m P \<Longrightarrow> (\<And>r. P r \<Longrightarrow> wp (f r) Q) \<Longrightarrow> wp (Option.bind m f) Q"
  by (simp add: wp_bind wp_mono)

section \<open>Byte buffers\<close>

text \<open>
  A buffer is the list of its bytes. A store outside it has no result; \<open>pokes\<close>
  stores consecutive bytes, \<open>peek\<close> reads them.
\<close>

definition poke :: "nat \<Rightarrow> u8 \<Rightarrow> u8 list \<Rightarrow> u8 list option" where
  "poke i b buf = (if i < length buf then Some (buf[i := b]) else None)"

fun pokes :: "nat \<Rightarrow> u8 list \<Rightarrow> u8 list \<Rightarrow> u8 list option" where
  "pokes i [] buf = Some buf"
| "pokes i (b # bs) buf = Option.bind (poke i b buf) (pokes (i + 1) bs)"

definition peek :: "nat \<Rightarrow> nat \<Rightarrow> u8 list \<Rightarrow> u8 list" where
  "peek i n buf = take n (drop i buf)"

definition overwrite :: "nat \<Rightarrow> u8 list \<Rightarrow> u8 list \<Rightarrow> u8 list" where
  "overwrite i bs buf = take i buf @ bs @ drop (i + length bs) buf"

lemma pokes_overwrite [buffer]:
  "i + length bs \<le> length buf \<Longrightarrow> pokes i bs buf = Some (overwrite i bs buf)"
proof (induction bs arbitrary: i buf)
  case (Cons b bs)
  then have "take (i + 1) (buf[i := b]) = take i buf @ [b]"
    by (simp add: take_Suc_conv_app_nth)
  with Cons show ?case by (simp add: poke_def overwrite_def)
qed (simp add: overwrite_def)

lemma pokes_outside [buffer]: "length buf < i + length bs \<Longrightarrow> bs \<noteq> [] \<Longrightarrow> pokes i bs buf = None"
proof (induction bs arbitrary: i buf)
  case (Cons b bs)
  show ?case
  proof (cases "bs = []")
    case False
    then have "pokes (i + 1) bs (buf[i := b]) = None" using Cons.prems by (intro Cons.IH) simp_all
    then show ?thesis by (simp add: poke_def)
  qed (use Cons.prems in \<open>simp add: poke_def\<close>)
qed simp

lemma length_overwrite [buffer]: "i + length bs \<le> length buf \<Longrightarrow> length (overwrite i bs buf) = length buf"
  by (simp add: overwrite_def)

lemma length_peek [buffer]: "i + n \<le> length buf \<Longrightarrow> length (peek i n buf) = n"
  by (simp add: peek_def)

lemma nth_overwrite:
  "i + length bs \<le> length buf \<Longrightarrow> k < length buf \<Longrightarrow>
     overwrite i bs buf ! k = (if i \<le> k \<and> k < i + length bs then bs ! (k - i) else buf ! k)"
  by (auto simp: overwrite_def nth_append)

lemma peek_same: "i + length bs \<le> length buf \<Longrightarrow> n = length bs \<Longrightarrow> peek i n (overwrite i bs buf) = bs"
  by (simp add: peek_def overwrite_def)

lemma peek_other:
  "i + length bs \<le> length buf \<Longrightarrow> k + n \<le> length buf \<Longrightarrow> k + n \<le> i \<or> i + length bs \<le> k \<Longrightarrow>
     peek k n (overwrite i bs buf) = peek k n buf"
  by (rule nth_equalityI) (auto simp: peek_def nth_overwrite length_overwrite)

lemma peek_within:
  "i + length bs \<le> length buf \<Longrightarrow> i \<le> k \<Longrightarrow> k + n \<le> i + length bs \<Longrightarrow>
     peek k n (overwrite i bs buf) = take n (drop (k - i) bs)"
  by (simp add: peek_def overwrite_def)

lemma peek_append: "peek i (m + n) buf = peek i m buf @ peek (i + m) n buf"
  by (simp add: peek_def take_add add.commute)

section \<open>Little-endian numbers\<close>

definition byte :: "nat \<Rightarrow> nat \<Rightarrow> u8" where
  "byte k n = word_of_nat (drop_bit k n)"

definition le4 :: "nat \<Rightarrow> u8 list" where
  "le4 n = [byte 0 n, byte 8 n, byte 16 n, byte 24 n]"

fun le_val :: "u8 list \<Rightarrow> nat" where
  "le_val [] = 0"
| "le_val (b # bs) = unat b + 256 * le_val bs"

lemma length_le4 [simp]: "length (le4 n) = 4"
  by (simp add: le4_def)

lemma le_val_append: "le_val (xs @ ys) = le_val xs + 256 ^ length xs * le_val ys"
  by (induction xs) (simp_all add: algebra_simps)

lemma unat_byte: "unat (byte k n) = n div 2 ^ k mod 256"
  by (simp add: byte_def unat_of_nat drop_bit_eq_div take_bit_eq_mod)

lemma low_byte: "n mod 256 + 256 * (n div 256 mod m) = n mod (256 * m)" for n m :: nat
  by (simp add: mod_mult2_eq)

lemma le_val_2: "le_val [byte 0 n, byte 8 n] = n mod 65536"
  using low_byte [of n 256] by (simp add: unat_byte)

lemma le_val_le4 [simp]: "le_val (le4 n) = n mod 2 ^ 32"
proof -
  have "n div 256 div 256 div 256 mod 256 = n div 16777216 mod 256" "n div 256 div 256 = n div 65536"
    by (simp_all flip: div_mult2_eq)
  then show ?thesis
    using low_byte [of "n div 256 div 256" 256] low_byte [of "n div 256" 65536] low_byte [of n 16777216]
    by (simp add: le4_def unat_byte)
qed

end
