(* ===== verification/Kconfig_Types.thy ===== *)
theory Kconfig_Types
  imports Prelude
begin

text \<open>
  The data model of kconfig (support/kconfig/expr.h and lkc.h): tristate
  values, symbols, dependency expressions, properties, and the store of symbols.
  A pointer to a symbol is a \<open>symref\<close>; the statically allocated symbols of
  symbol.c are references of their own.
\<close>

section \<open>Tristate values\<close>

datatype tristate = tri_no | tri_mod | tri_yes

instantiation tristate :: linorder
begin

fun tri_rank :: "tristate \<Rightarrow> nat" where
  "tri_rank tri_no = 0"
| "tri_rank tri_mod = 1"
| "tri_rank tri_yes = 2"

definition less_eq_tristate :: "tristate \<Rightarrow> tristate \<Rightarrow> bool" where
  "a \<le> b \<longleftrightarrow> tri_rank a \<le> tri_rank b"

definition less_tristate :: "tristate \<Rightarrow> tristate \<Rightarrow> bool" where
  "a < b \<longleftrightarrow> tri_rank a < tri_rank b"

instance
proof
  fix x y z :: tristate
  show "(x < y) = (x \<le> y \<and> \<not> y \<le> x)"
    by (auto simp: less_eq_tristate_def less_tristate_def)
  show "x \<le> x" by (simp add: less_eq_tristate_def)
  show "x \<le> y \<Longrightarrow> y \<le> z \<Longrightarrow> x \<le> z" by (simp add: less_eq_tristate_def)
  show "x \<le> y \<Longrightarrow> y \<le> x \<Longrightarrow> x = y"
    by (cases x; cases y) (simp_all add: less_eq_tristate_def)
  show "x \<le> y \<or> y \<le> x" by (auto simp: less_eq_tristate_def)
qed

end

lemmas tri_order [simp] =
  less_eq_tristate_def [of tri_no tri_mod, simplified]
  less_eq_tristate_def [of tri_no tri_yes, simplified]
  less_eq_tristate_def [of tri_mod tri_no, simplified]
  less_eq_tristate_def [of tri_mod tri_yes, simplified]
  less_eq_tristate_def [of tri_yes tri_no, simplified]
  less_eq_tristate_def [of tri_yes tri_mod, simplified]
  less_tristate_def [of tri_no tri_mod, simplified]
  less_tristate_def [of tri_no tri_yes, simplified]
  less_tristate_def [of tri_mod tri_no, simplified]
  less_tristate_def [of tri_mod tri_yes, simplified]
  less_tristate_def [of tri_yes tri_no, simplified]
  less_tristate_def [of tri_yes tri_mod, simplified]

text \<open>The macros \<open>EXPR_OR\<close>, \<open>EXPR_AND\<close> and \<open>EXPR_NOT\<close>.\<close>

definition EXPR_OR :: "tristate \<Rightarrow> tristate \<Rightarrow> tristate" where
  "EXPR_OR dep1 dep2 = (if dep1 > dep2 then dep1 else dep2)"

definition EXPR_AND :: "tristate \<Rightarrow> tristate \<Rightarrow> tristate" where
  "EXPR_AND dep1 dep2 = (if dep1 < dep2 then dep1 else dep2)"

fun EXPR_NOT :: "tristate \<Rightarrow> tristate" where
  "EXPR_NOT tri_no = tri_yes"
| "EXPR_NOT tri_mod = tri_mod"
| "EXPR_NOT tri_yes = tri_no"

lemma tri_no_least [simp]: "tri_no \<le> x"
  by (cases x) simp_all

lemma tri_yes_greatest [simp]: "x \<le> tri_yes"
  by (cases x) simp_all

lemma le_tri_no [simp]: "x \<le> tri_no \<longleftrightarrow> x = tri_no"
  by (cases x) simp_all

lemma tri_yes_le [simp]: "tri_yes \<le> x \<longleftrightarrow> x = tri_yes"
  by (cases x) simp_all

lemma EXPR_OR_max: "EXPR_OR = max"
  by (intro ext) (auto simp: EXPR_OR_def max_def)

lemma EXPR_AND_min: "EXPR_AND = min"
  by (intro ext) (auto simp: EXPR_AND_def min_def)

lemma EXPR_NOT_NOT [simp]: "EXPR_NOT (EXPR_NOT x) = x"
  by (cases x) simp_all

lemma EXPR_NOT_max [simp]: "EXPR_NOT (max a b) = min (EXPR_NOT a) (EXPR_NOT b)"
  by (cases a; cases b) (simp_all add: max_def min_def)

lemma EXPR_NOT_min [simp]: "EXPR_NOT (min a b) = max (EXPR_NOT a) (EXPR_NOT b)"
  by (cases a; cases b) (simp_all add: max_def min_def)

lemma tri_max_simps [simp]:
  "max tri_no x = x" "max x tri_no = x" "max tri_yes x = tri_yes" "max x tri_yes = tri_yes"
  by (cases x; simp add: max_def)+

lemma tri_min_simps [simp]:
  "min tri_no x = tri_no" "min x tri_no = tri_no" "min tri_yes x = x" "min x tri_yes = (x :: tristate)"
  by (cases x; simp add: min_def)+

section \<open>Symbols, expressions and properties\<close>

datatype symbol_type =
  S_UNKNOWN | S_BOOLEAN | S_TRISTATE | S_INT | S_HEX | S_STRING | S_OTHER

text \<open>\<open>struct symbol *\<close>: the static symbols of symbol.c and the allocated ones.\<close>

datatype symref = symbol_yes | symbol_mod | symbol_no | symbol_empty | Sym nat

text \<open>The comparison members of \<open>enum expr_type\<close>.\<close>

datatype comp_type = EQUAL | UNEQUAL | LTH | LEQ | GTH | GEQ

datatype expr_type =
  E_NONE | E_OR | E_AND | E_NOT | E_COMP comp_type | E_LIST | E_SYMBOL | E_RANGE

text \<open>
  \<open>struct expr\<close>: one constructor per node shape. A child of an \<open>&&\<close>, \<open>||\<close> or
  \<open>!\<close> node is never null (\<open>expr_alloc_and\<close> and \<open>expr_alloc_or\<close> drop null
  operands); a null expression is \<open>None\<close> where the code allows one. An
  \<open>E_LIST\<close> node holds the rest of the list and the symbol of this entry.
\<close>

datatype expr =
  Esym symref
| Enot expr
| Eand expr expr
| Eor expr expr
| Ecmp comp_type symref symref
| Elist "expr option" symref
| Erange symref symref

fun etype :: "expr \<Rightarrow> expr_type" where
  "etype (Esym s) = E_SYMBOL"
| "etype (Enot e) = E_NOT"
| "etype (Eand a b) = E_AND"
| "etype (Eor a b) = E_OR"
| "etype (Ecmp c a b) = E_COMP c"
| "etype (Elist l s) = E_LIST"
| "etype (Erange a b) = E_RANGE"

datatype prop_type =
  P_UNKNOWN | P_PROMPT | P_COMMENT | P_MENU | P_DEFAULT | P_CHOICE | P_SELECT | P_IMPLY
| P_RANGE | P_ENV | P_SYMBOL

text \<open>\<open>struct property\<close>; a menu node is referred to by a number.\<close>

record property =
  p_type :: prop_type
  p_text :: "string option"
  p_vis_expr :: "expr option"
  p_vis_tri :: tristate
  p_expr :: "expr option"
  p_menu :: "nat option"

text \<open>The \<open>SYMBOL_*\<close> bits of \<open>flags\<close>: a set of flags.\<close>

datatype symflag =
  SYMBOL_CONST | SYMBOL_CHECK | SYMBOL_CHOICE | SYMBOL_CHOICEVAL | SYMBOL_VALID
| SYMBOL_OPTIONAL | SYMBOL_WRITE | SYMBOL_CHANGED | SYMBOL_AUTO | SYMBOL_CHECKED
| SYMBOL_WARNED | SYMBOL_DEF_USER | SYMBOL_DEF_AUTO | SYMBOL_DEF3 | SYMBOL_DEF4
| SYMBOL_NEED_SET_CHOICE_VALUES | SYMBOL_ALLNOCONFIG_Y

text \<open>
  \<open>void *val\<close> of \<open>struct symbol_value\<close>: null, a string, or (for a choice) the
  selected symbol. Strings are compared by content.
\<close>

datatype cval = CNull | CStr string | CSym symref

record symbol_value =
  sv_val :: cval
  sv_tri :: tristate

record symbol =
  s_name :: "string option"
  s_type :: symbol_type
  s_curr :: symbol_value
  s_def_user :: symbol_value
  s_def_auto :: symbol_value
  s_visible :: tristate
  s_flags :: "symflag set"
  s_prop :: "property list"
  s_dir_dep :: "expr option"
  s_dir_tri :: tristate
  s_rev_dep :: "expr option"
  s_rev_tri :: tristate
  s_implied :: "expr option"
  s_impl_tri :: tristate

type_synonym symtab = "symref \<Rightarrow> symbol"

text \<open>
  The global variables: the store of symbols, of which \<open>Sym n\<close> with \<open>n < k_nsyms\<close> are
  allocated, the buckets of \<open>symbol_hash\<close>, \<open>modules_sym\<close> and \<open>modules_val\<close> of symbol.c,
  the menu nodes with \<open>MENU_CHANGED\<close>, and the change counter of confdata.c.
\<close>

record kstate =
  k_tab :: symtab
  k_nsyms :: nat
  k_hash :: "nat \<Rightarrow> symref list"
  k_modules_sym :: symref
  k_modules_val :: tristate
  k_menu_changed :: "nat set"
  k_changes :: int

end
