(* ===== verification/Expr.thy ===== *)
theory Expr
  imports Kconfig_Types
begin

text \<open>
  The dependency-expression algebra of support/kconfig/expr.c: allocation and
  copying, elimination of operands common to two expressions
  (\<open>expr_eliminate_eq\<close>), of constants (\<open>expr_eliminate_yn\<close>) and of redundant
  operands (\<open>expr_eliminate_dups\<close>), negation normal form (\<open>expr_transform\<close>),
  and the dependency tests. The functions that update a node in place return the
  new tree; \<open>free\<close> has no counterpart. A tree is updated through two aliased
  pointers in \<open>expr_eliminate_dups1\<close> only, where the pointers are positions in
  the tree.
\<close>

section \<open>Allocation, copying\<close>

definition expr_alloc_symbol :: "symref \<Rightarrow> expr" where
  "expr_alloc_symbol s = Esym s"

definition expr_alloc_comp :: "comp_type \<Rightarrow> symref \<Rightarrow> symref \<Rightarrow> expr" where
  "expr_alloc_comp c s1 s2 = Ecmp c s1 s2"

fun expr_alloc_and :: "expr option \<Rightarrow> expr option \<Rightarrow> expr option" where
  "expr_alloc_and None e2 = e2"
| "expr_alloc_and (Some e1) None = Some e1"
| "expr_alloc_and (Some e1) (Some e2) = Some (Eand e1 e2)"

fun expr_alloc_or :: "expr option \<Rightarrow> expr option \<Rightarrow> expr option" where
  "expr_alloc_or None e2 = e2"
| "expr_alloc_or (Some e1) None = Some e1"
| "expr_alloc_or (Some e1) (Some e2) = Some (Eor e1 e2)"

text \<open>
  \<open>expr_copy\<close> on a node: \<open>None\<close> is the null result of the default branch, which
  also makes the copy of an enclosing node unusable. The right operand of an
  \<open>E_LIST\<close> node is a symbol, which the code copies as if it were an expression:
  no well-formed copy either.
\<close>

fun expr_copy :: "expr \<Rightarrow> expr option" where
  "expr_copy (Esym s) = Some (Esym s)"
| "expr_copy (Enot e) = map_option Enot (expr_copy e)"
| "expr_copy (Ecmp c a b) = Some (Ecmp c a b)"
| "expr_copy (Eand l r) =
     (case (expr_copy l, expr_copy r) of (Some l', Some r') \<Rightarrow> Some (Eand l' r') | _ \<Rightarrow> None)"
| "expr_copy (Eor l r) =
     (case (expr_copy l, expr_copy r) of (Some l', Some r') \<Rightarrow> Some (Eor l' r') | _ \<Rightarrow> None)"
| "expr_copy (Elist l s) = None"
| "expr_copy (Erange a b) = None"

text \<open>The constant tests of expr.h.\<close>

definition expr_is_yes :: "expr option \<Rightarrow> bool" where
  "expr_is_yes e \<longleftrightarrow> e = None \<or> e = Some (Esym symbol_yes)"

definition expr_is_no :: "expr option \<Rightarrow> bool" where
  "expr_is_no e \<longleftrightarrow> e = Some (Esym symbol_no)"

section \<open>Operands of a connective\<close>

text \<open>
  The operands of \<open>e\<close> when its type is the connective \<open>type\<close>, the node rebuilt
  from them, and the constant that is neutral for the connective.
\<close>

fun kids :: "expr_type \<Rightarrow> expr \<Rightarrow> (expr \<times> expr) option" where
  "kids E_OR (Eor l r) = Some (l, r)"
| "kids E_AND (Eand l r) = Some (l, r)"
| "kids _ _ = None"

fun mk_node :: "expr_type \<Rightarrow> expr \<Rightarrow> expr \<Rightarrow> expr" where
  "mk_node E_OR l r = Eor l r"
| "mk_node _ l r = Eand l r"

fun neutral :: "expr_type \<Rightarrow> expr \<Rightarrow> expr" where
  "neutral E_OR e = expr_alloc_symbol symbol_no"
| "neutral E_AND e = expr_alloc_symbol symbol_yes"
| "neutral _ e = e"

section \<open>Constants: \<open>expr_eliminate_yn\<close>\<close>

fun expr_eliminate_yn :: "expr \<Rightarrow> expr" where
  "expr_eliminate_yn (Eand l r) =
     (let l' = expr_eliminate_yn l; r' = expr_eliminate_yn r in
      if l' = Esym symbol_no then Esym symbol_no
      else if l' = Esym symbol_yes then r'
      else if r' = Esym symbol_no then Esym symbol_no
      else if r' = Esym symbol_yes then l'
      else Eand l' r')"
| "expr_eliminate_yn (Eor l r) =
     (let l' = expr_eliminate_yn l; r' = expr_eliminate_yn r in
      if l' = Esym symbol_no then r'
      else if l' = Esym symbol_yes then Esym symbol_yes
      else if r' = Esym symbol_no then l'
      else if r' = Esym symbol_yes then Esym symbol_yes
      else Eor l' r')"
| "expr_eliminate_yn e = e"

lemma kids_size: "kids ty e = Some (l, r) \<Longrightarrow> size e = Suc (size l + size r)"
  by (cases "(ty, e)" rule: kids.cases) auto

lemma kids_mk: "kids ty e = Some (l, r) \<Longrightarrow> e = mk_node ty l r"
  by (cases "(ty, e)" rule: kids.cases) auto

lemma kids_Some_conv:
  "kids ty e = Some (l, r) \<longleftrightarrow> (ty = E_OR \<and> e = Eor l r) \<or> (ty = E_AND \<and> e = Eand l r)"
  by (cases "(ty, e)" rule: kids.cases) auto

lemma size_mk_node [simp]: "size (mk_node ty l r) = Suc (size l + size r)"
  by (cases ty) auto

lemma size_neutral: "size (neutral ty e) \<le> size e"
  by (cases ty) (auto simp: expr_alloc_symbol_def)

lemma yn_size: "size (expr_eliminate_yn e) \<le> size e"
  by (induction e rule: expr_eliminate_yn.induct) (auto simp: Let_def)

section \<open>Common operands: \<open>expr_eliminate_eq\<close> and \<open>expr_eq\<close>\<close>

text \<open>
  \<open>elim_eq\<close> is \<open>__expr_eliminate_eq\<close>; the last argument and result is the global
  \<open>trans_count\<close>. \<open>expr_eq\<close> works on copies and restores the counter.
\<close>

function (sequential)
  expr_eq :: "expr \<Rightarrow> expr \<Rightarrow> bool" and
  elim_eq :: "expr_type \<Rightarrow> expr \<Rightarrow> expr \<Rightarrow> nat \<Rightarrow> expr \<times> expr \<times> nat" and
  expr_eliminate_eq :: "expr \<Rightarrow> expr \<Rightarrow> nat \<Rightarrow> expr \<times> expr \<times> nat"
where
  "expr_eq e1 e2 =
     (if etype e1 \<noteq> etype e2 then False
      else case e1 of
        Ecmp c a b \<Rightarrow> e1 = e2
      | Esym s \<Rightarrow> e1 = e2
      | Enot a \<Rightarrow> (case e2 of Enot b \<Rightarrow> expr_eq a b | _ \<Rightarrow> False)
      | Eand _ _ \<Rightarrow>
          (case expr_eliminate_eq e1 e2 0 of
             (Esym s1, Esym s2, _) \<Rightarrow> s1 = s2 | _ \<Rightarrow> False)
      | Eor _ _ \<Rightarrow>
          (case expr_eliminate_eq e1 e2 0 of
             (Esym s1, Esym s2, _) \<Rightarrow> s1 = s2 | _ \<Rightarrow> False)
      | _ \<Rightarrow> False)"
| "elim_eq ty e1 e2 n =
     (case kids ty e1 of
        Some (l, r) \<Rightarrow>
          (case elim_eq ty l e2 n of (l', e2', n') \<Rightarrow>
           case elim_eq ty r e2' n' of (r', e2'', n'') \<Rightarrow> (mk_node ty l' r', e2'', n''))
      | None \<Rightarrow>
          (case kids ty e2 of
             Some (l, r) \<Rightarrow>
               (case elim_eq ty e1 l n of (e1', l', n') \<Rightarrow>
                case elim_eq ty e1' r n' of (e1'', r', n'') \<Rightarrow> (e1'', mk_node ty l' r', n''))
           | None \<Rightarrow>
               (if e1 = e2 \<and> (e1 = Esym symbol_yes \<or> e1 = Esym symbol_no) then (e1, e2, n)
                else if \<not> expr_eq e1 e2 then (e1, e2, n)
                else (neutral ty e1, neutral ty e2, Suc n))))"
| "expr_eliminate_eq e1 e2 n =
     (case (if etype e1 = E_OR \<or> etype e1 = E_AND then elim_eq (etype e1) e1 e2 n
            else (e1, e2, n)) of (f1, f2, n') \<Rightarrow>
      case (if etype f1 \<noteq> etype f2 \<and> (etype f2 = E_OR \<or> etype f2 = E_AND)
            then elim_eq (etype f2) f1 f2 n' else (f1, f2, n')) of (g1, g2, n'') \<Rightarrow>
      (expr_eliminate_yn g1, expr_eliminate_yn g2, n''))"
  by pat_completeness auto

text \<open>Neither tree grows: what the termination proof needs of the nested calls.\<close>

lemma elim_eq_size_dom:
  "expr_eq_elim_eq_expr_eliminate_eq_dom (Inl (a, b)) \<Longrightarrow> True"
  "expr_eq_elim_eq_expr_eliminate_eq_dom (Inr (Inl (ty, e1, e2, n))) \<Longrightarrow>
     (case elim_eq ty e1 e2 n of (f1, f2, m) \<Rightarrow> size f1 \<le> size e1 \<and> size f2 \<le> size e2)"
  "expr_eq_elim_eq_expr_eliminate_eq_dom (Inr (Inr (e, e', k))) \<Longrightarrow> True"
proof (induction rule: expr_eq_elim_eq_expr_eliminate_eq.pinduct)
  case (2 ty e1 e2 n)
  show ?case
  proof (cases "kids ty e1")
    case (Some lr)
    then obtain l r where lr: "kids ty e1 = Some (l, r)" by (cases lr) auto
    obtain l' e2' n' where 1: "elim_eq ty l e2 n = (l', e2', n')" by (metis prod_cases3)
    obtain r' e2'' n'' where 2: "elim_eq ty r e2' n' = (r', e2'', n'')" by (metis prod_cases3)
    show ?thesis
      using "2.IH"(4) [OF lr refl] "2.IH"(5) [OF lr refl 1 [symmetric] refl]
        "2.hyps" lr 1 2 kids_size [OF lr]
      by (simp add: elim_eq.psimps)
  next
    case None
    note n1 = None
    show ?thesis
    proof (cases "kids ty e2")
      case (Some lr)
      then obtain l r where lr: "kids ty e2 = Some (l, r)" by (cases lr) auto
      obtain e1' l' n' where 1: "elim_eq ty e1 l n = (e1', l', n')" by (metis prod_cases3)
      obtain e1'' r' n'' where 2: "elim_eq ty e1' r n' = (e1'', r', n'')" by (metis prod_cases3)
      show ?thesis
        using "2.IH"(2) [OF n1 lr refl] "2.IH"(3) [OF n1 lr refl 1 [symmetric] refl]
          "2.hyps" n1 lr 1 2 kids_size [OF lr]
        by (simp add: elim_eq.psimps)
    next
      case None
      then show ?thesis
        using "2.hyps" n1 by (simp add: elim_eq.psimps size_neutral)
    qed
  qed
qed simp_all

definition eq_rank :: "expr \<times> expr + (expr_type \<times> expr \<times> expr \<times> nat) + (expr \<times> expr \<times> nat) \<Rightarrow> nat" where
  "eq_rank x =
     (case x of Inl _ \<Rightarrow> 2
      | Inr (Inl (ty, e1, e2, n)) \<Rightarrow> (if kids ty e1 = None \<and> kids ty e2 = None then 3 else 0)
      | Inr (Inr _) \<Rightarrow> 1)"

definition eq_size :: "expr \<times> expr + (expr_type \<times> expr \<times> expr \<times> nat) + (expr \<times> expr \<times> nat) \<Rightarrow> nat" where
  "eq_size x =
     (case x of Inl (e1, e2) \<Rightarrow> size e1 + size e2
      | Inr (Inl (ty, e1, e2, n)) \<Rightarrow> size e1 + size e2
      | Inr (Inr (e1, e2, n)) \<Rightarrow> size e1 + size e2)"

lemma etype_kids: "etype e = E_OR \<or> etype e = E_AND \<Longrightarrow> kids (etype e) e \<noteq> None"
  by (cases e) auto

termination expr_eq
proof (relation "measures [eq_size, eq_rank]", goal_cases)
  case (7 ty e1 e2 n x2 l r e1' p l' n')
  then show ?case
    using elim_eq_size_dom(2) [of ty e1 l n] by (auto simp: eq_size_def dest!: kids_size)
next
  case (9 ty e1 e2 n x2 l r l' p e2' n')
  then show ?case
    using elim_eq_size_dom(2) [of ty l e2 n] by (auto simp: eq_size_def dest!: kids_size)
next
  case (11 e1 e2 n f1 y f2 n')
  have "size f1 + size f2 \<le> size e1 + size e2"
  proof (cases "etype e1 = E_OR \<or> etype e1 = E_AND")
    case True
    with 11 show ?thesis
      using elim_eq_size_dom(2) [of "etype e1" e1 e2 n] by (auto split: prod.splits)
  next
    case False
    with 11 show ?thesis by auto
  qed
  moreover have "kids (etype f2) f2 \<noteq> None"
    using 11 etype_kids [of f2] by blast
  ultimately show ?case
    by (auto simp: eq_size_def eq_rank_def)
qed (use etype_kids in \<open>auto simp: eq_size_def eq_rank_def dest!: kids_size\<close>)

declare expr_eq.simps [simp del] elim_eq.simps [simp del] expr_eliminate_eq.simps [simp del]

text \<open>One equation per node type.\<close>

lemma same_symbol_conv:
  "(case r of (Esym s1, Esym s2, _) \<Rightarrow> s1 = s2 | _ \<Rightarrow> False) \<longleftrightarrow> (\<exists>s n. r = (Esym s, Esym s, n))"
proof (cases r)
  case (fields a b c)
  then show ?thesis by (cases a; cases b) auto
qed

lemma expr_eq_simps:
  "expr_eq (Esym s) e2 \<longleftrightarrow> e2 = Esym s"
  "expr_eq (Ecmp c a b) e2 \<longleftrightarrow> e2 = Ecmp c a b"
  "expr_eq (Enot x) e2 \<longleftrightarrow> (\<exists>y. e2 = Enot y \<and> expr_eq x y)"
  "expr_eq (Eand l r) e2 \<longleftrightarrow>
     etype e2 = E_AND \<and> (\<exists>s n. expr_eliminate_eq (Eand l r) e2 0 = (Esym s, Esym s, n))"
  "expr_eq (Eor l r) e2 \<longleftrightarrow>
     etype e2 = E_OR \<and> (\<exists>s n. expr_eliminate_eq (Eor l r) e2 0 = (Esym s, Esym s, n))"
  "expr_eq (Elist ls s) e2 = False"
  "expr_eq (Erange a b) e2 = False"
  by (subst expr_eq.simps; cases e2; auto simp: same_symbol_conv)+

lemma elim_eq_kids1: "kids ty e1 = Some (l, r) \<Longrightarrow> elim_eq ty e1 e2 n =
    (case elim_eq ty l e2 n of (l', e2', n') \<Rightarrow>
     case elim_eq ty r e2' n' of (r', e2'', n'') \<Rightarrow> (mk_node ty l' r', e2'', n''))"
  by (simp add: elim_eq.simps [of ty e1])

lemma elim_eq_kids2: "kids ty e1 = None \<Longrightarrow> kids ty e2 = Some (l, r) \<Longrightarrow> elim_eq ty e1 e2 n =
    (case elim_eq ty e1 l n of (e1', l', n') \<Rightarrow>
     case elim_eq ty e1' r n' of (e1'', r', n'') \<Rightarrow> (e1'', mk_node ty l' r', n''))"
  by (simp add: elim_eq.simps [of ty e1])

lemma elim_eq_leaves: "kids ty e1 = None \<Longrightarrow> kids ty e2 = None \<Longrightarrow> elim_eq ty e1 e2 n =
    (if e1 = e2 \<and> (e1 = Esym symbol_yes \<or> e1 = Esym symbol_no) then (e1, e2, n)
     else if \<not> expr_eq e1 e2 then (e1, e2, n)
     else (neutral ty e1, neutral ty e2, Suc n))"
  by (simp add: elim_eq.simps [of ty e1])

section \<open>Boolean dependents: \<open>expr_trans_bool\<close>\<close>

fun expr_trans_bool :: "symtab \<Rightarrow> expr \<Rightarrow> expr" where
  "expr_trans_bool T (Eand l r) = Eand (expr_trans_bool T l) (expr_trans_bool T r)"
| "expr_trans_bool T (Eor l r) = Eor (expr_trans_bool T l) (expr_trans_bool T r)"
| "expr_trans_bool T (Enot e) = Enot (expr_trans_bool T e)"
| "expr_trans_bool T (Ecmp UNEQUAL a b) =
     (if s_type (T a) = S_TRISTATE \<and> b = symbol_no then Esym a else Ecmp UNEQUAL a b)"
| "expr_trans_bool T e = e"

section \<open>Joining two operands\<close>

text \<open>\<open>e->type == c && e->right.sym == r\<close>, and the symbol tests of the joins.\<close>

fun cmp_is :: "comp_type \<Rightarrow> symref \<Rightarrow> expr \<Rightarrow> bool" where
  "cmp_is c r (Ecmp c' a b) \<longleftrightarrow> c = c' \<and> b = r"
| "cmp_is c r _ \<longleftrightarrow> False"

text \<open>
  The symbol an operand is about, \<open>None\<close> where the joins give up: the first
  operand may be a symbol, an equality or an inequality, or the negation of one;
  the second operand negated must be a plain symbol.
\<close>

fun plain_sym :: "expr \<Rightarrow> symref option" where
  "plain_sym (Esym s) = Some s"
| "plain_sym (Ecmp c a b) = (if c = EQUAL \<or> c = UNEQUAL then Some a else None)"
| "plain_sym _ = None"

fun join_sym1 :: "expr \<Rightarrow> symref option" where
  "join_sym1 (Enot tmp) = plain_sym tmp"
| "join_sym1 e = plain_sym e"

fun join_sym2 :: "expr \<Rightarrow> symref option" where
  "join_sym2 (Enot tmp) = (case tmp of Esym s \<Rightarrow> Some s | _ \<Rightarrow> None)"
| "join_sym2 e = plain_sym e"

definition cmp_both :: "comp_type \<Rightarrow> symref \<Rightarrow> symref \<Rightarrow> expr \<Rightarrow> expr \<Rightarrow> bool" where
  "cmp_both c x y e1 e2 \<longleftrightarrow>
     (cmp_is c x e1 \<and> cmp_is c y e2) \<or> (cmp_is c y e1 \<and> cmp_is c x e2)"

definition not_sym :: "expr \<Rightarrow> bool" where
  "not_sym e = (case e of Enot (Esym _) \<Rightarrow> True | _ \<Rightarrow> False)"

definition expr_join_or :: "symtab \<Rightarrow> expr \<Rightarrow> expr \<Rightarrow> expr option" where
  "expr_join_or T e1 e2 =
     (if expr_eq e1 e2 then expr_copy e1
      else case (join_sym1 e1, join_sym2 e2) of
        (Some sym1, Some sym2) \<Rightarrow>
          if sym1 \<noteq> sym2 then None
          else if s_type (T sym1) \<noteq> S_BOOLEAN \<and> s_type (T sym1) \<noteq> S_TRISTATE then None
          else if s_type (T sym1) = S_TRISTATE \<and> cmp_both EQUAL symbol_yes symbol_mod e1 e2
            then Some (expr_alloc_comp UNEQUAL sym1 symbol_no)
          else if s_type (T sym1) = S_TRISTATE \<and> cmp_both EQUAL symbol_yes symbol_no e1 e2
            then Some (expr_alloc_comp UNEQUAL sym1 symbol_mod)
          else if s_type (T sym1) = S_TRISTATE \<and> cmp_both EQUAL symbol_mod symbol_no e1 e2
            then Some (expr_alloc_comp UNEQUAL sym1 symbol_yes)
          else if s_type (T sym1) = S_BOOLEAN \<and>
                  ((not_sym e1 \<and> etype e2 = E_SYMBOL) \<or> (not_sym e2 \<and> etype e1 = E_SYMBOL))
            then Some (expr_alloc_symbol symbol_yes)
          else None
      | _ \<Rightarrow> None)"

text \<open>
  \<open>(a='b') && (a!='c')\<close> with constant \<open>b\<close> and \<open>c\<close>: \<open>n\<close> when they are the same
  symbol, \<open>a='b'\<close> otherwise.
\<close>

fun join_eq_unequal :: "symtab \<Rightarrow> symref \<Rightarrow> expr \<Rightarrow> expr \<Rightarrow> expr option" where
  "join_eq_unequal T sym1 (Ecmp EQUAL a b) (Ecmp UNEQUAL a' c) =
     (if SYMBOL_CONST \<in> s_flags (T c) \<and> SYMBOL_CONST \<in> s_flags (T b)
      then Some (if b \<noteq> c then expr_alloc_comp EQUAL sym1 b else expr_alloc_symbol symbol_no)
      else None)"
| "join_eq_unequal T sym1 _ _ = None"

definition sym_cmp :: "comp_type \<Rightarrow> symref \<Rightarrow> expr \<Rightarrow> expr \<Rightarrow> bool" where
  "sym_cmp c r e1 e2 \<longleftrightarrow>
     (etype e1 = E_SYMBOL \<and> cmp_is c r e2) \<or> (etype e2 = E_SYMBOL \<and> cmp_is c r e1)"

definition expr_join_and :: "symtab \<Rightarrow> expr \<Rightarrow> expr \<Rightarrow> expr option" where
  "expr_join_and T e1 e2 =
     (if expr_eq e1 e2 then expr_copy e1
      else case (join_sym1 e1, join_sym2 e2) of
        (Some sym1, Some sym2) \<Rightarrow>
          if sym1 \<noteq> sym2 then None
          else if s_type (T sym1) \<noteq> S_BOOLEAN \<and> s_type (T sym1) \<noteq> S_TRISTATE then None
          else if sym_cmp EQUAL symbol_yes e1 e2
            then Some (expr_alloc_comp EQUAL sym1 symbol_yes)
          else if sym_cmp UNEQUAL symbol_no e1 e2
            then Some (expr_alloc_symbol sym1)
          else if sym_cmp UNEQUAL symbol_mod e1 e2
            then Some (expr_alloc_comp EQUAL sym1 symbol_yes)
          else if s_type (T sym1) = S_TRISTATE then
            (case join_eq_unequal T sym1 e1 e2 of Some e \<Rightarrow> Some e | None \<Rightarrow>
            (case join_eq_unequal T sym1 e2 e1 of Some e \<Rightarrow> Some e | None \<Rightarrow>
              if cmp_both UNEQUAL symbol_yes symbol_no e1 e2
                then Some (expr_alloc_comp EQUAL sym1 symbol_mod)
              else if cmp_both UNEQUAL symbol_yes symbol_mod e1 e2
                then Some (expr_alloc_comp EQUAL sym1 symbol_no)
              else if cmp_both UNEQUAL symbol_mod symbol_no e1 e2
                then Some (expr_alloc_comp EQUAL sym1 symbol_yes)
              else None))
          else None
      | _ \<Rightarrow> None)"

section \<open>Redundant operands: \<open>expr_eliminate_dups\<close>\<close>

text \<open>
  A slot (\<open>struct expr **\<close>) of a tree of \<open>&&\<close> and \<open>||\<close> nodes is a path from
  its root. Both pointers of \<open>expr_eliminate_dups1\<close> are slots of the same tree
  \<open>e\<close>; the call on \<open>(&e1, &e1)\<close> works in the tree below that slot only.
\<close>

datatype dir = Lft | Rgt

type_synonym path = "dir list"

fun expr_at :: "expr \<Rightarrow> path \<Rightarrow> expr" where
  "expr_at (Eand l r) (d # p) = expr_at (if d = Lft then l else r) p"
| "expr_at (Eor l r) (d # p) = expr_at (if d = Lft then l else r) p"
| "expr_at e p = e"

fun expr_put :: "expr \<Rightarrow> path \<Rightarrow> expr \<Rightarrow> expr" where
  "expr_put (Eand l r) (d # p) x =
     (if d = Lft then Eand (expr_put l p x) r else Eand l (expr_put r p x))"
| "expr_put (Eor l r) (d # p) x =
     (if d = Lft then Eor (expr_put l p x) r else Eor l (expr_put r p x))"
| "expr_put e p x = x"

fun expr_join :: "symtab \<Rightarrow> expr_type \<Rightarrow> expr \<Rightarrow> expr \<Rightarrow> expr option" where
  "expr_join T E_OR e1 e2 = expr_join_or T e1 e2"
| "expr_join T E_AND e1 e2 = expr_join_and T e1 e2"
| "expr_join T _ e1 e2 = None"

text \<open>
  The result is the tree and the new \<open>trans_count\<close>; \<open>None\<close> would be a call that
  does not return (\<open>dups_returns\<close> in Expr\_Dups shows there is none).
\<close>

partial_function (option) expr_eliminate_dups1 ::
  "symtab \<Rightarrow> expr_type \<Rightarrow> path \<Rightarrow> path \<Rightarrow> expr \<Rightarrow> nat \<Rightarrow> (expr \<times> nat) option" where
  "expr_eliminate_dups1 T ty p1 p2 e n =
     (if etype (expr_at e p1) = ty then
        Option.bind (expr_eliminate_dups1 T ty (p1 @ [Lft]) p2 e n)
          (\<lambda>r. expr_eliminate_dups1 T ty (p1 @ [Rgt]) p2 (fst r) (snd r))
      else if etype (expr_at e p2) = ty then
        Option.bind (expr_eliminate_dups1 T ty p1 (p2 @ [Lft]) e n)
          (\<lambda>r. expr_eliminate_dups1 T ty p1 (p2 @ [Rgt]) (fst r) (snd r))
      else if p1 = p2 then Some (e, n)
      else
        Option.bind
          (if etype (expr_at e p1) = E_OR \<or> etype (expr_at e p1) = E_AND
           then Option.bind
             (expr_eliminate_dups1 T (etype (expr_at e p1)) [] [] (expr_at e p1) n)
             (\<lambda>r. Some (expr_put e p1 (fst r), snd r))
           else Some (e, n))
          (\<lambda>r. case expr_join T ty (expr_at (fst r) p1) (expr_at (fst r) p2) of
             None \<Rightarrow> Some r
           | Some tmp \<Rightarrow>
               Some (expr_put (expr_put (fst r) p1 (neutral ty (expr_at (fst r) p1))) p2 tmp,
                     Suc (snd r))))"

text \<open>The loop of \<open>expr_eliminate_dups\<close>: passes until one changes nothing.\<close>

partial_function (option) dups_loop :: "symtab \<Rightarrow> expr \<Rightarrow> expr option" where
  "dups_loop T e =
     Option.bind
       (if etype e = E_OR \<or> etype e = E_AND then expr_eliminate_dups1 T (etype e) [] [] e 0
        else Some (e, 0))
       (\<lambda>r. if snd r = 0 then Some (fst r) else dups_loop T (expr_eliminate_yn (fst r)))"

text \<open>A null expression is returned as it is.\<close>

fun expr_eliminate_dups :: "symtab \<Rightarrow> expr option \<Rightarrow> expr option option" where
  "expr_eliminate_dups T None = Some None"
| "expr_eliminate_dups T (Some e) = map_option Some (dups_loop T e)"

section \<open>Negation normal form: \<open>expr_transform\<close>\<close>

text \<open>
  The weight is what the rewriting of a negated connective decreases. The
  messages the code prints about a boolean symbol tested for \<open>m\<close> are not modelled,
  and an \<open>E_RANGE\<close> node, whose operands the code would read as expressions, is
  never part of a dependency.
\<close>

fun weight :: "expr \<Rightarrow> nat" where
  "weight (Enot e) = 3 * weight e"
| "weight (Eand l r) = weight l + weight r + 1"
| "weight (Eor l r) = weight l + weight r + 1"
| "weight (Ecmp c a b) = 4"
| "weight _ = 1"

function (sequential) expr_transform :: "symtab \<Rightarrow> expr \<Rightarrow> expr" where
  "expr_transform T (Eand l r) = Eand (expr_transform T l) (expr_transform T r)"
| "expr_transform T (Eor l r) = Eor (expr_transform T l) (expr_transform T r)"
| "expr_transform T (Ecmp EQUAL a b) =
     (if s_type (T a) \<noteq> S_BOOLEAN then Ecmp EQUAL a b
      else if b = symbol_no then Enot (expr_alloc_symbol a)
      else if b = symbol_mod then Esym symbol_no
      else if b = symbol_yes then Esym a
      else Ecmp EQUAL a b)"
| "expr_transform T (Ecmp UNEQUAL a b) =
     (if s_type (T a) \<noteq> S_BOOLEAN then Ecmp UNEQUAL a b
      else if b = symbol_no then Esym a
      else if b = symbol_mod then Esym symbol_yes
      else if b = symbol_yes then Enot (expr_alloc_symbol a)
      else Ecmp UNEQUAL a b)"
| "expr_transform T (Enot e) =
     (case expr_transform T e of
        Enot a \<Rightarrow> expr_transform T a
      | Ecmp EQUAL a b \<Rightarrow> Ecmp UNEQUAL a b
      | Ecmp UNEQUAL a b \<Rightarrow> Ecmp EQUAL a b
      | Ecmp LEQ a b \<Rightarrow> Ecmp GTH a b
      | Ecmp GEQ a b \<Rightarrow> Ecmp LTH a b
      | Ecmp LTH a b \<Rightarrow> Ecmp GEQ a b
      | Ecmp GTH a b \<Rightarrow> Ecmp LEQ a b
      | Eor a b \<Rightarrow> expr_transform T (Eand (Enot a) (Enot b))
      | Eand a b \<Rightarrow> expr_transform T (Eor (Enot a) (Enot b))
      | Esym s \<Rightarrow>
          (if s = symbol_yes then Esym symbol_no
           else if s = symbol_mod then Esym symbol_mod
           else if s = symbol_no then Esym symbol_yes
           else Enot (Esym s))
      | e' \<Rightarrow> Enot e')"
| "expr_transform T e = e"
  by pat_completeness auto

lemma weight_pos: "0 < weight e"
  by (induction e) auto

lemma transform_weight_dom:
  "expr_transform_dom (T, e) \<Longrightarrow> weight (expr_transform T e) \<le> weight e"
proof (induction T e rule: expr_transform.pinduct)
  case (5 T e)
  show ?case
  proof (cases "expr_transform T e")
    case (Esym s) then show ?thesis using 5 by (simp add: expr_transform.psimps)
  next
    case (Enot a) then show ?thesis using 5 by (simp add: expr_transform.psimps)
  next
    case (Eand a b) then show ?thesis using 5 by (simp add: expr_transform.psimps)
  next
    case (Eor a b) then show ?thesis using 5 by (simp add: expr_transform.psimps)
  next
    case (Ecmp c a b)
    then show ?thesis using 5 by (cases c) (simp_all add: expr_transform.psimps)
  next
    case (Elist l s) then show ?thesis using 5 by (simp add: expr_transform.psimps)
  next
    case (Erange a b) then show ?thesis using 5 by (simp add: expr_transform.psimps)
  qed
qed (auto simp: expr_transform.psimps expr_alloc_symbol_def)

termination expr_transform
proof (relation "measure (\<lambda>(T, e). weight e)", goal_cases)
  case (7 T e a)
  then show ?case using transform_weight_dom [of T e] weight_pos [of e] by auto
next
  case (8 T e a b)
  then show ?case using transform_weight_dom [of T e] by simp
next
  case (9 T e a b)
  then show ?case using transform_weight_dom [of T e] by simp
qed (auto simp: weight_pos)

section \<open>Dependence on a symbol\<close>

fun expr_contains_symbol :: "expr \<Rightarrow> symref \<Rightarrow> bool" where
  "expr_contains_symbol (Eand l r) s = (expr_contains_symbol l s \<or> expr_contains_symbol r s)"
| "expr_contains_symbol (Eor l r) s = (expr_contains_symbol l s \<or> expr_contains_symbol r s)"
| "expr_contains_symbol (Esym a) s = (a = s)"
| "expr_contains_symbol (Ecmp c a b) s = (a = s \<or> b = s)"
| "expr_contains_symbol (Enot e) s = expr_contains_symbol e s"
| "expr_contains_symbol _ s = False"

fun expr_depends_symbol :: "expr \<Rightarrow> symref \<Rightarrow> bool" where
  "expr_depends_symbol (Eand l r) s = (expr_depends_symbol l s \<or> expr_depends_symbol r s)"
| "expr_depends_symbol (Esym a) s = (a = s)"
| "expr_depends_symbol (Ecmp EQUAL a b) s = (a = s \<and> (b = symbol_yes \<or> b = symbol_mod))"
| "expr_depends_symbol (Ecmp UNEQUAL a b) s = (a = s \<and> b = symbol_no)"
| "expr_depends_symbol _ s = False"

text \<open>
  \<open>expr_trans_compare\<close>; \<open>c\<close> is \<open>EQUAL\<close> or \<open>UNEQUAL\<close>. With \<open>v\<close> (\<open>sym\<close>) neither \<open>y\<close> nor
  \<open>n\<close> the two compared operands are dropped and the node itself is kept.
\<close>

fun neg_if :: "bool \<Rightarrow> expr \<Rightarrow> expr" where
  "neg_if True e = Enot e"
| "neg_if False e = e"

fun trans_compare_node :: "expr \<Rightarrow> comp_type \<Rightarrow> symref \<Rightarrow> expr option" where
  "trans_compare_node (Eand l r) c v =
     (case (trans_compare_node l EQUAL v, trans_compare_node r EQUAL v) of
        (Some e1, Some e2) \<Rightarrow>
          Some (neg_if (c = UNEQUAL)
            (if v = symbol_no then Eor e1 e2 else if v = symbol_yes then Eand e1 e2
             else Eand l r))
      | _ \<Rightarrow> None)"
| "trans_compare_node (Eor l r) c v =
     (case (trans_compare_node l EQUAL v, trans_compare_node r EQUAL v) of
        (Some e1, Some e2) \<Rightarrow>
          Some (neg_if (c = UNEQUAL)
            (if v = symbol_no then Eand e1 e2 else if v = symbol_yes then Eor e1 e2
             else Eor l r))
      | _ \<Rightarrow> None)"
| "trans_compare_node (Enot e) c v =
     trans_compare_node e (if c = EQUAL then UNEQUAL else EQUAL) v"
| "trans_compare_node (Ecmp o' a b) c v =
     (if c = EQUAL then
        if v = symbol_yes then Some (Ecmp o' a b)
        else if v = symbol_mod then Some (Esym symbol_no)
        else if v = symbol_no then Some (Enot (Ecmp o' a b))
        else None
      else
        if v = symbol_yes then Some (Enot (Ecmp o' a b))
        else if v = symbol_mod then Some (Esym symbol_yes)
        else if v = symbol_no then Some (Ecmp o' a b)
        else None)"
| "trans_compare_node (Esym s) c v = Some (expr_alloc_comp c s v)"
| "trans_compare_node (Elist l s) c v = None"
| "trans_compare_node (Erange a b) c v = None"

fun expr_trans_compare :: "expr option \<Rightarrow> comp_type \<Rightarrow> symref \<Rightarrow> expr option" where
  "expr_trans_compare None c v = Some (neg_if (c = UNEQUAL) (expr_alloc_symbol v))"
| "expr_trans_compare (Some e) c v = trans_compare_node e c v"

end
