(* ===== verification/Strto.thy ===== *)
theory Strto
  imports Prelude
begin

text \<open>
  The C library's number parsing \<open>strtoll\<close> and \<open>strtoull\<close>, which the
  configuration system and the build tools call, and the character classes of
  \<open>ctype.h\<close>.
\<close>

section \<open>Numbers in strings\<close>

definition c_isspace :: "char \<Rightarrow> bool" where
  "c_isspace c \<longleftrightarrow> (of_char c :: nat) = 32 \<or> (9 \<le> (of_char c :: nat) \<and> (of_char c :: nat) \<le> 13)"

definition digit_val :: "char \<Rightarrow> nat option" where
  "digit_val ch =
     (let c = (of_char ch :: nat) in
      if 48 \<le> c \<and> c \<le> 57 then Some (c - 48)
      else if 97 \<le> c \<and> c \<le> 122 then Some (c - 87)
      else if 65 \<le> c \<and> c \<le> 90 then Some (c - 55)
      else None)"

definition is_digit_of :: "nat \<Rightarrow> char \<Rightarrow> bool" where
  "is_digit_of b ch = (case digit_val ch of Some d \<Rightarrow> d < b | None \<Rightarrow> False)"

abbreviation c_isdigit :: "char \<Rightarrow> bool" where "c_isdigit \<equiv> is_digit_of 10"
abbreviation c_isxdigit :: "char \<Rightarrow> bool" where "c_isxdigit \<equiv> is_digit_of 16"

fun scan_digits :: "nat \<Rightarrow> nat \<Rightarrow> string \<Rightarrow> nat \<times> string" where
  "scan_digits b acc [] = (acc, [])"
| "scan_digits b acc (c # cs) =
     (if is_digit_of b c then scan_digits b (acc * b + the (digit_val c)) cs else (acc, c # cs))"

definition has_hex_prefix :: "string \<Rightarrow> bool" where
  "has_hex_prefix s =
     (case s of a # b # c # _ \<Rightarrow> a = CHR ''0'' \<and> (b = CHR ''x'' \<or> b = CHR ''X'') \<and> c_isxdigit c
      | _ \<Rightarrow> False)"

text \<open>
  The number at the start of a string: sign, magnitude and the rest of the
  string; \<open>None\<close> when there is none (\<open>*endptr == str\<close>).
\<close>

definition strto_scan :: "nat \<Rightarrow> string \<Rightarrow> (bool \<times> nat \<times> string) option" where
  "strto_scan base str =
     (let s1 = dropWhile c_isspace str;
          neg = (case s1 of c # _ \<Rightarrow> c = CHR ''-'' | [] \<Rightarrow> False);
          s2 = (case s1 of c # cs \<Rightarrow> (if c = CHR ''-'' \<or> c = CHR ''+'' then cs else s1) | [] \<Rightarrow> []);
          hex = has_hex_prefix s2;
          b = (if base = 0 then (if hex then 16 else if take 1 s2 = ''0'' then 8 else 10) else base);
          s3 = (if hex \<and> b = 16 then drop 2 s2 else s2)
      in case scan_digits b 0 s3 of (v, rest) \<Rightarrow>
           if length rest = length s3 then None else Some (neg, v, rest))"

text \<open>Value, rest of the string, and whether \<open>errno\<close> is set (\<open>ERANGE\<close>).\<close>

definition strtoll :: "string \<Rightarrow> nat \<Rightarrow> int \<times> string \<times> bool" where
  "strtoll str base =
     (case strto_scan base str of
        None \<Rightarrow> (0, str, False)
      | Some (neg, v, rest) \<Rightarrow>
          (let x = (if neg then - int v else int v) in
           if x > 2 ^ 63 - 1 then (2 ^ 63 - 1, rest, True)
           else if x < - (2 ^ 63) then (- (2 ^ 63), rest, True)
           else (x, rest, False)))"

definition strtoull :: "string \<Rightarrow> nat \<Rightarrow> u64 \<times> string \<times> bool" where
  "strtoull str base =
     (case strto_scan base str of
        None \<Rightarrow> (0, str, False)
      | Some (neg, v, rest) \<Rightarrow>
          if v > 2 ^ 64 - 1 then (- 1, rest, True)
          else (if neg then - of_nat v else of_nat v, rest, False))"

end
