(* ===== verification/Expr_Eval.thy ===== *)
theory Expr_Eval
  imports Expr Strto
begin

text \<open>
  Evaluation of a dependency expression (\<open>expr_calc_value\<close> of expr.c) over a
  store whose symbols are up to date, with the number parsing of
  \<open>expr_parse_string\<close>; and the interface \<open>symbol_values\<close> between the simplifier and the evaluator: what
  the simplifications rely on.
\<close>

section \<open>\<open>expr_parse_string\<close>\<close>

datatype string_value_kind = k_string | k_signed | k_unsigned | k_invalid

text \<open>\<open>union string_value\<close> is its 64-bit pattern.\<close>

definition parse_kind :: "string_value_kind \<Rightarrow> string \<Rightarrow> string \<Rightarrow> bool \<Rightarrow> string_value_kind" where
  "parse_kind kind str tail err =
     (if \<not> err \<and> tail = [] \<and> str \<noteq> [] \<and> c_isxdigit (last str) then kind else k_string)"

definition expr_parse_string :: "string \<Rightarrow> symbol_type \<Rightarrow> string_value_kind \<times> u64" where
  "expr_parse_string str ty =
     (if ty = S_BOOLEAN \<or> ty = S_TRISTATE then
        (k_signed, if str = ''n'' then 0 else if str = ''m'' then 1 else if str = ''y'' then 2 else - 1)
      else if ty = S_INT then
        (case strtoll str 10 of (s, tail, err) \<Rightarrow> (parse_kind k_signed str tail err, of_int s))
      else if ty = S_HEX then
        (case strtoull str 16 of (u, tail, err) \<Rightarrow> (parse_kind k_unsigned str tail err, u))
      else if ty = S_STRING \<or> ty = S_UNKNOWN then
        (case strtoll str 0 of (s, tail, err) \<Rightarrow> (parse_kind k_signed str tail err, of_int s))
      else (k_invalid, 0))"

section \<open>Values of symbols\<close>

text \<open>A string value; a null pointer or a symbol is not a string.\<close>

fun cstr :: "cval \<Rightarrow> string" where
  "cstr (CStr s) = s"
| "cstr _ = []"

text \<open>
  \<open>sym_get_tristate_value\<close> and \<open>sym_get_string_value\<close> for a symbol whose value,
  like that of \<open>modules_sym\<close>, is up to date.
\<close>

definition sym_get_tristate_value :: "kstate \<Rightarrow> symref \<Rightarrow> tristate" where
  "sym_get_tristate_value K s = sv_tri (s_curr (k_tab K s))"

definition sym_get_string_value :: "kstate \<Rightarrow> symref \<Rightarrow> string" where
  "sym_get_string_value K s =
     (if s_type (k_tab K s) = S_BOOLEAN \<or> s_type (k_tab K s) = S_TRISTATE then
        (case sym_get_tristate_value K s of
           tri_no \<Rightarrow> ''n''
         | tri_mod \<Rightarrow>
             (if sv_tri (s_curr (k_tab K (k_modules_sym K))) = tri_no then ''n'' else ''m'')
         | tri_yes \<Rightarrow> ''y'')
      else cstr (sv_val (s_curr (k_tab K s))))"

section \<open>\<open>expr_calc_value\<close>\<close>

text \<open>The sign of a comparison: \<open>None\<close> for operands that cannot be compared.\<close>

definition compare_values :: "symbol_type \<Rightarrow> string \<Rightarrow> symbol_type \<Rightarrow> string \<Rightarrow> int option" where
  "compare_values t1 str1 t2 str2 =
     (case (if t1 \<noteq> S_STRING \<or> t2 \<noteq> S_STRING then expr_parse_string str1 t1 else (k_string, 0)) of (k1, lval) \<Rightarrow>
      case (if t1 \<noteq> S_STRING \<or> t2 \<noteq> S_STRING then expr_parse_string str2 t2 else (k_string, 0)) of (k2, rval) \<Rightarrow>
      if k1 = k_string \<or> k2 = k_string then Some (strcmp str1 str2)
      else if k1 = k_invalid \<or> k2 = k_invalid then None
      else if k1 = k_unsigned \<or> k2 = k_unsigned then
        Some (of_bool (uint lval > uint rval) - of_bool (uint lval < uint rval))
      else Some (of_bool (sint lval > sint rval) - of_bool (sint lval < sint rval)))"

fun relation_holds :: "comp_type \<Rightarrow> int \<Rightarrow> bool" where
  "relation_holds EQUAL res = (res = 0)"
| "relation_holds GEQ res = (res \<ge> 0)"
| "relation_holds GTH res = (res > 0)"
| "relation_holds LEQ res = (res \<le> 0)"
| "relation_holds LTH res = (res < 0)"
| "relation_holds UNEQUAL res = (res \<noteq> 0)"

definition compare_strings :: "comp_type \<Rightarrow> symbol_type \<Rightarrow> string \<Rightarrow> symbol_type \<Rightarrow> string \<Rightarrow> bool" where
  "compare_strings c t1 str1 t2 str2 =
     (case compare_values t1 str1 t2 str2 of
        Some res \<Rightarrow> relation_holds c res
      | None \<Rightarrow> (if c \<noteq> EQUAL \<and> c \<noteq> UNEQUAL then False
                 else relation_holds c (strcmp str1 str2)))"

definition comparison_holds :: "kstate \<Rightarrow> comp_type \<Rightarrow> symref \<Rightarrow> symref \<Rightarrow> bool" where
  "comparison_holds K c a b =
     compare_strings c (s_type (k_tab K a)) (sym_get_string_value K a)
       (s_type (k_tab K b)) (sym_get_string_value K b)"

fun expr_val :: "(symref \<Rightarrow> tristate) \<Rightarrow> (comp_type \<Rightarrow> symref \<Rightarrow> symref \<Rightarrow> bool) \<Rightarrow> expr \<Rightarrow> tristate" where
  "expr_val f g (Esym s) = f s"
| "expr_val f g (Eand l r) = EXPR_AND (expr_val f g l) (expr_val f g r)"
| "expr_val f g (Eor l r) = EXPR_OR (expr_val f g l) (expr_val f g r)"
| "expr_val f g (Enot e) = EXPR_NOT (expr_val f g e)"
| "expr_val f g (Ecmp c a b) = (if g c a b then tri_yes else tri_no)"
| "expr_val f g (Elist l s) = tri_no"
| "expr_val f g (Erange a b) = tri_no"

fun expr_calc_value :: "kstate \<Rightarrow> expr option \<Rightarrow> tristate" where
  "expr_calc_value K None = tri_yes"
| "expr_calc_value K (Some e) = expr_val (sym_get_tristate_value K) (comparison_holds K) e"

section \<open>What the simplifier relies on\<close>

text \<open>
  \<open>plain\<close> marks the constants that a comparison reads as strings: two different
  constants of this kind are never both equal to a tristate symbol.
\<close>

locale symbol_values =
  fixes inv :: "kstate \<Rightarrow> bool"
    and tri_of :: "kstate \<Rightarrow> symref \<Rightarrow> tristate"
    and cmp_of :: "kstate \<Rightarrow> comp_type \<Rightarrow> symref \<Rightarrow> symref \<Rightarrow> bool"
    and plain :: "kstate \<Rightarrow> symref \<Rightarrow> bool"
  assumes tri_consts: "inv K \<Longrightarrow> tri_of K symbol_yes = tri_yes"
      "inv K \<Longrightarrow> tri_of K symbol_mod = tri_mod" "inv K \<Longrightarrow> tri_of K symbol_no = tri_no"
    and bool_two_valued: "inv K \<Longrightarrow> s_type (k_tab K s) = S_BOOLEAN \<Longrightarrow> tri_of K s \<noteq> tri_mod"
    and cmp_consts:
      "inv K \<Longrightarrow> s_type (k_tab K s) = S_BOOLEAN \<or> s_type (k_tab K s) = S_TRISTATE \<Longrightarrow>
         cmp_of K EQUAL s symbol_yes = (tri_of K s = tri_yes)"
      "inv K \<Longrightarrow> s_type (k_tab K s) = S_BOOLEAN \<or> s_type (k_tab K s) = S_TRISTATE \<Longrightarrow>
         cmp_of K EQUAL s symbol_mod = (tri_of K s = tri_mod)"
      "inv K \<Longrightarrow> s_type (k_tab K s) = S_BOOLEAN \<or> s_type (k_tab K s) = S_TRISTATE \<Longrightarrow>
         cmp_of K EQUAL s symbol_no = (tri_of K s = tri_no)"
    and cmp_unequal: "inv K \<Longrightarrow> cmp_of K UNEQUAL a b = (\<not> cmp_of K EQUAL a b)"
    and cmp_total: "inv K \<Longrightarrow> cmp_of K GTH a b = (\<not> cmp_of K LEQ a b)"
      "inv K \<Longrightarrow> cmp_of K GEQ a b = (\<not> cmp_of K LTH a b)"
    and plain_consts: "inv K \<Longrightarrow> plain K symbol_yes" "inv K \<Longrightarrow> plain K symbol_mod"
      "inv K \<Longrightarrow> plain K symbol_no"
    and plain_distinct:
      "inv K \<Longrightarrow> s_type (k_tab K a) = S_TRISTATE \<Longrightarrow> plain K b \<Longrightarrow> plain K c \<Longrightarrow>
         SYMBOL_CONST \<in> s_flags (k_tab K b) \<Longrightarrow> SYMBOL_CONST \<in> s_flags (k_tab K c) \<Longrightarrow>
         b \<noteq> c \<Longrightarrow> cmp_of K EQUAL a b \<Longrightarrow> \<not> cmp_of K EQUAL a c"

end
