(* ===== verification/Expr_Sound.thy ===== *)
theory Expr_Sound
  imports Expr_Eval
begin

text \<open>
  Soundness of the simplifications of expr.c: every one keeps the value of the
  expression. The lemmas are proved once against the interface \<open>symbol_values\<close>,
  which Expr\_Store interprets on the symbol store.
\<close>

section \<open>Values of connectives\<close>

definition conn :: "expr_type \<Rightarrow> tristate \<Rightarrow> tristate \<Rightarrow> tristate" where
  "conn ty = (if ty = E_OR then max else min)"

lemma conn_assoc: "conn ty (conn ty a b) c = conn ty a (conn ty b c)"
  by (simp add: conn_def ac_simps)

lemma conn_commute: "conn ty a b = conn ty b a"
  by (simp add: conn_def ac_simps)

lemma conn_left_commute: "conn ty a (conn ty b c) = conn ty b (conn ty a c)"
  by (simp add: conn_def ac_simps)

lemmas conn_ac = conn_assoc conn_commute conn_left_commute

lemma conn_idem [simp]: "conn ty a a = a"
  by (simp add: conn_def)

lemma conn_mono: "mono (conn ty a)"
  by (auto simp: conn_def mono_def max.coboundedI2 min.coboundedI2)

lemma expr_val_and [expr_val]: "expr_val f g (Eand l r) = min (expr_val f g l) (expr_val f g r)"
  by (simp add: EXPR_AND_min)

lemma expr_val_or [expr_val]: "expr_val f g (Eor l r) = max (expr_val f g l) (expr_val f g r)"
  by (simp add: EXPR_OR_max)

lemmas expr_val_leaf [expr_val] = expr_val.simps(1,4-7)

declare expr_val.simps [simp del]

lemma kids_val: "kids ty e = Some (l, r) \<Longrightarrow> expr_val f g e = conn ty (expr_val f g l) (expr_val f g r)"
  by (auto simp: kids_Some_conv conn_def expr_val)

lemma mk_node_val:
  "kids ty e = Some lr \<Longrightarrow> expr_val f g (mk_node ty l r) = conn ty (expr_val f g l) (expr_val f g r)"
  by (cases lr) (auto simp: kids_Some_conv conn_def expr_val)

lemma expr_copy_id: "expr_copy e = Some e' \<Longrightarrow> e' = e"
  by (induction e arbitrary: e') (auto split: option.splits)

lemma cmp_is_conv: "cmp_is c r e \<longleftrightarrow> (\<exists>a. e = Ecmp c a r)"
  by (cases e) auto

lemma not_sym_conv: "not_sym e \<longleftrightarrow> (\<exists>s. e = Enot (Esym s))"
  by (auto simp: not_sym_def split: expr.splits)

lemma etype_sym_conv: "etype e = E_SYMBOL \<longleftrightarrow> (\<exists>s. e = Esym s)"
  by (cases e) auto

lemma cmp_both_dest:
  assumes "cmp_both c x y e1 e2" "join_sym1 e1 = Some s" "join_sym2 e2 = Some s"
  shows "(e1 = Ecmp c s x \<and> e2 = Ecmp c s y) \<or> (e1 = Ecmp c s y \<and> e2 = Ecmp c s x)"
  using assms by (auto simp: cmp_both_def cmp_is_conv split: if_splits)

lemma sym_cmp_dest:
  assumes "sym_cmp c r e1 e2" "join_sym1 e1 = Some s" "join_sym2 e2 = Some s"
  shows "(e1 = Esym s \<and> e2 = Ecmp c s r) \<or> (e2 = Esym s \<and> e1 = Ecmp c s r)"
  using assms by (auto simp: sym_cmp_def cmp_is_conv etype_sym_conv split: if_splits)

lemma not_sym_dest:
  assumes "(not_sym e1 \<and> etype e2 = E_SYMBOL) \<or> (not_sym e2 \<and> etype e1 = E_SYMBOL)"
    "join_sym1 e1 = Some s" "join_sym2 e2 = Some s"
  shows "(e1 = Enot (Esym s) \<and> e2 = Esym s) \<or> (e2 = Enot (Esym s) \<and> e1 = Esym s)"
  using assms by (auto simp: not_sym_conv etype_sym_conv)

lemma join_eq_unequal_dest:
  assumes "join_eq_unequal T s e1 e2 = Some t"
    "(join_sym1 e1 = Some s \<and> join_sym2 e2 = Some s) \<or> (join_sym1 e2 = Some s \<and> join_sym2 e1 = Some s)"
  shows "\<exists>b c. e1 = Ecmp EQUAL s b \<and> e2 = Ecmp UNEQUAL s c \<and>
    SYMBOL_CONST \<in> s_flags (T b) \<and> SYMBOL_CONST \<in> s_flags (T c) \<and>
    t = (if b \<noteq> c then Ecmp EQUAL s b else Esym symbol_no)"
  using assms
  by (cases "(T, s, e1, e2)" rule: join_eq_unequal.cases)
    (auto simp: expr_alloc_comp_def expr_alloc_symbol_def split: if_splits)

text \<open>The successful branches of the joins.\<close>

lemma join_or_cases:
  assumes "expr_join_or T e1 e2 = Some t"
  obtains (eq) "expr_eq e1 e2" "t = e1"
  | (cmp) s x y z where "s_type (T s) = S_TRISTATE" "t = Ecmp UNEQUAL s z"
      "(x, y, z) \<in> {(symbol_yes, symbol_mod, symbol_no), (symbol_yes, symbol_no, symbol_mod),
        (symbol_mod, symbol_no, symbol_yes)}"
      "(e1 = Ecmp EQUAL s x \<and> e2 = Ecmp EQUAL s y) \<or> (e1 = Ecmp EQUAL s y \<and> e2 = Ecmp EQUAL s x)"
  | (bool) s where "s_type (T s) = S_BOOLEAN" "t = Esym symbol_yes"
      "(e1 = Enot (Esym s) \<and> e2 = Esym s) \<or> (e2 = Enot (Esym s) \<and> e1 = Esym s)"
proof (cases "expr_eq e1 e2")
  case True
  with assms eq show thesis by (auto simp: expr_join_or_def dest: expr_copy_id)
next
  case False
  with assms obtain s where s: "join_sym1 e1 = Some s" "join_sym2 e2 = Some s"
    by (auto simp: expr_join_or_def split: option.splits if_splits)
  note d = cmp_both_dest [OF _ s] not_sym_dest [OF _ s]
  from assms False s consider
      "s_type (T s) = S_TRISTATE" "cmp_both EQUAL symbol_yes symbol_mod e1 e2" "t = Ecmp UNEQUAL s symbol_no"
    | "s_type (T s) = S_TRISTATE" "cmp_both EQUAL symbol_yes symbol_no e1 e2" "t = Ecmp UNEQUAL s symbol_mod"
    | "s_type (T s) = S_TRISTATE" "cmp_both EQUAL symbol_mod symbol_no e1 e2" "t = Ecmp UNEQUAL s symbol_yes"
    | "s_type (T s) = S_BOOLEAN" "t = Esym symbol_yes"
      "(not_sym e1 \<and> etype e2 = E_SYMBOL) \<or> (not_sym e2 \<and> etype e1 = E_SYMBOL)"
    by (auto simp: expr_join_or_def expr_alloc_comp_def expr_alloc_symbol_def split: if_splits)
  then show thesis
  proof cases
    case 1 then show thesis using d(1) [OF 1(2)] by (intro cmp [of s _ symbol_yes symbol_mod]) auto
  next
    case 2 then show thesis using d(1) [OF 2(2)] by (intro cmp [of s _ symbol_yes symbol_no]) auto
  next
    case 3 then show thesis using d(1) [OF 3(2)] by (intro cmp [of s _ symbol_mod symbol_no]) auto
  next
    case 4 then show thesis using d(2) [OF 4(3)] bool by blast
  qed
qed

lemma join_and_cases:
  assumes "expr_join_and T e1 e2 = Some t"
  obtains (eq) "expr_eq e1 e2" "t = e1"
  | (sym) s c x where "s_type (T s) = S_BOOLEAN \<or> s_type (T s) = S_TRISTATE"
      "(c, x, t) \<in> {(EQUAL, symbol_yes, Ecmp EQUAL s symbol_yes), (UNEQUAL, symbol_no, Esym s),
         (UNEQUAL, symbol_mod, Ecmp EQUAL s symbol_yes)}"
      "(e1 = Esym s \<and> e2 = Ecmp c s x) \<or> (e2 = Esym s \<and> e1 = Ecmp c s x)"
  | (const) s b c where "s_type (T s) = S_TRISTATE"
      "SYMBOL_CONST \<in> s_flags (T b)" "SYMBOL_CONST \<in> s_flags (T c)"
      "t = (if b \<noteq> c then Ecmp EQUAL s b else Esym symbol_no)"
      "(e1 = Ecmp EQUAL s b \<and> e2 = Ecmp UNEQUAL s c) \<or> (e2 = Ecmp EQUAL s b \<and> e1 = Ecmp UNEQUAL s c)"
  | (cmp) s x y z where "s_type (T s) = S_TRISTATE" "t = Ecmp EQUAL s z"
      "(x, y, z) \<in> {(symbol_yes, symbol_no, symbol_mod), (symbol_yes, symbol_mod, symbol_no),
        (symbol_mod, symbol_no, symbol_yes)}"
      "(e1 = Ecmp UNEQUAL s x \<and> e2 = Ecmp UNEQUAL s y) \<or>
       (e1 = Ecmp UNEQUAL s y \<and> e2 = Ecmp UNEQUAL s x)"
proof (cases "expr_eq e1 e2")
  case True
  with assms eq show thesis by (auto simp: expr_join_and_def dest: expr_copy_id)
next
  case False
  with assms obtain s where s: "join_sym1 e1 = Some s" "join_sym2 e2 = Some s"
    by (auto simp: expr_join_and_def split: option.splits if_splits)
  note d = cmp_both_dest [OF _ s] sym_cmp_dest [OF _ s]
    join_eq_unequal_dest [of T s e1 e2] join_eq_unequal_dest [of T s e2 e1]
  from assms False s consider
      c x where "sym_cmp c x e1 e2" "s_type (T s) = S_BOOLEAN \<or> s_type (T s) = S_TRISTATE"
        "(c, x, t) \<in> {(EQUAL, symbol_yes, Ecmp EQUAL s symbol_yes), (UNEQUAL, symbol_no, Esym s),
         (UNEQUAL, symbol_mod, Ecmp EQUAL s symbol_yes)}"
    | "s_type (T s) = S_TRISTATE"
        "join_eq_unequal T s e1 e2 = Some t \<or> join_eq_unequal T s e2 e1 = Some t"
    | x y z where "s_type (T s) = S_TRISTATE" "cmp_both UNEQUAL x y e1 e2" "t = Ecmp EQUAL s z"
        "(x, y, z) \<in> {(symbol_yes, symbol_no, symbol_mod), (symbol_yes, symbol_mod, symbol_no),
        (symbol_mod, symbol_no, symbol_yes)}"
    by (auto simp: expr_join_and_def expr_alloc_comp_def expr_alloc_symbol_def
        split: if_splits option.splits)
  then show thesis
  proof cases
    case (1 c x) then show thesis using d(2) [OF 1(1)] by (intro sym [of s c x]) auto
  next
    case 2
    then show thesis using d(3,4) s const [OF 2(1)] by blast
  next
    case (3 x y z) then show thesis using d(1) [OF 3(2)] by (intro cmp [of s z x y]) auto
  qed
qed

text \<open>The comparisons of an expression: left and right operand.\<close>

fun cmps :: "expr \<Rightarrow> (symref \<times> symref) set" where
  "cmps (Eand l r) = cmps l \<union> cmps r"
| "cmps (Eor l r) = cmps l \<union> cmps r"
| "cmps (Enot e) = cmps e"
| "cmps (Ecmp c a b) = {(a, b)}"
| "cmps _ = {}"

section \<open>Shared lemmas of the passes\<close>

context symbol_values
begin

abbreviation val :: "kstate \<Rightarrow> expr \<Rightarrow> tristate" where
  "val K e \<equiv> expr_val (tri_of K) (cmp_of K) e"

lemma yn_sound: "inv K \<Longrightarrow> val K (expr_eliminate_yn e) = val K e"
proof (induction e rule: expr_eliminate_yn.induct)
  case (1 l r)
  then have "val K l = val K (expr_eliminate_yn l)" "val K r = val K (expr_eliminate_yn r)" by simp_all
  then show ?case by (simp add: Let_def expr_val tri_consts [OF 1(3)])
next
  case (2 l r)
  then have "val K l = val K (expr_eliminate_yn l)" "val K r = val K (expr_eliminate_yn r)" by simp_all
  then show ?case by (simp add: Let_def expr_val tri_consts [OF 2(3)])
qed simp_all

lemma elim_eq_leaf:
  assumes "inv K" "val K e1 = val K e2"
  shows "\<exists>c. val K e1 = conn ty c (val K (neutral ty e1)) \<and> val K e2 = conn ty c (val K (neutral ty e2))"
  using assms tri_consts [OF assms(1)]
  by (cases "(ty, e1)" rule: neutral.cases)
    (auto simp: conn_def expr_val expr_alloc_symbol_def intro: exI [of _ tri_yes] exI [of _ "val K e2"])

text \<open>
  What elimination keeps: both expressions are obtained from the results by one
  and the same monotone function, the operands taken away.
\<close>

lemma eq_sound:
  shows expr_eq_sound: "inv K \<Longrightarrow> expr_eq e1 e2 \<Longrightarrow> val K e1 = val K e2"
    and elim_eq_sound: "inv K \<Longrightarrow> elim_eq ty e1 e2 n = (f1, f2, m) \<Longrightarrow>
      \<exists>c. val K e1 = conn ty c (val K f1) \<and> val K e2 = conn ty c (val K f2)"
    and eliminate_eq_sound: "inv K \<Longrightarrow> expr_eliminate_eq e1 e2 n = (f1, f2, m) \<Longrightarrow>
      \<exists>h. mono h \<and> val K e1 = h (val K f1) \<and> val K e2 = h (val K f2)"
proof (induction e1 e2 and ty e1 e2 n and e1 e2 n arbitrary: and f1 f2 m and f1 f2 m
    rule: expr_eq_elim_eq_expr_eliminate_eq.induct)
  case (1 e1 e2)
  show ?case
  proof (cases e1)
    case (Enot a)
    with 1 show ?thesis by (auto simp: expr_eq_simps expr_val)
  next
    case (Eand a b)
    with 1(5) obtain s m where t: "etype e2 = E_AND"
      and r: "expr_eliminate_eq e1 e2 0 = (Esym s, Esym s, m)"
      by (auto simp: expr_eq_simps)
    from 1(2) [OF _ Eand 1(4) r] t Eand show ?thesis by auto
  next
    case (Eor a b)
    with 1(5) obtain s m where t: "etype e2 = E_OR"
      and r: "expr_eliminate_eq e1 e2 0 = (Esym s, Esym s, m)"
      by (auto simp: expr_eq_simps)
    from 1(3) [OF _ Eor 1(4) r] t Eor show ?thesis by auto
  qed (use 1 in \<open>auto simp: expr_eq_simps\<close>)
next
  case (2 ty e1 e2 n)
  show ?case
  proof (cases "kids ty e1")
    case (Some lr)
    then obtain l r where lr: "kids ty e1 = Some (l, r)" by (cases lr) auto
    obtain l' e2' n' where s1: "elim_eq ty l e2 n = (l', e2', n')" by (metis prod_cases3)
    obtain r' e2'' n'' where s2: "elim_eq ty r e2' n' = (r', e2'', n'')" by (metis prod_cases3)
    from 2(4) [OF lr refl 2(6) s1] obtain c1
      where "val K l = conn ty c1 (val K l')" "val K e2 = conn ty c1 (val K e2')" by auto
    moreover from 2(5) [OF lr refl s1 [symmetric] refl 2(6) s2] obtain c2
      where "val K r = conn ty c2 (val K r')" "val K e2' = conn ty c2 (val K e2'')" by auto
    ultimately show ?thesis
      using 2(7) lr s1 s2
      by (auto simp: elim_eq_kids1 kids_val mk_node_val [OF lr] conn_ac
          intro!: exI [of _ "conn ty c1 c2"])
  next
    case None
    note n1 = None
    show ?thesis
    proof (cases "kids ty e2")
      case (Some lr)
      then obtain l r where lr: "kids ty e2 = Some (l, r)" by (cases lr) auto
      obtain e1' l' n' where s1: "elim_eq ty e1 l n = (e1', l', n')" by (metis prod_cases3)
      obtain e1'' r' n'' where s2: "elim_eq ty e1' r n' = (e1'', r', n'')" by (metis prod_cases3)
      from 2(2) [OF n1 lr refl 2(6) s1] obtain c1
        where "val K e1 = conn ty c1 (val K e1')" "val K l = conn ty c1 (val K l')" by auto
      moreover from 2(3) [OF n1 lr refl s1 [symmetric] refl 2(6) s2] obtain c2
        where "val K e1' = conn ty c2 (val K e1'')" "val K r = conn ty c2 (val K r')" by auto
      ultimately show ?thesis
        using 2(7) n1 lr s1 s2
        by (auto simp: elim_eq_kids2 kids_val mk_node_val [OF lr] conn_ac
            intro!: exI [of _ "conn ty c1 c2"])
    next
      case None
      show ?thesis
      proof (cases "expr_eq e1 e2 \<and> \<not> (e1 = e2 \<and> (e1 = Esym symbol_yes \<or> e1 = Esym symbol_no))")
        case True
        with 2 n1 None have "val K e1 = val K e2" by blast
        from elim_eq_leaf [OF 2(6) this] True 2(7) n1 None show ?thesis
          by (auto simp: elim_eq_leaves split: if_splits)
      next
        case False
        with 2(7) n1 None have "f1 = e1" "f2 = e2" by (auto simp: elim_eq_leaves split: if_splits)
        then show ?thesis
          by (intro exI [of _ "if ty = E_OR then tri_no else tri_yes"]) (simp add: conn_def)
      qed
    qed
  qed
next
  case (3 e1 e2 n)
  obtain g1 g2 k where g: "(if etype e1 = E_OR \<or> etype e1 = E_AND then elim_eq (etype e1) e1 e2 n
      else (e1, e2, n)) = (g1, g2, k)" by (metis prod_cases3)
  obtain h1 h2 j where h: "(if etype g1 \<noteq> etype g2 \<and> (etype g2 = E_OR \<or> etype g2 = E_AND)
      then elim_eq (etype g2) g1 g2 k else (g1, g2, k)) = (h1, h2, j)" by (metis prod_cases3)
  have f: "f1 = expr_eliminate_yn h1" "f2 = expr_eliminate_yn h2"
    using 3(4) g h by (auto simp: expr_eliminate_eq.simps split: prod.splits)
  have none: "\<exists>c. mono c \<and> x = c x \<and> y = c y" for x y :: tristate
    by (intro exI [of _ "\<lambda>x. x"]) (simp add: mono_def)
  have a: "\<exists>c. mono c \<and> val K e1 = c (val K g1) \<and> val K e2 = c (val K g2)"
    using 3(1) [OF _ 3(3)] g conn_mono none by (auto split: if_splits)
  have b: "\<exists>c. mono c \<and> val K g1 = c (val K h1) \<and> val K g2 = c (val K h2)"
    using 3(2) [OF g [symmetric] refl _ 3(3)] h conn_mono none by (auto split: if_splits)
  obtain c where c: "mono c" "val K e1 = c (val K g1)" "val K e2 = c (val K g2)" using a by blast
  obtain d where "mono d" "val K g1 = d (val K h1)" "val K g2 = d (val K h2)" using b by blast
  with c show ?case
    using yn_sound [OF 3(3)] f by (intro exI [of _ "c \<circ> d"]) (auto simp: mono_def)
qed

text \<open>
  \<open>expr_transform\<close> keeps the value: a boolean symbol is never \<open>m\<close>, and comparisons
  are total.
\<close>

lemma transform_sound: "inv K \<Longrightarrow> val K (expr_transform (k_tab K) e) = val K e"
proof (induction "k_tab K" e rule: expr_transform.induct)
  case (3 a b)
  then show ?case
    using bool_two_valued [of K a] cmp_consts [of K a] 
    by (cases "tri_of K a") (auto simp: expr_val tri_consts expr_alloc_symbol_def)
next
  case (4 a b)
  then show ?case
    using bool_two_valued [of K a] cmp_consts [of K a] cmp_unequal [of K a b]
    by (cases "tri_of K a") (auto simp: expr_val tri_consts expr_alloc_symbol_def)
next
  case (5 e)
  note ih = 5(1) [OF 5(5)]
  have not_e: "val K (Enot e) = EXPR_NOT (val K (expr_transform (k_tab K) e))"
    by (simp add: ih expr_val)
  show ?case
  proof (cases "expr_transform (k_tab K) e")
    case (Enot a)
    with 5(2) [OF Enot 5(5)] not_e show ?thesis by (simp add: expr_val)
  next
    case (Eand a b)
    with 5(3) [OF Eand 5(5)] not_e show ?thesis by (simp add: expr_val)
  next
    case (Eor a b)
    with 5(4) [OF Eor 5(5)] not_e show ?thesis by (simp add: expr_val)
  next
    case (Ecmp c a b)
    with not_e show ?thesis
      using cmp_unequal [OF 5(5), of a b] cmp_total [OF 5(5), of a b] by (cases c) (simp_all add: expr_val)
  qed (use not_e tri_consts [OF 5(5)] in \<open>auto simp: expr_val\<close>)
qed (simp_all add: expr_val)

text \<open>The joins keep the value.\<close>

lemma join_or_sound:
  assumes K: "inv K" and j: "expr_join_or (k_tab K) e1 e2 = Some t"
  shows "val K t = max (val K e1) (val K e2)"
  using j
proof (cases rule: join_or_cases)
  case eq
  with expr_eq_sound [OF K] show ?thesis by auto
next
  case (cmp s x y z)
  note c = cmp_consts [OF K disjI2 [OF cmp(1)]]
  from cmp(2-) show ?thesis
    by (cases "tri_of K s") (auto simp: expr_val c cmp_unequal [OF K])
next
  case (bool s)
  then show ?thesis
    using bool_two_valued [OF K, of s] tri_consts [OF K]
    by (cases "tri_of K s") (auto simp: expr_val)
qed

lemma join_and_sound:
  assumes K: "inv K" and j: "expr_join_and (k_tab K) e1 e2 = Some t"
    and p: "\<And>a b. (a, b) \<in> cmps e1 \<union> cmps e2 \<Longrightarrow> s_type (k_tab K a) = S_TRISTATE \<Longrightarrow>
      SYMBOL_CONST \<in> s_flags (k_tab K b) \<Longrightarrow> plain K b"
  shows "val K t = min (val K e1) (val K e2)"
  using j
proof (cases rule: join_and_cases)
  case eq
  with expr_eq_sound [OF K] show ?thesis by auto
next
  case (sym s c x)
  note c = cmp_consts [OF K sym(1)]
  from sym(2-) show ?thesis
    by (cases "tri_of K s") (auto simp: expr_val c cmp_unequal [OF K])
next
  case (const s b c)
  then have "(s, b) \<in> cmps e1 \<union> cmps e2" "(s, c) \<in> cmps e1 \<union> cmps e2" by auto
  with p const(1-3) have "plain K b" "plain K c" by blast+
  with plain_distinct [OF K const(1)] const show ?thesis
    using tri_consts [OF K] cmp_unequal [OF K] by (auto simp: expr_val)
next
  case (cmp s x y z)
  note c = cmp_consts [OF K disjI2 [OF cmp(1)]]
  from cmp(2-) show ?thesis
    by (cases "tri_of K s") (auto simp: expr_val c cmp_unequal [OF K])
qed

end

end
