(* ===== verification/Expr_Dups.thy ===== *)
theory Expr_Dups
  imports Expr_Sound
begin

text \<open>
  The pass \<open>expr_eliminate_dups\<close>: it returns for every expression and keeps its
  value. A call of \<open>expr_eliminate_dups1\<close> walks two slots over the operands of one
  connective; the slots of that connective never change, nested connectives are
  simplified on their own, and every replacement leaves a constant that
  \<open>expr_eliminate_yn\<close> removes, so that the loop ends.
\<close>

section \<open>Slots of a connective\<close>

lemma not_Lft [simp]: "d \<noteq> Lft \<longleftrightarrow> d = Rgt"
  by (cases d) simp_all

lemma not_Rgt [simp]: "Rgt \<noteq> d \<longleftrightarrow> d = Lft"
  by (cases d) simp_all

fun spos :: "expr_type \<Rightarrow> expr \<Rightarrow> path \<Rightarrow> bool" where
  "spos ty e [] = True"
| "spos ty e (d # p) =
     (case kids ty e of Some (l, r) \<Rightarrow> spos ty (if d = Lft then l else r) p | None \<Rightarrow> False)"

definition leafpos :: "expr_type \<Rightarrow> expr \<Rightarrow> path \<Rightarrow> bool" where
  "leafpos ty e p \<longleftrightarrow> spos ty e p \<and> kids ty (expr_at e p) = None"

fun altd :: "expr_type \<Rightarrow> expr \<Rightarrow> nat" where
  "altd ty (Eor l r) =
     (if ty = E_OR then max (altd E_OR l) (altd E_OR r) else Suc (max (altd E_OR l) (altd E_OR r)))"
| "altd ty (Eand l r) =
     (if ty = E_AND then max (altd E_AND l) (altd E_AND r)
      else Suc (max (altd E_AND l) (altd E_AND r)))"
| "altd ty _ = 0"

fun redundant :: "expr \<Rightarrow> bool" where
  "redundant (Eand l r) \<longleftrightarrow> l = Esym symbol_yes \<or> r = Esym symbol_yes \<or> redundant l \<or> redundant r"
| "redundant (Eor l r) \<longleftrightarrow> l = Esym symbol_no \<or> r = Esym symbol_no \<or> redundant l \<or> redundant r"
| "redundant _ \<longleftrightarrow> False"

lemma yn_size_less: "redundant e \<Longrightarrow> size (expr_eliminate_yn e) < size e"
proof (induction e rule: redundant.induct)
  case (1 l r)
  then show ?case using yn_size [of l] yn_size [of r] by (auto simp: Let_def)
next
  case (2 l r)
  then show ?case using yn_size [of l] yn_size [of r] by (auto simp: Let_def)
qed simp_all

lemma expr_at_Nil [simp]: "expr_at e [] = e"
  by (cases e) simp_all

lemma expr_put_Nil [simp]: "expr_put e [] x = x"
  by (cases e) simp_all

lemma expr_at_kids: "kids ty e = Some (l, r) \<Longrightarrow> expr_at e (d # p) = expr_at (if d = Lft then l else r) p"
  by (auto simp: kids_Some_conv)

lemma expr_put_kids:
  "kids ty e = Some (l, r) \<Longrightarrow>
   expr_put e (d # p) x = (if d = Lft then mk_node ty (expr_put l p x) r else mk_node ty l (expr_put r p x))"
  by (auto simp: kids_Some_conv)

lemma kids_mk_node: "kids ty e = Some lr \<Longrightarrow> kids ty (mk_node ty l r) = Some (l, r)"
  by (cases lr) (auto simp: kids_Some_conv)

text \<open>
  Induction over a slot: the root, or a slot of one operand of a node of the connective.
\<close>

lemma spos_induct [consumes 1, case_names root left right]:
  assumes "spos ty e p"
    and root: "\<And>e. Q e []"
    and left: "\<And>e l r p. kids ty e = Some (l, r) \<Longrightarrow> spos ty l p \<Longrightarrow> Q l p \<Longrightarrow> Q e (Lft # p)"
    and right: "\<And>e l r p. kids ty e = Some (l, r) \<Longrightarrow> spos ty r p \<Longrightarrow> Q r p \<Longrightarrow> Q e (Rgt # p)"
  shows "Q e p"
  using assms(1)
proof (induction p arbitrary: e)
  case Nil show ?case by (rule root)
next
  case (Cons d p)
  then obtain l r where k: "kids ty e = Some (l, r)" and s: "spos ty (if d = Lft then l else r) p"
    by (auto split: option.splits)
  show ?case
  proof (cases d)
    case Lft with Cons.IH s left [OF k] show ?thesis by simp
  next
    case Rgt with Cons.IH s right [OF k] show ?thesis by simp
  qed
qed

lemma spos_append: "spos ty e (p @ q) \<longleftrightarrow> spos ty e p \<and> spos ty (expr_at e p) q"
  by (induction p arbitrary: e) (auto simp: expr_at_kids split: option.splits)

lemma kids_at: "spos ty e p \<Longrightarrow> kids ty (expr_at e p) \<noteq> None \<longleftrightarrow> spos ty e (p @ [d])"
  by (auto simp: spos_append split: option.splits)

lemma etype_kids_iff: "ty = E_OR \<or> ty = E_AND \<Longrightarrow> etype e = ty \<longleftrightarrow> kids ty e \<noteq> None"
  by (cases e) auto

lemma spos_root: "spos ty e [Lft] \<longleftrightarrow> kids ty e \<noteq> None"
  by (auto split: option.splits)

lemma spos_length: "spos ty e p \<Longrightarrow> length p \<le> size e"
  by (induction rule: spos_induct) (auto dest!: kids_size)

lemma put_at [simp]: "spos ty e p \<Longrightarrow> expr_put e p (expr_at e p) = e"
  by (induction rule: spos_induct) (auto simp: expr_put_kids expr_at_kids dest: kids_mk)

lemma at_put: "spos ty e p \<Longrightarrow> expr_at (expr_put e p x) p = x"
proof (induction rule: spos_induct)
  case (left e l r p)
  then show ?case by (simp add: expr_put_kids expr_at_kids [OF kids_mk_node [OF left(1)]])
next
  case (right e l r p)
  then show ?case by (simp add: expr_put_kids expr_at_kids [OF kids_mk_node [OF right(1)]])
qed simp

text \<open>Replacing an operand keeps the slots of the connective, and the other operands.\<close>

lemma spos_put: "leafpos ty e p \<Longrightarrow> kids ty x = None \<Longrightarrow> spos ty (expr_put e p x) q \<longleftrightarrow> spos ty e q"
proof -
  assume "leafpos ty e p" and x: "kids ty x = None"
  then have "spos ty e p" "kids ty (expr_at e p) = None" by (simp_all add: leafpos_def)
  then show ?thesis
  proof (induction arbitrary: q rule: spos_induct)
    case (root e)
    then show ?case using x by (cases q) simp_all
  next
    case (left e l r p)
    then show ?case
      by (cases q) (auto simp: expr_put_kids expr_at_kids kids_mk_node [OF left(1)])
  next
    case (right e l r p)
    then show ?case
      by (cases q) (auto simp: expr_put_kids expr_at_kids kids_mk_node [OF right(1)])
  qed
qed

lemma at_put_other:
  assumes "leafpos ty e p" "leafpos ty e q" "p \<noteq> q"
  shows "expr_at (expr_put e p x) q = expr_at e q"
proof -
  have "spos ty e p" using assms by (simp add: leafpos_def)
  then show ?thesis using assms
  proof (induction arbitrary: q rule: spos_induct)
    case (root e)
    then show ?case by (cases q) (auto simp: leafpos_def)
  next
    case (left e l r p)
    then show ?case
      by (cases q)
        (auto simp: leafpos_def expr_put_kids expr_at_kids expr_at_kids [OF kids_mk_node [OF left(1)]])
  next
    case (right e l r p)
    then show ?case
      by (cases q)
        (auto simp: leafpos_def expr_put_kids expr_at_kids expr_at_kids [OF kids_mk_node [OF right(1)]]
          split: if_splits)
  qed
qed

lemma at_redundant: "spos ty e p \<Longrightarrow> redundant x \<Longrightarrow> redundant (expr_put e p x)"
  by (induction rule: spos_induct) (auto simp: expr_put_kids kids_Some_conv)

lemma neutral_redundant:
  assumes "spos ty e p" "p \<noteq> []" "ty = E_OR \<or> ty = E_AND" "expr_at e p = neutral ty x"
  shows "redundant e"
  using assms
proof (induction rule: spos_induct)
  case (left e l r p)
  then show ?case
    by (cases p) (auto simp: kids_Some_conv expr_alloc_symbol_def)
next
  case (right e l r p)
  then show ?case
    by (cases p) (auto simp: kids_Some_conv expr_alloc_symbol_def)
qed simp

text \<open>Alternation depth: nested connectives below a slot are simplified first.\<close>

lemma altd_at: "spos ty e p \<Longrightarrow> altd ty (expr_at e p) \<le> altd ty e"
  by (induction rule: spos_induct) (auto simp: expr_at_kids kids_Some_conv)

lemma altd_put: "spos ty e p \<Longrightarrow> altd ty e \<le> A \<Longrightarrow> altd ty x \<le> A \<Longrightarrow> altd ty (expr_put e p x) \<le> A"
  by (induction rule: spos_induct) (auto simp: expr_put_kids kids_Some_conv)

lemma altd_other:
  assumes "kids ty e = None" "etype e = E_OR \<or> etype e = E_AND"
  shows "altd ty e = Suc (altd (etype e) e)"
  using assms by (cases e) auto

lemma size_put: "spos ty e p \<Longrightarrow> size (expr_put e p x) + size (expr_at e p) = size e + size x"
proof (induction rule: spos_induct)
  case (left e l r p)
  then show ?case using kids_size [OF left(1)] by (simp add: expr_put_kids expr_at_kids)
next
  case (right e l r p)
  then show ?case using kids_size [OF right(1)] by (simp add: expr_put_kids expr_at_kids)
qed simp

text \<open>A join is the first operand, a symbol or a comparison.\<close>

lemma join_shape:
  assumes "expr_join T ty e1 e2 = Some t"
  shows "t = e1 \<or> (\<exists>s. t = Esym s) \<or> (\<exists>c a b. t = Ecmp c a b)"
proof (cases "(T, ty, e1, e2)" rule: expr_join.cases)
  case 1
  with assms have "expr_join_or T e1 e2 = Some t" by simp
  then show ?thesis by (cases rule: join_or_cases) auto
next
  case 2
  with assms have "expr_join_and T e1 e2 = Some t" by simp
  then show ?thesis by (cases rule: join_and_cases) auto
qed (use assms in auto)

lemma join_size: "expr_join T ty e1 e2 = Some t \<Longrightarrow> size t \<le> size e1"
  using join_shape by fastforce

lemma join_kids: "expr_join T ty e1 e2 = Some t \<Longrightarrow> kids ty' e1 = None \<Longrightarrow> kids ty' t = None"
  using join_shape by (fastforce simp: kids_Some_conv not_Some_eq [symmetric])

lemma join_altd: "expr_join T ty e1 e2 = Some t \<Longrightarrow> altd ty' t \<le> altd ty' e1"
  using join_shape by fastforce

section \<open>One pass\<close>

text \<open>
  What a pass needs of a valuation \<open>v\<close> and of a property \<open>P\<close> of expressions: the
  connectives and constants have their meaning, and a join has the value of the two
  operands it replaces.
\<close>

definition join_laws :: "symtab \<Rightarrow> (expr \<Rightarrow> tristate) \<Rightarrow> (expr \<Rightarrow> bool) \<Rightarrow> bool" where
  "join_laws T v P \<longleftrightarrow>
     (\<forall>l r. v (Eand l r) = min (v l) (v r) \<and> v (Eor l r) = max (v l) (v r) \<and>
        P (Eand l r) = (P l \<and> P r) \<and> P (Eor l r) = (P l \<and> P r)) \<and>
     v (Esym symbol_yes) = tri_yes \<and> v (Esym symbol_no) = tri_no \<and> (\<forall>s. P (Esym s)) \<and>
     (\<forall>ty a b t. expr_join T ty a b = Some t \<longrightarrow> P a \<longrightarrow> P b \<longrightarrow> P t \<and> v t = conn ty (v a) (v b))"

lemma laws_kids:
  assumes "join_laws T v P" "kids ty e = Some (l, r)"
  shows "v e = conn ty (v l) (v r)" "P e \<longleftrightarrow> P l \<and> P r"
    "v (mk_node ty x y) = conn ty (v x) (v y)" "P (mk_node ty x y) \<longleftrightarrow> P x \<and> P y"
  using assms by (auto simp: join_laws_def kids_Some_conv conn_def)

lemma laws_neutral:
  assumes "join_laws T v P" "ty = E_OR \<or> ty = E_AND"
  shows "conn ty (v (neutral ty e)) a = a" "P (neutral ty e)"
  using assms by (auto simp: join_laws_def conn_def expr_alloc_symbol_def)

lemma P_at: "join_laws T v P \<Longrightarrow> spos ty e p \<Longrightarrow> P e \<Longrightarrow> P (expr_at e p)"
  by (rotate_tac, induction rule: spos_induct) (auto simp: expr_at_kids laws_kids)

lemma P_put: "join_laws T v P \<Longrightarrow> spos ty e p \<Longrightarrow> P e \<Longrightarrow> P x \<Longrightarrow> P (expr_put e p x)"
  by (rotate_tac, induction rule: spos_induct) (auto simp: expr_put_kids laws_kids)

text \<open>The value as a function of one operand, and of two.\<close>

lemma v_put1:
  assumes "join_laws T v P" "spos ty e p" "ty = E_OR \<or> ty = E_AND"
  shows "\<exists>R. \<forall>x. v (expr_put e p x) = conn ty (v x) R"
  using assms(2,3)
proof (induction rule: spos_induct)
  case (root e)
  then show ?case
    by (intro exI [of _ "if ty = E_OR then tri_no else tri_yes"]) (auto simp: conn_def)
next
  case (left e l r p)
  then obtain R where "\<forall>x. v (expr_put l p x) = conn ty (v x) R" by blast
  with left(1) show ?case
    by (intro exI [of _ "conn ty R (v r)"])
      (simp add: expr_put_kids laws_kids [OF assms(1) left(1)] conn_assoc)
next
  case (right e l r p)
  then obtain R where "\<forall>x. v (expr_put r p x) = conn ty (v x) R" by blast
  with right(1) show ?case
    by (intro exI [of _ "conn ty (v l) R"])
      (simp add: expr_put_kids laws_kids [OF assms(1) right(1)] conn_ac)
qed

lemma v_put_same:
  assumes "join_laws T v P" "spos ty e p" "ty = E_OR \<or> ty = E_AND" "v x = v (expr_at e p)"
  shows "v (expr_put e p x) = v e"
  using v_put1 [OF assms(1-3)] assms(2,4) by (metis put_at)

lemma v_put2:
  assumes L: "join_laws T v P" and ty: "ty = E_OR \<or> ty = E_AND"
    and p: "leafpos ty e p" and q: "leafpos ty e q" and ne: "p \<noteq> q"
  shows "\<exists>R. \<forall>x y. kids ty x = None \<longrightarrow> v (expr_put (expr_put e p x) q y) = conn ty (conn ty (v x) (v y)) R"
proof -
  have "spos ty e p" using p by (simp add: leafpos_def)
  then show ?thesis using p q ne
  proof (induction arbitrary: q rule: spos_induct)
    case (root e)
    then show ?case by (cases q) (auto simp: leafpos_def)
  next
    case (left e l r p)
    then obtain d q' where q': "q = d # q'" by (cases q) (auto simp: leafpos_def)
    note k = laws_kids [OF L left(1)]
    show ?case
    proof (cases d)
      case Lft
      with left q' have "leafpos ty l p" "leafpos ty l q'" "p \<noteq> q'"
        by (auto simp: leafpos_def expr_at_kids)
      with left.IH obtain R where
        "\<forall>x y. kids ty x = None \<longrightarrow> v (expr_put (expr_put l p x) q' y) = conn ty (conn ty (v x) (v y)) R" by blast
      with left(1) q' Lft show ?thesis
        by (intro exI [of _ "conn ty R (v r)"])
          (simp add: expr_put_kids expr_put_kids [OF kids_mk_node [OF left(1)]] k conn_assoc)
    next
      case Rgt
      with left q' have "spos ty r q'" by (auto simp: leafpos_def)
      with v_put1 [OF L _ ty] left(2) obtain R1 R2 where
        "\<forall>x. v (expr_put l p x) = conn ty (v x) R1" "\<forall>x. v (expr_put r q' x) = conn ty (v x) R2" by metis
      with left(1) q' Rgt show ?thesis
        by (intro exI [of _ "conn ty R1 R2"])
          (simp add: expr_put_kids expr_put_kids [OF kids_mk_node [OF left(1)]] k conn_ac)
    qed
  next
    case (right e l r p)
    then obtain d q' where q': "q = d # q'" by (cases q) (auto simp: leafpos_def)
    note k = laws_kids [OF L right(1)]
    show ?case
    proof (cases d)
      case Rgt
      with right q' have "leafpos ty r p" "leafpos ty r q'" "p \<noteq> q'"
        by (auto simp: leafpos_def expr_at_kids)
      with right.IH obtain R where
        "\<forall>x y. kids ty x = None \<longrightarrow> v (expr_put (expr_put r p x) q' y) = conn ty (conn ty (v x) (v y)) R" by blast
      with right(1) q' Rgt show ?thesis
        by (intro exI [of _ "conn ty (v l) R"])
          (simp add: expr_put_kids expr_put_kids [OF kids_mk_node [OF right(1)]] k conn_ac)
    next
      case Lft
      with right q' have "spos ty l q'" by (auto simp: leafpos_def)
      with v_put1 [OF L _ ty] right(2) obtain R1 R2 where
        "\<forall>x. v (expr_put r p x) = conn ty (v x) R1" "\<forall>x. v (expr_put l q' x) = conn ty (v x) R2" by metis
      with right(1) q' Lft show ?thesis
        by (intro exI [of _ "conn ty R1 R2"])
          (simp add: expr_put_kids expr_put_kids [OF kids_mk_node [OF right(1)]] k conn_ac)
    qed
  qed
qed

text \<open>
  The outcome of a pass over \<open>X\<close> with \<open>trans_count\<close> at \<open>n\<close>: it returns, and either
  nothing changed or the count grew and a constant is left for \<open>expr_eliminate_yn\<close>.
\<close>

definition pass_ok ::
  "(expr \<Rightarrow> tristate) \<Rightarrow> (expr \<Rightarrow> bool) \<Rightarrow> expr_type \<Rightarrow> nat \<Rightarrow> expr \<Rightarrow> nat \<Rightarrow> (expr \<times> nat) option \<Rightarrow> bool" where
  "pass_ok v P ty A X n r \<longleftrightarrow>
     (\<exists>X' n'. r = Some (X', n') \<and> P X' \<and> v X' = v X \<and> (\<forall>q. spos ty X' q = spos ty X q) \<and>
        altd ty X' \<le> A \<and> size X' \<le> size X \<and> (X' = X \<and> n' = n \<or> n < n' \<and> redundant X'))"

lemma pass_ok_unchanged: "P X \<Longrightarrow> altd ty X \<le> A \<Longrightarrow> pass_ok v P ty A X n (Some (X, n))"
  by (simp add: pass_ok_def)

lemma pass_ok_bind:
  assumes "pass_ok v P ty A X n r"
    and "\<And>X' n'. P X' \<Longrightarrow> altd ty X' \<le> A \<Longrightarrow> (\<forall>q. spos ty X' q = spos ty X q) \<Longrightarrow>
      pass_ok v P ty A X' n' (f (X', n'))"
  shows "pass_ok v P ty A X n (Option.bind r f)"
proof -
  from assms(1) obtain X1 n1 where r: "r = Some (X1, n1)" "P X1" "v X1 = v X"
    "\<forall>q. spos ty X1 q = spos ty X q" "altd ty X1 \<le> A" "size X1 \<le> size X"
    "X1 = X \<and> n1 = n \<or> n < n1 \<and> redundant X1" unfolding pass_ok_def by blast
  from assms(2) [OF r(2,5,4)] obtain X2 n2 where "f (X1, n1) = Some (X2, n2)" "P X2" "v X2 = v X1"
    "\<forall>q. spos ty X2 q = spos ty X1 q" "altd ty X2 \<le> A" "size X2 \<le> size X1"
    "X2 = X1 \<and> n2 = n1 \<or> n1 < n2 \<and> redundant X2" unfolding pass_ok_def by blast
  with r show ?thesis
    by (auto simp: pass_ok_def intro!: exI [of _ X2] exI [of _ n2])
qed

text \<open>A nested connective, simplified in its own slot.\<close>

lemma pass_ok_nested:
  assumes L: "join_laws T v P" and ty: "ty = E_OR \<or> ty = E_AND" and p: "leafpos ty X p"
    and P: "P X" and A: "altd ty X \<le> A"
    and conn: "etype (expr_at X p) = E_OR \<or> etype (expr_at X p) = E_AND"
    and nested: "pass_ok v P (etype (expr_at X p)) (A - 1) (expr_at X p) n r"
  shows "pass_ok v P ty A X n (Option.bind r (\<lambda>r. Some (expr_put X p (fst r), snd r)))"
proof -
  let ?e = "expr_at X p"
  from nested obtain Y m where r: "r = Some (Y, m)" and Y: "P Y" "v Y = v ?e"
    "\<forall>q. spos (etype ?e) Y q = spos (etype ?e) ?e q" "altd (etype ?e) Y \<le> A - 1"
    "size Y \<le> size ?e" "Y = ?e \<and> m = n \<or> n < m \<and> redundant Y"
    unfolding pass_ok_def by blast
  from p have s: "spos ty X p" and k: "kids ty ?e = None" by (simp_all add: leafpos_def)
  have "kids (etype ?e) ?e \<noteq> None" using conn etype_kids by blast
  with Y(3) have "kids (etype ?e) Y \<noteq> None" by (metis spos_root)
  then have tY: "etype Y = etype ?e" by (auto simp: kids_Some_conv)
  have kY: "kids ty Y = None"
    using k tY etype_kids_iff [OF ty] by metis
  have "altd ty ?e = Suc (altd (etype ?e) ?e)" using altd_other [OF k conn] .
  with altd_at [OF s] A have "0 < A" by linarith
  with altd_other [OF kY] conn tY Y(4) have dY: "altd ty Y \<le> A" by simp
  show ?thesis
  proof (cases "Y = ?e \<and> m = n")
    case True
    with r s P A show ?thesis by (simp add: pass_ok_unchanged)
  next
    case False
    with Y(6) have "n < m" "redundant Y" by auto
    moreover have "size (expr_put X p Y) \<le> size X" using size_put [OF s, of Y] Y(5) by linarith
    ultimately show ?thesis
      using r P_put [OF L s P Y(1)] v_put_same [OF L s ty Y(2)] spos_put [OF p kY]
        altd_put [OF s A dY] at_redundant [OF s]
      by (simp add: pass_ok_def)
  qed
qed

text \<open>Joining two operands.\<close>

lemma pass_ok_join:
  assumes L: "join_laws T v P" and ty: "ty = E_OR \<or> ty = E_AND"
    and p: "leafpos ty X p" and q: "leafpos ty X q" and ne: "p \<noteq> q"
    and P: "P X" and A: "altd ty X \<le> A"
    and j: "expr_join T ty (expr_at X p) (expr_at X q) = Some t"
  shows "pass_ok v P ty A X n
    (Some (expr_put (expr_put X p (neutral ty (expr_at X p))) q t, Suc n))"
proof -
  let ?u = "neutral ty (expr_at X p)" and ?Y = "expr_put X p (neutral ty (expr_at X p))"
  from p q have s: "spos ty X p" "spos ty X q" and k: "kids ty (expr_at X p) = None"
    by (simp_all add: leafpos_def)
  have ku: "kids ty ?u = None" using ty by (auto simp: expr_alloc_symbol_def)
  note Pn = laws_neutral(2) [OF L ty] and sp = spos_put [OF p ku]
  have kt: "kids ty t = None" by (rule join_kids [OF j k])
  have atY: "expr_at ?Y q = expr_at X q" by (rule at_put_other [OF p q ne])
  have qY: "leafpos ty ?Y q" and pY: "leafpos ty ?Y p"
    using q s sp ku at_put [OF s(1)] atY by (auto simp: leafpos_def)
  then have sY: "spos ty ?Y q" "spos ty ?Y p" by (simp_all add: leafpos_def)
  have Pt: "P t" "v t = conn ty (v (expr_at X p)) (v (expr_at X q))"
    using L j P_at [OF L s(1) P] P_at [OF L s(2) P] by (auto simp: join_laws_def)
  obtain R where R: "\<And>x y. kids ty x = None \<Longrightarrow>
      v (expr_put (expr_put X p x) q y) = conn ty (conn ty (v x) (v y)) R"
    using v_put2 [OF L ty p q ne] by blast
  have "v X = v (expr_put (expr_put X p (expr_at X p)) q (expr_at X q))" using s by simp
  also have "\<dots> = conn ty (v t) R" using R [OF k] Pt(2) by simp
  finally have v: "v (expr_put ?Y q t) = v X"
    using R [OF ku] laws_neutral(1) [OF L ty] by simp
  have "size (expr_put ?Y q t) \<le> size X"
    using size_put [OF s(1), of ?u] size_put [OF sY(1), of t] atY join_size [OF j] ty
    by (auto simp: expr_alloc_symbol_def)
  moreover have "altd ty (expr_put ?Y q t) \<le> A"
    using altd_put [OF sY(1) altd_put [OF s(1) A]] join_altd [OF j, of ty] altd_at [OF s(1)] A ty
    by (force simp: expr_alloc_symbol_def)
  moreover have "redundant (expr_put ?Y q t)"
  proof (rule neutral_redundant [OF _ _ ty])
    show "spos ty (expr_put ?Y q t) p" using spos_put [OF qY kt] sY by simp
    show "p \<noteq> []" using k s ne by (cases q) auto
    show "expr_at (expr_put ?Y q t) p = ?u"
      using at_put_other [OF qY pY] ne at_put [OF s(1)] by simp
  qed
  ultimately show ?thesis
    using P_put [OF L sY(1) P_put [OF L s(1) P Pn] Pt(1)] v spos_put [OF qY kt] sp
    by (simp add: pass_ok_def)
qed

text \<open>
  The whole pass, by induction on the alternation depth and on how far the two
  slots are from the leaves.
\<close>

lemma dups1_pass:
  assumes L: "join_laws T v P"
  shows "ty = E_OR \<or> ty = E_AND \<Longrightarrow> P X \<Longrightarrow> altd ty X \<le> A \<Longrightarrow>
    spos ty X p \<Longrightarrow> spos ty X q \<Longrightarrow> \<forall>q. spos ty X q \<longrightarrow> length q \<le> D \<Longrightarrow>
    pass_ok v P ty A X n (expr_eliminate_dups1 T ty p q X n)"
proof (induction A arbitrary: ty X p q D n rule: less_induct)
  case (less A)
  note outer = less.IH
  from less.prems show ?case
  proof (induction "(D - length p) + (D - length q)" arbitrary: X p q n rule: less_induct)
    case less
    note ty = less.prems(1) and P = less.prems(2) and A = less.prems(3) and sp = less.prems(4)
      and sq = less.prems(5) and D = less.prems(6) and inner = less.hyps
    note kid = etype_kids_iff [OF ty]
    show ?case
    proof (cases "kids ty (expr_at X p) = None")
      case False
      then have s: "spos ty X (p @ [d])" for d using kids_at [OF sp] by blast
      with D have "length (p @ [d]) \<le> D" for d by blast
      then have lt: "D - length (p @ [d]) + (D - length q) < D - length p + (D - length q)" for d
        by (simp add: Suc_le_eq diff_less_mono2)
      have 1: "pass_ok v P ty A X n (expr_eliminate_dups1 T ty (p @ [Lft]) q X n)"
        by (rule inner [OF lt ty P A s sq D])
      have 2: "pass_ok v P ty A X' n' (expr_eliminate_dups1 T ty (p @ [Rgt]) q X' n')"
        if "P X'" "altd ty X' \<le> A" "\<forall>q. spos ty X' q = spos ty X q" for X' n'
        using that s sq D by (intro inner [OF lt ty]) auto
      have "expr_eliminate_dups1 T ty p q X n = Option.bind (expr_eliminate_dups1 T ty (p @ [Lft]) q X n)
          (\<lambda>r. expr_eliminate_dups1 T ty (p @ [Rgt]) q (fst r) (snd r))"
        using False kid by (subst expr_eliminate_dups1.simps) simp
      then show ?thesis using pass_ok_bind [OF 1] 2 by simp
    next
      case kp: True
      show ?thesis
      proof (cases "kids ty (expr_at X q) = None")
        case False
        then have s: "spos ty X (q @ [d])" for d using kids_at [OF sq] by blast
        with D have "length (q @ [d]) \<le> D" for d by blast
        then have lt: "D - length p + (D - length (q @ [d])) < D - length p + (D - length q)" for d
          by (simp add: Suc_le_eq diff_less_mono2)
        have 1: "pass_ok v P ty A X n (expr_eliminate_dups1 T ty p (q @ [Lft]) X n)"
          by (rule inner [OF lt ty P A sp s D])
        have 2: "pass_ok v P ty A X' n' (expr_eliminate_dups1 T ty p (q @ [Rgt]) X' n')"
          if "P X'" "altd ty X' \<le> A" "\<forall>q. spos ty X' q = spos ty X q" for X' n'
          using that s sp D by (intro inner [OF lt ty]) auto
        have "expr_eliminate_dups1 T ty p q X n = Option.bind (expr_eliminate_dups1 T ty p (q @ [Lft]) X n)
            (\<lambda>r. expr_eliminate_dups1 T ty p (q @ [Rgt]) (fst r) (snd r))"
          using kp False kid by (subst expr_eliminate_dups1.simps) simp
        then show ?thesis using pass_ok_bind [OF 1] 2 by simp
      next
        case kq: True
        from kp kq sp sq have lp: "leafpos ty X p" and lq: "leafpos ty X q" by (simp_all add: leafpos_def)
        show ?thesis
        proof (cases "p = q")
          case True
          with kp kid P A show ?thesis
            by (subst expr_eliminate_dups1.simps) (simp add: pass_ok_unchanged)
        next
          case ne: False
          let ?e = "expr_at X p"
          let ?nested = "if etype ?e = E_OR \<or> etype ?e = E_AND
              then Option.bind (expr_eliminate_dups1 T (etype ?e) [] [] ?e n)
                (\<lambda>r. Some (expr_put X p (fst r), snd r))
              else Some (X, n)"
          have 1: "pass_ok v P ty A X n ?nested"
          proof (cases "etype ?e = E_OR \<or> etype ?e = E_AND")
            case True
            have d: "altd ty ?e = Suc (altd (etype ?e) ?e)" by (rule altd_other [OF kp True])
            with altd_at [OF sp] A have "A - 1 < A" "altd (etype ?e) ?e \<le> A - 1" by linarith+
            then have "pass_ok v P (etype ?e) (A - 1) ?e n (expr_eliminate_dups1 T (etype ?e) [] [] ?e n)"
              using True P_at [OF L sp P] spos_length by (intro outer) auto
            then show ?thesis using True pass_ok_nested [OF L ty lp P A True] by simp
          next
            case False
            with P A show ?thesis by (simp add: pass_ok_unchanged)
          qed
          let ?join = "\<lambda>r. case expr_join T ty (expr_at (fst r) p) (expr_at (fst r) q) of
               None \<Rightarrow> Some r
             | Some t \<Rightarrow>
                 Some (expr_put (expr_put (fst r) p (neutral ty (expr_at (fst r) p))) q t, Suc (snd r))"
          have 2: "pass_ok v P ty A X' n' (?join (X', n'))"
            if X': "P X'" "altd ty X' \<le> A" "\<forall>q. spos ty X' q = spos ty X q" for X' n'
          proof -
            have "leafpos ty X' p" "leafpos ty X' q"
              using lp lq X'(3) kids_at unfolding leafpos_def by metis+
            with X' show ?thesis
              using pass_ok_join [OF L ty _ _ ne] by (auto simp: pass_ok_unchanged split: option.splits)
          qed
          have "expr_eliminate_dups1 T ty p q X n = Option.bind ?nested ?join"
            using kp kq kid ne by (subst expr_eliminate_dups1.simps) simp
          then show ?thesis by (simp only:) (rule pass_ok_bind [OF 1 2])
        qed
      qed
    qed
  qed
qed

section \<open>The loop\<close>

text \<open>
  A pass that changed something leaves a redundant operand, which
  \<open>expr_eliminate_yn\<close> removes: the size decreases in every round.
\<close>

lemma dups_pass_root:
  assumes "join_laws T v P" "P e"
  shows "pass_ok v P (etype e) (altd (etype e) e) e 0
    (if etype e = E_OR \<or> etype e = E_AND then expr_eliminate_dups1 T (etype e) [] [] e 0 else Some (e, 0))"
  using assms dups1_pass [OF assms(1), of "etype e" e "altd (etype e) e" "[]" "[]" "size e"] spos_length
  by (auto simp: pass_ok_unchanged)

lemma P_kids:
  assumes "join_laws T v P"
  shows "P (Eand l r) = (P l \<and> P r)" "P (Eor l r) = (P l \<and> P r)" "P (Esym s)"
  using assms by (auto simp: join_laws_def)

lemma yn_P: "join_laws T v P \<Longrightarrow> P e \<Longrightarrow> P (expr_eliminate_yn e)"
  by (induction e rule: expr_eliminate_yn.induct) (auto simp: P_kids Let_def)

lemma yn_v:
  assumes "join_laws T v P"
  shows "v (expr_eliminate_yn e) = v e"
proof (induction e rule: expr_eliminate_yn.induct)
  case (1 l r)
  then have "v l = v (expr_eliminate_yn l)" "v r = v (expr_eliminate_yn r)" by simp_all
  with assms show ?case by (simp add: Let_def join_laws_def)
next
  case (2 l r)
  then have "v l = v (expr_eliminate_yn l)" "v r = v (expr_eliminate_yn r)" by simp_all
  with assms show ?case by (simp add: Let_def join_laws_def)
qed simp_all

lemma dups_loop_ok:
  assumes L: "join_laws T v P"
  shows "P e \<Longrightarrow> \<exists>e'. dups_loop T e = Some e' \<and> v e' = v e \<and> P e' \<and> size e' \<le> size e"
proof (induction "size e" arbitrary: e rule: less_induct)
  case less
  let ?pass = "if etype e = E_OR \<or> etype e = E_AND then expr_eliminate_dups1 T (etype e) [] [] e 0
    else Some (e, 0)"
  from dups_pass_root [OF L less.prems] obtain X n where
    r: "?pass = Some (X, n)" "P X" "v X = v e" "size X \<le> size e"
      "X = e \<and> n = 0 \<or> 0 < n \<and> redundant X"
    unfolding pass_ok_def by blast
  show ?case
  proof (cases "n = 0")
    case True
    with r show ?thesis by (subst dups_loop.simps) auto
  next
    case False
    with r have "size (expr_eliminate_yn X) < size e" using yn_size_less [of X] by simp
    from less.hyps [OF this yn_P [OF L r(2)]] False r(1,3) this show ?thesis
      by (subst dups_loop.simps) (auto simp: yn_v [OF L])
  qed
qed

section \<open>The valuations of a store\<close>

text \<open>
  The comparisons that \<open>expr_join_and\<close> takes for exclusive: of a tristate symbol
  with constants that are plain strings.
\<close>

definition plain_cmps :: "symtab \<Rightarrow> (symref \<Rightarrow> bool) \<Rightarrow> expr \<Rightarrow> bool" where
  "plain_cmps T pl e \<longleftrightarrow> (\<forall>(a, b)\<in>cmps e. s_type (T a) = S_TRISTATE \<longrightarrow>
     SYMBOL_CONST \<in> s_flags (T b) \<longrightarrow> pl b)"

lemma plain_cmps_simps [simp]:
  "plain_cmps T pl (Eand l r) \<longleftrightarrow> plain_cmps T pl l \<and> plain_cmps T pl r"
  "plain_cmps T pl (Eor l r) \<longleftrightarrow> plain_cmps T pl l \<and> plain_cmps T pl r"
  "plain_cmps T pl (Enot e) \<longleftrightarrow> plain_cmps T pl e"
  "plain_cmps T pl (Esym s)"
  "plain_cmps T pl (Ecmp c a b) \<longleftrightarrow>
     (s_type (T a) = S_TRISTATE \<longrightarrow> SYMBOL_CONST \<in> s_flags (T b) \<longrightarrow> pl b)"
  by (auto simp: plain_cmps_def)

lemma join_plain:
  assumes "expr_join T ty e1 e2 = Some t" "plain_cmps T pl e1" "plain_cmps T pl e2"
    "pl symbol_yes" "pl symbol_mod" "pl symbol_no"
  shows "plain_cmps T pl t"
proof (cases "(T, ty, e1, e2)" rule: expr_join.cases)
  case (1 T' a b)
  with assms have "expr_join_or T e1 e2 = Some t" by simp
  then show ?thesis
    by (cases rule: join_or_cases) (use assms in auto)
next
  case (2 T' a b)
  with assms have "expr_join_and T e1 e2 = Some t" by simp
  then show ?thesis
    by (cases rule: join_and_cases) (use assms in \<open>auto split: if_splits\<close>)
qed (use assms in auto)

context symbol_values
begin

lemma store_laws:
  assumes "inv K"
  shows "join_laws (k_tab K) (val K) (plain_cmps (k_tab K) (plain K))"
proof -
  have "plain_cmps (k_tab K) (plain K) t \<and> val K t = conn ty (val K e1) (val K e2)"
    if j: "expr_join (k_tab K) ty e1 e2 = Some t"
      and p: "plain_cmps (k_tab K) (plain K) e1" "plain_cmps (k_tab K) (plain K) e2" for ty e1 e2 t
  proof
    show "plain_cmps (k_tab K) (plain K) t"
      using join_plain [OF j p] plain_consts [OF assms] by simp
    show "val K t = conn ty (val K e1) (val K e2)"
    proof (cases "(k_tab K, ty, e1, e2)" rule: expr_join.cases)
      case (1 T' a b)
      with j join_or_sound [OF assms] show ?thesis by (auto simp: conn_def)
    next
      case (2 T' a b)
      with j have "expr_join_and (k_tab K) e1 e2 = Some t" by simp
      from join_and_sound [OF assms this] p 2 show ?thesis
        by (auto simp: conn_def plain_cmps_def)
    qed (use j in auto)
  qed
  then have "\<forall>ty a b t. expr_join (k_tab K) ty a b = Some t \<longrightarrow> plain_cmps (k_tab K) (plain K) a \<longrightarrow>
      plain_cmps (k_tab K) (plain K) b \<longrightarrow>
      plain_cmps (k_tab K) (plain K) t \<and> val K t = conn ty (val K a) (val K b)"
    by blast
  then show ?thesis
    unfolding join_laws_def by (simp only: expr_val plain_cmps_simps tri_consts [OF assms] simp_thms)
qed

lemma dups_sound:
  assumes "inv K" "plain_cmps (k_tab K) (plain K) e"
  shows "\<exists>e'. expr_eliminate_dups (k_tab K) (Some e) = Some (Some e') \<and> val K e' = val K e"
  using dups_loop_ok [OF store_laws [OF assms(1)] assms(2)] by auto

end

text \<open>
  Every \<open>expr_eliminate_dups\<close> returns: in the model where each symbol but \<open>y\<close> and
  \<open>m\<close> is \<open>n\<close> all comparisons are plain.
\<close>

definition base_tri :: "symref \<Rightarrow> tristate" where
  "base_tri s = (if s = symbol_yes then tri_yes else if s = symbol_mod then tri_mod else tri_no)"

definition base_sym :: "symref \<Rightarrow> symref" where
  "base_sym s = (if s = symbol_yes \<or> s = symbol_mod then s else symbol_no)"

definition base_cmp :: "comp_type \<Rightarrow> symref \<Rightarrow> symref \<Rightarrow> bool" where
  "base_cmp c a b = ((c = EQUAL \<or> c = LEQ \<or> c = LTH) = (b = base_sym a))"

lemma base_model:
  "symbol_values (\<lambda>K. s_type (k_tab K symbol_mod) \<noteq> S_BOOLEAN) (\<lambda>K. base_tri) (\<lambda>K. base_cmp) (\<lambda>K s. True)"
  by unfold_locales (auto simp add: base_tri_def base_cmp_def base_sym_def split: if_split_asm)

lemma dups_returns:
  assumes "s_type (T symbol_mod) \<noteq> S_BOOLEAN"
  shows "\<exists>e'. expr_eliminate_dups T (Some e) = Some (Some e') \<and> size e' \<le> size e"
proof -
  define K where "K = \<lparr>k_tab = T, k_nsyms = 0, k_hash = (\<lambda>h. []), k_modules_sym = symbol_no,
    k_modules_val = tri_no, k_menu_changed = {}, k_changes = 0\<rparr>"
  have T: "k_tab K = T" by (simp add: K_def)
  with assms have "join_laws T (expr_val base_tri base_cmp) (plain_cmps T (\<lambda>s. True))"
    using symbol_values.store_laws [OF base_model, of K] by simp
  from dups_loop_ok [OF this, of e] show ?thesis by (auto simp: plain_cmps_def)
qed

end
