(* ===== verification/Expr_Store.thy ===== *)
theory Expr_Store
  imports Expr_Dups
begin

text \<open>
  The symbol store provides what the simplifications rely on: in a settled store
  (all values up to date) the symbols y, m and n have their values, boolean symbols
  are never m, and comparisons read the values as expr.c does. The properties of the
  simplifier stand here, over the store.
\<close>

section \<open>Settled stores\<close>

text \<open>
  The static symbols of symbol.c, the constants made by the parser (their value is
  their name, and a name has one constant), and what \<open>sym_calc_value\<close> establishes of
  boolean and tristate symbols.
\<close>

definition const_is :: "symbol \<Rightarrow> string \<Rightarrow> tristate \<Rightarrow> bool" where
  "const_is s n t \<longleftrightarrow> s_type s = S_UNKNOWN \<and> s_name s = Some n \<and> s_curr s = \<lparr>sv_val = CStr n, sv_tri = t\<rparr>"

definition settled :: "kstate \<Rightarrow> bool" where
  "settled K \<longleftrightarrow>
     const_is (k_tab K symbol_yes) ''y'' tri_yes \<and> const_is (k_tab K symbol_mod) ''m'' tri_mod \<and>
     const_is (k_tab K symbol_no) ''n'' tri_no \<and>
     (\<forall>s. s_type (k_tab K s) = S_BOOLEAN \<longrightarrow> sym_get_tristate_value K s \<noteq> tri_mod) \<and>
     (\<forall>s. s_type (k_tab K s) = S_TRISTATE \<longrightarrow>
        sv_tri (s_curr (k_tab K (k_modules_sym K))) = tri_no \<longrightarrow> sym_get_tristate_value K s \<noteq> tri_mod) \<and>
     (\<forall>s. s_type (k_tab K s) \<noteq> S_OTHER) \<and>
     (\<forall>s. SYMBOL_CONST \<in> s_flags (k_tab K s) \<longrightarrow> s_type (k_tab K s) = S_UNKNOWN \<and>
        Some (cstr (sv_val (s_curr (k_tab K s)))) = s_name (k_tab K s)) \<and>
     (\<forall>s t. SYMBOL_CONST \<in> s_flags (k_tab K s) \<longrightarrow> SYMBOL_CONST \<in> s_flags (k_tab K t) \<longrightarrow>
        s_name (k_tab K s) = s_name (k_tab K t) \<longrightarrow> s = t)"

text \<open>A constant that \<open>expr_parse_string\<close> does not read as a number.\<close>

definition plain_const :: "kstate \<Rightarrow> symref \<Rightarrow> bool" where
  "plain_const K s \<longleftrightarrow> fst (expr_parse_string (sym_get_string_value K s) S_UNKNOWN) = k_string"

lemma settled_consts:
  assumes "settled K"
  shows "sym_get_tristate_value K symbol_yes = tri_yes" "sym_get_tristate_value K symbol_mod = tri_mod"
    "sym_get_tristate_value K symbol_no = tri_no"
    "s_type (k_tab K symbol_yes) = S_UNKNOWN" "s_type (k_tab K symbol_mod) = S_UNKNOWN"
    "s_type (k_tab K symbol_no) = S_UNKNOWN"
    "sym_get_string_value K symbol_yes = ''y''" "sym_get_string_value K symbol_mod = ''m''"
    "sym_get_string_value K symbol_no = ''n''"
  using assms
  by (simp_all add: settled_def const_is_def sym_get_tristate_value_def sym_get_string_value_def)

lemma parse_ymn:
  "fst (expr_parse_string ''y'' S_UNKNOWN) = k_string"
  "fst (expr_parse_string ''m'' S_UNKNOWN) = k_string"
  "fst (expr_parse_string ''n'' S_UNKNOWN) = k_string"
  by code_simp+

lemma settled_string:
  assumes "settled K" "s_type (k_tab K s) = S_BOOLEAN \<or> s_type (k_tab K s) = S_TRISTATE"
  shows "sym_get_string_value K s =
    (case sym_get_tristate_value K s of tri_no \<Rightarrow> ''n'' | tri_mod \<Rightarrow> ''m'' | tri_yes \<Rightarrow> ''y'')"
  using assms
  by (auto simp: settled_def sym_get_string_value_def sym_get_tristate_value_def split: tristate.splits)

text \<open>A boolean or tristate symbol compared with a plain constant: by their strings.\<close>

lemma cmp_plain:
  assumes "s_type (k_tab K s) = S_BOOLEAN \<or> s_type (k_tab K s) = S_TRISTATE"
    "s_type (k_tab K c) = S_UNKNOWN" "plain_const K c"
  shows "comparison_holds K EQUAL s c \<longleftrightarrow> sym_get_string_value K s = sym_get_string_value K c"
  using assms
  by (auto simp: comparison_holds_def compare_strings_def compare_values_def plain_const_def Let_def split: prod.splits)

lemma compare_total:
  assumes "s_type (k_tab K a) \<noteq> S_OTHER" "s_type (k_tab K b) \<noteq> S_OTHER"
  shows "compare_values (s_type (k_tab K a)) x (s_type (k_tab K b)) y \<noteq> None"
proof -
  have "fst (expr_parse_string z t) \<noteq> k_invalid" if "t \<noteq> S_OTHER" for z t
    using that by (cases t) (auto simp: expr_parse_string_def parse_kind_def split: prod.splits)
  with assms show ?thesis by (auto simp: compare_values_def Let_def split: prod.splits) (metis fst_conv)+
qed

lemma relation_unequal: "relation_holds UNEQUAL r = (\<not> relation_holds EQUAL r)"
  by simp

lemma settled_symbol_values:
  "symbol_values settled sym_get_tristate_value comparison_holds plain_const"
proof
  fix K a b s c
  assume K: "settled K"
  note cv = settled_consts [OF K]
  show "sym_get_tristate_value K symbol_yes = tri_yes" "sym_get_tristate_value K symbol_mod = tri_mod"
    "sym_get_tristate_value K symbol_no = tri_no" by (fact cv)+
  show pl: "plain_const K symbol_yes" "plain_const K symbol_mod" "plain_const K symbol_no"
    by (simp_all add: plain_const_def cv parse_ymn)
  {
    assume "s_type (k_tab K s) = S_BOOLEAN"
    then show "sym_get_tristate_value K s \<noteq> tri_mod" using K by (auto simp: settled_def)
  next
    assume s: "s_type (k_tab K s) = S_BOOLEAN \<or> s_type (k_tab K s) = S_TRISTATE"
    note c = cmp_plain [OF s] settled_string [OF K s]
    show "comparison_holds K EQUAL s symbol_yes = (sym_get_tristate_value K s = tri_yes)"
      "comparison_holds K EQUAL s symbol_mod = (sym_get_tristate_value K s = tri_mod)"
      "comparison_holds K EQUAL s symbol_no = (sym_get_tristate_value K s = tri_no)"
      by (simp_all add: c cv pl split: tristate.splits)
  next
    show "comparison_holds K UNEQUAL a b = (\<not> comparison_holds K EQUAL a b)"
      by (simp add: comparison_holds_def compare_strings_def Let_def split: option.splits)
  next
    have "s_type (k_tab K a) \<noteq> S_OTHER" "s_type (k_tab K b) \<noteq> S_OTHER"
      using K by (simp_all add: settled_def)
    note t = compare_total [OF this]
    show "comparison_holds K GTH a b = (\<not> comparison_holds K LEQ a b)"
      "comparison_holds K GEQ a b = (\<not> comparison_holds K LTH a b)"
      using t by (auto simp: comparison_holds_def compare_strings_def Let_def split: option.splits)
  next
    assume a: "s_type (k_tab K a) = S_TRISTATE" and p: "plain_const K b" "plain_const K c"
      and f: "SYMBOL_CONST \<in> s_flags (k_tab K b)" "SYMBOL_CONST \<in> s_flags (k_tab K c)"
      and ne: "b \<noteq> c" and e: "comparison_holds K EQUAL a b"
    have t: "s_type (k_tab K b) = S_UNKNOWN" "s_type (k_tab K c) = S_UNKNOWN"
      using K f by (simp_all add: settled_def)
    have "sym_get_string_value K b \<noteq> sym_get_string_value K c"
    proof
      assume "sym_get_string_value K b = sym_get_string_value K c"
      with t have "cstr (sv_val (s_curr (k_tab K b))) = cstr (sv_val (s_curr (k_tab K c)))"
        by (simp add: sym_get_string_value_def)
      with K f have "s_name (k_tab K b) = s_name (k_tab K c)"
        unfolding settled_def by metis
      with K f ne show False unfolding settled_def by blast
    qed
    with e show "\<not> comparison_holds K EQUAL a c"
      using cmp_plain [OF disjI2 [OF a] t(1) p(1)] cmp_plain [OF disjI2 [OF a] t(2) p(2)] by simp
  }
qed

interpretation store: symbol_values settled sym_get_tristate_value comparison_holds plain_const
  by (rule settled_symbol_values)

end
