(* ===== verification/Expr_Normal.thy ===== *)
theory Expr_Normal
  imports Expr_Store
begin

text \<open>
  The properties of the simplifier over the symbol store: \<open>expr_transform\<close> yields a
  negation normal form and is idempotent, every pass keeps the value computed by
  \<open>expr_calc_value\<close>, and the dependency tests of menu.c (superset, boolean
  dependents, comparison with y and n) mean what the menu code takes them for.
\<close>

section \<open>A sample store\<close>

text \<open>
  A boolean symbol A (y), a tristate symbol B (m), the boolean MODULES (y), and two
  constants; the witnesses of the properties compute with it.
\<close>

definition mk_symbol :: "string \<Rightarrow> symbol_type \<Rightarrow> cval \<Rightarrow> tristate \<Rightarrow> symflag set \<Rightarrow> symbol" where
  "mk_symbol n ty v t fl =
     \<lparr>s_name = Some n, s_type = ty, s_curr = \<lparr>sv_val = v, sv_tri = t\<rparr>,
      s_def_user = \<lparr>sv_val = CNull, sv_tri = tri_no\<rparr>, s_def_auto = \<lparr>sv_val = CNull, sv_tri = tri_no\<rparr>,
      s_visible = tri_yes, s_flags = fl, s_prop = [], s_dir_dep = None, s_dir_tri = tri_yes,
      s_rev_dep = None, s_rev_tri = tri_no, s_implied = None, s_impl_tri = tri_no\<rparr>"

lemma mk_symbol_simps [simp]:
  "s_name (mk_symbol n ty v t fl) = Some n" "s_type (mk_symbol n ty v t fl) = ty"
  "s_curr (mk_symbol n ty v t fl) = \<lparr>sv_val = v, sv_tri = t\<rparr>" "s_flags (mk_symbol n ty v t fl) = fl"
  by (simp_all add: mk_symbol_def)

fun sample_tab :: symtab where
  "sample_tab symbol_yes = mk_symbol ''y'' S_UNKNOWN (CStr ''y'') tri_yes {SYMBOL_CONST, SYMBOL_VALID}"
| "sample_tab symbol_mod = mk_symbol ''m'' S_UNKNOWN (CStr ''m'') tri_mod {SYMBOL_CONST, SYMBOL_VALID}"
| "sample_tab symbol_no = mk_symbol ''n'' S_UNKNOWN (CStr ''n'') tri_no {SYMBOL_CONST, SYMBOL_VALID}"
| "sample_tab symbol_empty = mk_symbol '''' S_UNKNOWN (CStr '''') tri_no {SYMBOL_VALID}"
| "sample_tab (Sym n) =
     (if n = 0 then mk_symbol ''A'' S_BOOLEAN CNull tri_yes {SYMBOL_VALID}
      else if n = 1 then mk_symbol ''B'' S_TRISTATE CNull tri_mod {SYMBOL_VALID}
      else if n = 2 then mk_symbol ''MODULES'' S_BOOLEAN CNull tri_yes {SYMBOL_VALID}
      else if n = 3 then mk_symbol ''foo'' S_UNKNOWN (CStr ''foo'') tri_no {SYMBOL_CONST, SYMBOL_VALID}
      else if n = 4 then mk_symbol ''bar'' S_UNKNOWN (CStr ''bar'') tri_no {SYMBOL_CONST, SYMBOL_VALID}
      else mk_symbol ''X'' S_STRING (CStr ''42'') tri_no {SYMBOL_VALID})"

definition sample_store :: kstate where
  "sample_store = \<lparr>k_tab = sample_tab, k_nsyms = 6, k_hash = (\<lambda>h. []), k_modules_sym = Sym 2,
     k_modules_val = tri_yes, k_menu_changed = {}, k_changes = 0\<rparr>"

lemma sample_store_simps [simp]:
  "k_tab sample_store = sample_tab" "k_modules_sym sample_store = Sym 2"
  by (simp_all add: sample_store_def)

lemma sample_tab_simps [simp]:
  "s_type (sample_tab s) = (case s of Sym n \<Rightarrow> (if n = 0 \<or> n = 2 then S_BOOLEAN else if n = 1 then S_TRISTATE
     else if n = 3 \<or> n = 4 then S_UNKNOWN else S_STRING) | _ \<Rightarrow> S_UNKNOWN)"
  "sv_tri (s_curr (sample_tab s)) = (case s of symbol_yes \<Rightarrow> tri_yes | symbol_mod \<Rightarrow> tri_mod
     | Sym n \<Rightarrow> (if n = 0 \<or> n = 2 then tri_yes else if n = 1 then tri_mod else tri_no) | _ \<Rightarrow> tri_no)"
  "SYMBOL_CONST \<in> s_flags (sample_tab s) \<longleftrightarrow>
     s \<in> {symbol_yes, symbol_mod, symbol_no, Sym 3, Sym 4}"
  by (cases s; simp add: mk_symbol_def)+

lemma sample_settled: "settled sample_store"
proof -
  have "\<forall>s. SYMBOL_CONST \<in> s_flags (sample_tab s) \<longrightarrow> s_type (sample_tab s) = S_UNKNOWN \<and>
        Some (cstr (sv_val (s_curr (sample_tab s)))) = s_name (sample_tab s)"
    by (auto simp: mk_symbol_def)
  moreover have "\<forall>s t. SYMBOL_CONST \<in> s_flags (sample_tab s) \<longrightarrow> SYMBOL_CONST \<in> s_flags (sample_tab t) \<longrightarrow>
        s_name (sample_tab s) = s_name (sample_tab t) \<longrightarrow> s = t"
  proof (intro allI impI)
    fix s t
    assume "SYMBOL_CONST \<in> s_flags (sample_tab s)" "SYMBOL_CONST \<in> s_flags (sample_tab t)"
      and n: "s_name (sample_tab s) = s_name (sample_tab t)"
    then have "s \<in> {symbol_yes, symbol_mod, symbol_no, Sym 3, Sym 4}"
      "t \<in> {symbol_yes, symbol_mod, symbol_no, Sym 3, Sym 4}" by simp_all
    with n show "s = t"
      by (elim insertE emptyE) (simp_all add: mk_symbol_def)
  qed
  moreover have "const_is (sample_tab symbol_yes) ''y'' tri_yes" "const_is (sample_tab symbol_mod) ''m'' tri_mod"
    "const_is (sample_tab symbol_no) ''n'' tri_no"
    by (simp_all add: const_is_def mk_symbol_def)
  moreover have "\<forall>s. s_type (sample_tab s) = S_TRISTATE \<longrightarrow>
      sv_tri (s_curr (sample_tab (Sym 2))) = tri_no \<longrightarrow> sv_tri (s_curr (sample_tab s)) \<noteq> tri_mod"
    by (simp add: mk_symbol_def)
  moreover have "\<forall>s. s_type (sample_tab s) = S_BOOLEAN \<longrightarrow> sv_tri (s_curr (sample_tab s)) \<noteq> tri_mod"
    "\<forall>s. s_type (sample_tab s) \<noteq> S_OTHER"
    by (auto split: symref.splits)
  ultimately show ?thesis
    unfolding settled_def sym_get_tristate_value_def sample_store_def kstate.select_convs
    by (intro conjI)
qed

section \<open>Negation normal form\<close>

definition tri_const :: "symref \<Rightarrow> bool" where
  "tri_const s \<longleftrightarrow> s = symbol_yes \<or> s = symbol_mod \<or> s = symbol_no"

text \<open>
  Negations stand only before symbols that are not constants, and no boolean symbol
  is tested for equality with y, m or n.
\<close>

fun nnf :: "symtab \<Rightarrow> expr \<Rightarrow> bool" where
  "nnf T (Eand l r) \<longleftrightarrow> nnf T l \<and> nnf T r"
| "nnf T (Eor l r) \<longleftrightarrow> nnf T l \<and> nnf T r"
| "nnf T (Enot e) \<longleftrightarrow> (case e of Esym s \<Rightarrow> \<not> tri_const s | Elist _ _ \<Rightarrow> True | Erange _ _ \<Rightarrow> True | _ \<Rightarrow> False)"
| "nnf T (Ecmp c a b) \<longleftrightarrow>
     (c = EQUAL \<or> c = UNEQUAL) \<and> s_type (T a) = S_BOOLEAN \<longrightarrow> \<not> tri_const b"
| "nnf T _ \<longleftrightarrow> True"

lemma transform_nnf:
  assumes "\<forall>s. tri_const s \<longrightarrow> s_type (T s) \<noteq> S_BOOLEAN"
  shows "nnf T (expr_transform T e)"
  using assms
proof (induction T e rule: expr_transform.induct)
  case (5 T e)
  show ?case
  proof (cases "expr_transform T e")
    case (Enot a) with 5 show ?thesis by simp
  next
    case (Eand a b) with 5(3) [OF Eand 5(5)] show ?thesis by simp
  next
    case (Eor a b) with 5(4) [OF Eor 5(5)] show ?thesis by simp
  next
    case (Ecmp c a b)
    with 5(1) [OF 5(5)] show ?thesis by (cases c) simp_all
  qed (auto simp: tri_const_def)
qed (auto simp: expr_alloc_symbol_def tri_const_def)

lemma nnf_transform: "nnf T e \<Longrightarrow> expr_transform T e = e"
proof (induction T e rule: expr_transform.induct)
  case (3 T a b)
  then show ?case by (auto simp: tri_const_def)
next
  case (4 T a b)
  then show ?case by (auto simp: tri_const_def)
next
  case (5 T e)
  from 5(5) show ?case by (cases e) (simp_all add: tri_const_def)
qed simp_all

section \<open>Boolean dependents and comparisons\<close>

fun operands :: "expr \<Rightarrow> symref set" where
  "operands (Esym s) = {s}"
| "operands (Enot e) = operands e"
| "operands (Eand l r) = operands l \<union> operands r"
| "operands (Eor l r) = operands l \<union> operands r"
| "operands _ = {}"

context symbol_values
begin

text \<open>Replacing \<open>a != n\<close> by \<open>a\<close> moves a value between m and y only.\<close>

lemma trans_bool_nnf:
  assumes "inv K"
  shows "nnf (k_tab K) e \<Longrightarrow>
    (val K (expr_trans_bool (k_tab K) e) = tri_no \<longleftrightarrow> val K e = tri_no) \<and>
    val K (expr_trans_bool (k_tab K) e) \<le> val K e"
proof (induction "k_tab K" e rule: expr_trans_bool.induct)
  case (1 l r)
  then show ?case by (auto simp: expr_val min_le_iff_disj intro: min.mono) (auto simp: min_def split: if_splits)
next
  case (2 l r)
  then show ?case by (auto simp: expr_val max_def)
next
  case (3 e)
  then show ?case by (cases e) (auto simp: expr_val)
next
  case (4 a b)
  then show ?case using cmp_consts(3) [OF assms, of a] cmp_unequal [OF assms, of a b]
    by (auto simp: expr_val)
qed (auto simp: expr_val)

lemma superset:
  assumes "inv K" "expr_eliminate_eq e1 e2 0 = (f1, f2, m)" "f2 = Esym symbol_yes"
  shows "val K e1 \<le> val K e2"
proof -
  obtain h where h: "mono h" "val K e1 = h (val K f1)" "val K e2 = h (val K f2)"
    using eliminate_eq_sound [OF assms(1,2)] by blast
  have "val K f2 = tri_yes" using assms(3) tri_consts [OF assms(1)] by (simp add: expr_val)
  with h show ?thesis by (simp add: monoD)
qed

text \<open>None of the symbols that are operands by themselves may be \<open>m\<close>.\<close>

lemma trans_compare_sound:
  assumes "inv K"
    "\<And>s. s \<in> operands e \<Longrightarrow> s_type (k_tab K s) = S_BOOLEAN \<or> s_type (k_tab K s) = S_TRISTATE"
    "\<And>s. s \<in> operands e \<Longrightarrow> tri_of K s \<noteq> tri_mod"
  shows "trans_compare_node e c v = Some t \<Longrightarrow> v = symbol_yes \<or> v = symbol_no \<Longrightarrow> c = EQUAL \<or> c = UNEQUAL \<Longrightarrow>
    val K t = (if (val K e = tri_of K v) = (c = EQUAL) then tri_yes else tri_no) \<and> val K e \<noteq> tri_mod"
  using assms(2,3)
proof (induction e c v arbitrary: t rule: trans_compare_node.induct)
  case (1 l r c v)
  then obtain e1 e2 where t: "trans_compare_node l EQUAL v = Some e1" "trans_compare_node r EQUAL v = Some e2"
    "t = neg_if (c = UNEQUAL) (if v = symbol_no then Eor e1 e2 else if v = symbol_yes then Eand e1 e2
             else Eand l r)" by (auto split: option.splits)
  from 1(1) [OF t(1) 1(4)] 1(2) [OF t(2) 1(4)] 1(4-7) t(3) tri_consts [OF assms(1)] show ?case
    by (cases "val K l"; cases "val K r") (auto simp: expr_val)
next
  case (2 l r c v)
  then obtain e1 e2 where t: "trans_compare_node l EQUAL v = Some e1" "trans_compare_node r EQUAL v = Some e2"
    "t = neg_if (c = UNEQUAL) (if v = symbol_no then Eand e1 e2 else if v = symbol_yes then Eor e1 e2
             else Eor l r)" by (auto split: option.splits)
  from 2(1) [OF t(1) 2(4)] 2(2) [OF t(2) 2(4)] 2(4-7) t(3) tri_consts [OF assms(1)] show ?case
    by (cases "val K l"; cases "val K r") (auto simp: expr_val)
next
  case (3 e c v)
  then show ?case using tri_consts [OF assms(1)]
    by (cases "val K e") (auto simp: expr_val split: if_splits)
next
  case (4 o' a b c v)
  then show ?case using tri_consts [OF assms(1)] by (auto simp: expr_val split: if_splits)
next
  case (5 s c v)
  then have "s_type (k_tab K s) = S_BOOLEAN \<or> s_type (k_tab K s) = S_TRISTATE" "tri_of K s \<noteq> tri_mod" by auto
  with 5 show ?case using tri_consts [OF assms(1)] cmp_consts [OF assms(1), of s] cmp_unequal [OF assms(1)]
    by (auto simp: expr_val expr_alloc_comp_def)
qed auto

text \<open>An absolute dependency on \<open>s\<close> is off when \<open>s\<close> is.\<close>

lemma depends_bound:
  assumes "inv K" "s_type (k_tab K s) = S_BOOLEAN \<or> s_type (k_tab K s) = S_TRISTATE"
  shows "expr_depends_symbol e s \<Longrightarrow> val K e \<noteq> tri_no \<Longrightarrow> tri_of K s \<noteq> tri_no"
  using assms(2)
proof (induction e s rule: expr_depends_symbol.induct)
  case (1 l r s)
  then show ?case by (cases "val K l"; cases "val K r") (auto simp: expr_val)
qed (auto simp: expr_val cmp_consts [OF assms(1)] cmp_unequal [OF assms(1)] split: if_splits)

end

lemma depends_contains: "expr_depends_symbol e s \<Longrightarrow> expr_contains_symbol e s"
  by (induction e s rule: expr_depends_symbol.induct) auto

text \<open>No operand of a connective is the constant y or n.\<close>

fun yn_free :: "expr \<Rightarrow> bool" where
  "yn_free (Eand l r) \<longleftrightarrow> {l, r} \<inter> {Esym symbol_yes, Esym symbol_no} = {} \<and> yn_free l \<and> yn_free r"
| "yn_free (Eor l r) \<longleftrightarrow> {l, r} \<inter> {Esym symbol_yes, Esym symbol_no} = {} \<and> yn_free l \<and> yn_free r"
| "yn_free _ \<longleftrightarrow> True"

lemma yn_yields_free: "yn_free (expr_eliminate_yn e)"
  by (induction e rule: expr_eliminate_yn.induct) (auto simp: Let_def)

lemma yn_free_fixed: "yn_free e \<Longrightarrow> expr_eliminate_yn e = e"
  by (induction e rule: expr_eliminate_yn.induct) (auto simp: Let_def)

section \<open>Properties\<close>


definition sample_expr :: expr where
  "sample_expr = Eor (Eand (Ecmp EQUAL (Sym 1) symbol_yes) (Ecmp UNEQUAL (Sym 1) (Sym 3)))
     (Eand (Esym (Sym 0)) (Ecmp EQUAL (Sym 1) symbol_mod))"

lemma sample_plain: "plain_cmps (k_tab sample_store) (plain_const sample_store) sample_expr"
proof -
  have "plain_const sample_store (Sym 3)"
    by (simp add: plain_const_def sym_get_string_value_def sample_store_def mk_symbol_def) code_simp
  then show ?thesis
    using store.plain_consts [OF sample_settled] by (simp add: sample_expr_def)
qed


text \<open>
  C2: \<open>expr_transform\<close> keeps the value, its result is in negation normal form, and
  transforming it again changes nothing.
\<close>

theorem transform_keeps_value:
  assumes "settled K"
  shows "expr_calc_value K (Some (expr_transform (k_tab K) e)) = expr_calc_value K (Some e) \<and>
    nnf (k_tab K) (expr_transform (k_tab K) e) \<and>
    expr_transform (k_tab K) (expr_transform (k_tab K) e) = expr_transform (k_tab K) e"
proof -
  have "nnf (k_tab K) (expr_transform (k_tab K) e)"
    by (rule transform_nnf) (use settled_consts [OF assms] in \<open>auto simp: tri_const_def\<close>)
  with nnf_transform store.transform_sound [OF assms] show ?thesis by simp
qed

theorem transform_keeps_value_witness:
  "expr_calc_value sample_store (Some (expr_transform (k_tab sample_store)
      (Enot (Eand (Ecmp EQUAL (Sym 0) symbol_no) (Enot (Esym (Sym 1))))))) =
     expr_calc_value sample_store (Some (Enot (Eand (Ecmp EQUAL (Sym 0) symbol_no) (Enot (Esym (Sym 1))))))"
  using transform_keeps_value [OF sample_settled] by blast

text \<open>
  C3: The superset test of \<open>menu_finalize\<close>: when \<open>expr_eliminate_eq\<close> leaves \<open>y\<close> of the
  second expression, its value is at least that of the first; and both values are
  one monotone function of what is left.
\<close>

theorem eliminate_eq_superset:
  assumes "settled K" "expr_eliminate_eq e1 e2 0 = (f1, f2, m)"
  shows "(f2 = Esym symbol_yes \<longrightarrow> expr_calc_value K (Some e1) \<le> expr_calc_value K (Some e2)) \<and>
    (\<exists>h. mono h \<and> expr_calc_value K (Some e1) = h (expr_calc_value K (Some f1)) \<and>
       expr_calc_value K (Some e2) = h (expr_calc_value K (Some f2)))"
  using store.superset [OF assms] store.eliminate_eq_sound [OF assms] by simp

lemma sample_eliminate:
  "expr_eliminate_eq (Eand (Esym (Sym 0)) (Esym (Sym 1))) (Esym (Sym 1)) 0 =
     (Esym (Sym 0), Esym symbol_yes, 1)"
  by code_simp

theorem eliminate_eq_superset_witness:
  "expr_calc_value sample_store (Some (Eand (Esym (Sym 0)) (Esym (Sym 1))))
     \<le> expr_calc_value sample_store (Some (Esym (Sym 1)))"
  using eliminate_eq_superset [OF sample_settled sample_eliminate] by blast

text \<open>
  The loop of \<open>expr_eliminate_dups\<close> ends for every expression and symbol table,
  with an expression that is not larger.
\<close>

theorem dups_terminates:
  assumes "s_type (T symbol_mod) \<noteq> S_BOOLEAN"
  shows "\<exists>e'. expr_eliminate_dups T (Some e) = Some (Some e') \<and> size e' \<le> size e"
  using dups_returns assms .

theorem dups_terminates_witness:
  "\<exists>e'. expr_eliminate_dups sample_tab (Some sample_expr) = Some (Some e') \<and> size e' \<le> size sample_expr"
  by (rule dups_terminates) simp

text \<open>
  \<open>expr_trans_bool\<close>, applied to the dependency of a symbol that is no tristate,
  never raises its value and never changes whether it is \<open>n\<close>.
\<close>

theorem trans_bool_same_boolean:
  assumes "settled K" "nnf (k_tab K) e"
  shows "expr_calc_value K (Some (expr_trans_bool (k_tab K) e)) \<le> expr_calc_value K (Some e) \<and>
    (expr_calc_value K (Some (expr_trans_bool (k_tab K) e)) = tri_no \<longleftrightarrow>
     expr_calc_value K (Some e) = tri_no)"
  using store.trans_bool_nnf [OF assms] by simp

theorem trans_bool_same_boolean_witness:
  "expr_calc_value sample_store (Some (expr_trans_bool sample_tab (Ecmp UNEQUAL (Sym 1) symbol_no)))
     \<le> expr_calc_value sample_store (Some (Ecmp UNEQUAL (Sym 1) symbol_no))"
  using trans_bool_same_boolean [OF sample_settled, of "Ecmp UNEQUAL (Sym 1) symbol_no"]
  by simp

text \<open>
  \<open>expr_trans_compare\<close> with y or n yields an expression that is y when the
  comparison of the value holds and n otherwise, where no symbol is m.
\<close>

theorem trans_compare_value:
  assumes "settled K" "expr_trans_compare (Some e) c v = Some t"
    "v = symbol_yes \<or> v = symbol_no" "c = EQUAL \<or> c = UNEQUAL"
    "\<forall>s\<in>operands e. (s_type (k_tab K s) = S_BOOLEAN \<or> s_type (k_tab K s) = S_TRISTATE) \<and>
       sym_get_tristate_value K s \<noteq> tri_mod"
  shows "expr_calc_value K (Some t) =
    (if (expr_calc_value K (Some e) = sym_get_tristate_value K v) = (c = EQUAL) then tri_yes else tri_no)"
proof -
  have "s_type (k_tab K s) = S_BOOLEAN \<or> s_type (k_tab K s) = S_TRISTATE"
    "sym_get_tristate_value K s \<noteq> tri_mod" if "s \<in> operands e" for s
    using assms(5) that by auto
  from store.trans_compare_sound [OF assms(1) this, of e c v t] assms(2-4) show ?thesis by simp
qed

theorem trans_compare_value_witness:
  "expr_calc_value sample_store
     (Some (Eand (Ecmp UNEQUAL (Sym 2) symbol_no) (Enot (Ecmp UNEQUAL (Sym 1) symbol_no)))) =
   (if expr_calc_value sample_store (Some (Eor (Enot (Esym (Sym 2))) (Ecmp UNEQUAL (Sym 1) symbol_no))) = tri_no
    then tri_yes else tri_no)"
  using trans_compare_value [OF sample_settled, of "Eor (Enot (Esym (Sym 2))) (Ecmp UNEQUAL (Sym 1) symbol_no)"
      EQUAL symbol_no "Eand (Ecmp UNEQUAL (Sym 2) symbol_no) (Enot (Ecmp UNEQUAL (Sym 1) symbol_no))"]
  by (simp add: expr_alloc_comp_def sym_get_tristate_value_def)

text \<open>
  \<open>expr_eliminate_yn\<close> keeps the value, leaves no operand y or n, and is
  idempotent.
\<close>

theorem eliminate_yn_complete:
  assumes "settled K"
  shows "expr_calc_value K (Some (expr_eliminate_yn e)) = expr_calc_value K (Some e) \<and>
    yn_free (expr_eliminate_yn e) \<and> expr_eliminate_yn (expr_eliminate_yn e) = expr_eliminate_yn e"
  using store.yn_sound [OF assms] yn_yields_free yn_free_fixed by simp

theorem eliminate_yn_complete_witness:
  "yn_free (expr_eliminate_yn (Eor (Eand (Esym symbol_yes) (Esym (Sym 0))) (Esym symbol_no)))"
  using eliminate_yn_complete [OF sample_settled] by blast

text \<open>
  \<open>expr_depends_symbol\<close> tests an absolute dependency: the expression contains
  the symbol, and is n whenever the symbol is.
\<close>

theorem depends_symbol_absolute:
  assumes "settled K" "s_type (k_tab K s) = S_BOOLEAN \<or> s_type (k_tab K s) = S_TRISTATE"
    "expr_depends_symbol e s"
  shows "expr_contains_symbol e s \<and>
    (sym_get_tristate_value K s = tri_no \<longrightarrow> expr_calc_value K (Some e) = tri_no)"
  using store.depends_bound [OF assms] depends_contains [OF assms(3)] by auto

theorem depends_symbol_absolute_witness:
  "expr_contains_symbol (Eand (Ecmp UNEQUAL (Sym 1) symbol_no) (Esym (Sym 0))) (Sym 1)"
  using depends_symbol_absolute [OF sample_settled, of "Sym 1" "Eand (Ecmp UNEQUAL (Sym 1) symbol_no) (Esym (Sym 0))"]
  by simp

end
