(* ===== verification/Symbol_Calc.thy ===== *)
theory Symbol_Calc
  imports Expr_Eval
begin

text \<open>
  The calculation of symbol values (symbol.c): visibility, choices, ranges and
  \<open>sym_calc_value\<close>, on the global state. Every operation takes the function \<open>calc\<close>
  that it uses for the symbols it depends on; \<open>sym_calc_value\<close> ties the knot with a
  bound on the depth of the recursion. \<open>None\<close> is a null pointer dereference, or the
  bound exhausted; Symbol\_Total shows that in a well-formed store neither happens.
  Of a property only \<open>visible.tri\<close> changes during a calculation. Warnings printed to
  stderr are not modelled, and the comparison of old and new value is by content,
  where the code compares pointers.
\<close>

section \<open>Access to the store\<close>

definition upd_sym :: "symref \<Rightarrow> (symbol \<Rightarrow> symbol) \<Rightarrow> kstate \<Rightarrow> kstate" where
  "upd_sym s f K = K\<lparr>k_tab := (k_tab K)(s := f (k_tab K s))\<rparr>"

definition has_flag :: "symflag \<Rightarrow> symref \<Rightarrow> kstate \<Rightarrow> bool" where
  "has_flag fl s K \<longleftrightarrow> fl \<in> s_flags (k_tab K s)"

definition set_flag :: "symflag \<Rightarrow> symref \<Rightarrow> kstate \<Rightarrow> kstate" where
  "set_flag fl s K = upd_sym s (\<lambda>r. r\<lparr>s_flags := insert fl (s_flags r)\<rparr>) K"

definition clear_flag :: "symflag \<Rightarrow> symref \<Rightarrow> kstate \<Rightarrow> kstate" where
  "clear_flag fl s K = upd_sym s (\<lambda>r. r\<lparr>s_flags := s_flags r - {fl}\<rparr>) K"

definition sym_is_choice :: "kstate \<Rightarrow> symref \<Rightarrow> bool" where
  "sym_is_choice K s = has_flag SYMBOL_CHOICE s K"

definition sym_is_choice_value :: "kstate \<Rightarrow> symref \<Rightarrow> bool" where
  "sym_is_choice_value K s = has_flag SYMBOL_CHOICEVAL s K"

definition sym_has_value :: "kstate \<Rightarrow> symref \<Rightarrow> bool" where
  "sym_has_value K s = has_flag SYMBOL_DEF_USER s K"

definition sym_get_type :: "kstate \<Rightarrow> symref \<Rightarrow> symbol_type" where
  "sym_get_type K s =
     (if s_type (k_tab K s) = S_TRISTATE then
        (if sym_is_choice_value K s \<and> s_visible (k_tab K s) = tri_yes then S_BOOLEAN
         else if k_modules_val K = tri_no then S_BOOLEAN
         else S_TRISTATE)
      else s_type (k_tab K s))"

definition sym_get_choice_prop :: "kstate \<Rightarrow> symref \<Rightarrow> property option" where
  "sym_get_choice_prop K s = find (\<lambda>p. p_type p = P_CHOICE) (s_prop (k_tab K s))"

definition sym_get_env_prop :: "kstate \<Rightarrow> symref \<Rightarrow> property option" where
  "sym_get_env_prop K s = find (\<lambda>p. p_type p = P_ENV) (s_prop (k_tab K s))"

text \<open>
  \<open>prop_get_symbol\<close>: of an \<open>E_LIST\<close> expression the code would read the pointer to the
  rest of the list as a symbol; here this is no symbol.
\<close>

definition prop_get_symbol :: "property \<Rightarrow> symref option" where
  "prop_get_symbol p = (case p_expr p of Some (Esym s) \<Rightarrow> Some s | _ \<Rightarrow> None)"

text \<open>The symbols that \<open>expr_list_for_each_sym\<close> visits.\<close>

fun list_syms :: "expr option \<Rightarrow> symref list" where
  "list_syms (Some (Elist rest s)) = s # list_syms rest"
| "list_syms _ = []"

text \<open>A property of a symbol is identified by its position.\<close>

definition props :: "kstate \<Rightarrow> symref \<Rightarrow> (nat \<times> property) list" where
  "props K s = List.enumerate 0 (s_prop (k_tab K s))"

definition set_visible_tri :: "symref \<Rightarrow> nat \<Rightarrow> tristate \<Rightarrow> kstate \<Rightarrow> kstate" where
  "set_visible_tri s i t K =
     upd_sym s (\<lambda>r. r\<lparr>s_prop := (s_prop r)[i := (s_prop r ! i)\<lparr>p_vis_tri := t\<rparr>]\<rparr>) K"

definition sym_set_changed :: "symref \<Rightarrow> kstate \<Rightarrow> kstate" where
  "sym_set_changed s K =
     (set_flag SYMBOL_CHANGED s K)
       \<lparr>k_menu_changed := k_menu_changed K \<union> set (List.map_filter p_menu (s_prop (k_tab K s)))\<rparr>"

text \<open>\<open>for_all_symbols\<close>: the allocated symbols, in the order of their allocation.\<close>

definition all_symbols :: "kstate \<Rightarrow> symref list" where
  "all_symbols K = map Sym [0..<k_nsyms K]"

definition sym_set_all_changed :: "kstate \<Rightarrow> kstate" where
  "sym_set_all_changed K = fold sym_set_changed (all_symbols K) K"

section \<open>Evaluation that calculates\<close>

type_synonym calc = "symref \<Rightarrow> kstate \<Rightarrow> (unit \<times> kstate) option"

text \<open>\<open>sym_get_string_value\<close>, which calculates \<open>modules_sym\<close> for the value m.\<close>

definition get_string_value :: "calc \<Rightarrow> symref \<Rightarrow> kstate \<Rightarrow> (string \<times> kstate) option" where
  "get_string_value calc s K =
     (if s_type (k_tab K s) = S_BOOLEAN \<or> s_type (k_tab K s) = S_TRISTATE then
        (case sym_get_tristate_value K s of
           tri_no \<Rightarrow> Some (''n'', K)
         | tri_mod \<Rightarrow> do {
             (_, K1) \<leftarrow> calc (k_modules_sym K) K;
             Some (if sv_tri (s_curr (k_tab K1 (k_modules_sym K1))) = tri_no then ''n'' else ''m'', K1) }
         | tri_yes \<Rightarrow> Some (''y'', K))
      else Some (cstr (sv_val (s_curr (k_tab K s))), K))"

fun calc_expr :: "calc \<Rightarrow> expr \<Rightarrow> kstate \<Rightarrow> (tristate \<times> kstate) option" where
  "calc_expr calc (Esym s) K = do {
     (_, K1) \<leftarrow> calc s K;
     Some (sv_tri (s_curr (k_tab K1 s)), K1) }"
| "calc_expr calc (Eand l r) K = do {
     (val1, K1) \<leftarrow> calc_expr calc l K;
     (val2, K2) \<leftarrow> calc_expr calc r K1;
     Some (EXPR_AND val1 val2, K2) }"
| "calc_expr calc (Eor l r) K = do {
     (val1, K1) \<leftarrow> calc_expr calc l K;
     (val2, K2) \<leftarrow> calc_expr calc r K1;
     Some (EXPR_OR val1 val2, K2) }"
| "calc_expr calc (Enot e) K = do {
     (val1, K1) \<leftarrow> calc_expr calc e K;
     Some (EXPR_NOT val1, K1) }"
| "calc_expr calc (Ecmp c a b) K = do {
     (_, K1) \<leftarrow> calc a K;
     (_, K2) \<leftarrow> calc b K1;
     (str1, K3) \<leftarrow> get_string_value calc a K2;
     (str2, K4) \<leftarrow> get_string_value calc b K3;
     Some (if compare_strings c (s_type (k_tab K4 a)) str1 (s_type (k_tab K4 b)) str2
           then tri_yes else tri_no, K4) }"
| "calc_expr calc (Elist l s) K = Some (tri_no, K)"
| "calc_expr calc (Erange a b) K = Some (tri_no, K)"

fun calc_opt :: "calc \<Rightarrow> expr option \<Rightarrow> kstate \<Rightarrow> (tristate \<times> kstate) option" where
  "calc_opt calc None K = Some (tri_yes, K)"
| "calc_opt calc (Some e) K = calc_expr calc e K"

text \<open>
  The first property of a type whose condition is not n (\<open>sym_get_default_prop\<close>,
  \<open>sym_get_range_prop\<close>); the conditions up to it are evaluated.
\<close>

fun first_prop :: "calc \<Rightarrow> prop_type \<Rightarrow> symref \<Rightarrow> (nat \<times> property) list \<Rightarrow> kstate \<Rightarrow>
    (property option \<times> kstate) option" where
  "first_prop calc ty s [] K = Some (None, K)"
| "first_prop calc ty s ((i, p) # ps) K =
     (if p_type p = ty then do {
        (t, K1) \<leftarrow> calc_opt calc (p_vis_expr p) K;
        (if t \<noteq> tri_no then Some (Some (p\<lparr>p_vis_tri := t\<rparr>), set_visible_tri s i t K1)
         else first_prop calc ty s ps (set_visible_tri s i t K1)) }
      else first_prop calc ty s ps K)"

definition sym_get_default_prop :: "calc \<Rightarrow> symref \<Rightarrow> kstate \<Rightarrow> (property option \<times> kstate) option" where
  "sym_get_default_prop calc s K = first_prop calc P_DEFAULT s (props K s) K"

definition sym_get_range_prop :: "calc \<Rightarrow> symref \<Rightarrow> kstate \<Rightarrow> (property option \<times> kstate) option" where
  "sym_get_range_prop calc s K = first_prop calc P_RANGE s (props K s) K"

definition range_base :: "symbol_type \<Rightarrow> nat \<Rightarrow> nat" where
  "range_base ty base = (if ty = S_INT then 10 else if ty = S_HEX then 16 else base)"

definition sym_get_range_val :: "calc \<Rightarrow> symref \<Rightarrow> nat \<Rightarrow> kstate \<Rightarrow> (int \<times> kstate) option" where
  "sym_get_range_val calc s base K = do {
     (_, K1) \<leftarrow> calc s K;
     Some (fst (strtoll (cstr (sv_val (s_curr (k_tab K1 s)))) (range_base (s_type (k_tab K1 s)) base)), K1) }"

definition set_curr_val :: "symref \<Rightarrow> cval \<Rightarrow> kstate \<Rightarrow> kstate" where
  "set_curr_val s v K = upd_sym s (\<lambda>r. r\<lparr>s_curr := (s_curr r)\<lparr>sv_val := v\<rparr>\<rparr>) K"

text \<open>\<open>sprintf\<close> of a bound: signed decimal, or the hexadecimal digits of its 64 bits.\<close>

definition show_bound :: "symbol_type \<Rightarrow> int \<Rightarrow> string" where
  "show_bound ty x = (if ty = S_INT then show_int x else ''0x'' @ show_nat 16 (nat (x mod 2 ^ 64)))"

definition clamp_range :: "calc \<Rightarrow> symref \<Rightarrow> symbol_type \<Rightarrow> symref \<Rightarrow> symref \<Rightarrow> kstate \<Rightarrow> (unit \<times> kstate) option" where
  "clamp_range calc s ty lo hi K1 =
     (let val = fst (strtoll (cstr (sv_val (s_curr (k_tab K1 s)))) (range_base ty 0)) in do {
        (val2, K2) \<leftarrow> sym_get_range_val calc lo (range_base ty 0) K1;
        (if val \<ge> val2 then do {
           (val3, K3) \<leftarrow> sym_get_range_val calc hi (range_base ty 0) K2;
           Some ((), if val \<le> val3 then K3
                     else set_curr_val s (CStr (show_bound ty val3)) K3) }
         else Some ((), set_curr_val s (CStr (show_bound ty val2)) K2)) })"

definition sym_validate_range :: "calc \<Rightarrow> symref \<Rightarrow> kstate \<Rightarrow> (unit \<times> kstate) option" where
  "sym_validate_range calc s K =
     (let ty = s_type (k_tab K s) in
      if ty \<noteq> S_INT \<and> ty \<noteq> S_HEX then Some ((), K)
      else do {
        (p, K1) \<leftarrow> sym_get_range_prop calc s K;
        case p of None \<Rightarrow> Some ((), K1)
        | Some prop \<Rightarrow>
            (case p_expr prop of Some (Erange lo hi) \<Rightarrow> clamp_range calc s ty lo hi K1 | _ \<Rightarrow> None) })"

section \<open>Visibility\<close>

text \<open>
  The prompts of a symbol: each gets its visibility, and the result is the largest.
  A tristate choice value with visibility m is not visible when the choice is y.
\<close>

fun calc_prompts :: "calc \<Rightarrow> symref \<Rightarrow> symref option \<Rightarrow> (nat \<times> property) list \<Rightarrow> tristate \<Rightarrow> kstate \<Rightarrow>
    (tristate \<times> kstate) option" where
  "calc_prompts calc s choice_sym [] tri K = Some (tri, K)"
| "calc_prompts calc s choice_sym ((i, p) # ps) tri K =
     (if p_text p \<noteq> None then do {
        (t, K1) \<leftarrow> calc_opt calc (p_vis_expr p) K;
        let t' = (case choice_sym of
            Some c \<Rightarrow> (if s_type (k_tab K1 s) = S_TRISTATE \<and> t = tri_mod \<and>
                sv_tri (s_curr (k_tab K1 c)) = tri_yes then tri_no else t)
          | None \<Rightarrow> t);
        calc_prompts calc s choice_sym ps (EXPR_OR tri t') (set_visible_tri s i t' K1) }
      else calc_prompts calc s choice_sym ps tri K)"

text \<open>A new value for one of the cached tristates; a change is recorded.\<close>

definition update_tri ::
  "(symbol \<Rightarrow> tristate) \<Rightarrow> ((tristate \<Rightarrow> tristate) \<Rightarrow> symbol \<Rightarrow> symbol) \<Rightarrow> symref \<Rightarrow> tristate \<Rightarrow> kstate \<Rightarrow> kstate" where
  "update_tri get upd s tri K =
     (if get (k_tab K s) \<noteq> tri then sym_set_changed s (upd_sym s (upd (\<lambda>_. tri)) K) else K)"

definition promote_mod :: "kstate \<Rightarrow> symref \<Rightarrow> tristate \<Rightarrow> tristate" where
  "promote_mod K s tri = (if tri = tri_mod \<and> sym_get_type K s = S_BOOLEAN then tri_yes else tri)"

definition calc_opt_no :: "calc \<Rightarrow> expr option \<Rightarrow> kstate \<Rightarrow> (tristate \<times> kstate) option" where
  "calc_opt_no calc e K = (case e of None \<Rightarrow> Some (tri_no, K) | Some e' \<Rightarrow> calc_expr calc e' K)"

definition choice_of :: "kstate \<Rightarrow> symref \<Rightarrow> symref option option" where
  "choice_of K s = (case sym_get_choice_prop K s of None \<Rightarrow> None | Some p \<Rightarrow> Some (prop_get_symbol p))"

definition calc_field ::
  "(symbol \<Rightarrow> tristate) \<Rightarrow> ((tristate \<Rightarrow> tristate) \<Rightarrow> symbol \<Rightarrow> symbol) \<Rightarrow>
   (kstate \<Rightarrow> (tristate \<times> kstate) option) \<Rightarrow> symref \<Rightarrow> kstate \<Rightarrow> (unit \<times> kstate) option" where
  "calc_field get upd eval s K = do {
     (tri, K1) \<leftarrow> eval K;
     Some ((), update_tri get upd s (promote_mod K1 s tri) K1) }"

definition calc_dependencies :: "calc \<Rightarrow> symref \<Rightarrow> kstate \<Rightarrow> (unit \<times> kstate) option" where
  "calc_dependencies calc s K = do {
     (_, K1) \<leftarrow> calc_field s_dir_tri s_dir_tri_update
       (\<lambda>K. calc_opt calc (s_dir_dep (k_tab K s)) K) s K;
     (_, K2) \<leftarrow> calc_field s_rev_tri s_rev_tri_update
       (\<lambda>K. calc_opt_no calc (s_rev_dep (k_tab K s)) K) s K1;
     calc_field s_impl_tri s_impl_tri_update
       (\<lambda>K. if s_dir_tri (k_tab K s) \<noteq> tri_no then calc_opt_no calc (s_implied (k_tab K s)) K
            else Some (tri_no, K)) s K2 }"

definition finish_visibility :: "calc \<Rightarrow> symref \<Rightarrow> tristate \<Rightarrow> kstate \<Rightarrow> (unit \<times> kstate) option" where
  "finish_visibility calc s tri K =
     (let tri' = (if tri = tri_mod \<and> (s_type (k_tab K s) \<noteq> S_TRISTATE \<or> k_modules_val K = tri_no)
                  then tri_yes else tri);
          K1 = update_tri s_visible s_visible_update s tri' K
      in if sym_is_choice_value K1 s then Some ((), K1) else calc_dependencies calc s K1)"

definition sym_calc_visibility :: "calc \<Rightarrow> symref \<Rightarrow> kstate \<Rightarrow> (unit \<times> kstate) option" where
  "sym_calc_visibility calc s K = do {
     choice_sym \<leftarrow> (if sym_is_choice_value K s then choice_of K s else Some None);
     (tri, K1) \<leftarrow> calc_prompts calc s choice_sym (props K s) tri_no K;
     finish_visibility calc s tri K1 }"

section \<open>Choices\<close>

fun default_choice :: "calc \<Rightarrow> symref \<Rightarrow> (nat \<times> property) list \<Rightarrow> kstate \<Rightarrow> (symref option \<times> kstate) option" where
  "default_choice calc s [] K = Some (None, K)"
| "default_choice calc s ((i, p) # ps) K =
     (if p_type p = P_DEFAULT then do {
        (t, K1) \<leftarrow> calc_opt calc (p_vis_expr p) K;
        let K2 = set_visible_tri s i t K1;
        (if t = tri_no then default_choice calc s ps K2
         else case prop_get_symbol p of
           None \<Rightarrow> None
         | Some def_sym \<Rightarrow>
             (if s_visible (k_tab K2 def_sym) \<noteq> tri_no then Some (Some def_sym, K2)
              else default_choice calc s ps K2)) }
      else default_choice calc s ps K)"

definition sym_choice_default :: "calc \<Rightarrow> symref \<Rightarrow> kstate \<Rightarrow> (symref option \<times> kstate) option" where
  "sym_choice_default calc s K = do {
     (d, K1) \<leftarrow> default_choice calc s (props K s) K;
     case d of Some def_sym \<Rightarrow> Some (Some def_sym, K1)
     | None \<Rightarrow> do {
         prop \<leftarrow> sym_get_choice_prop K1 s;
         Some (find (\<lambda>v. s_visible (k_tab K1 v) \<noteq> tri_no) (list_syms (p_expr prop)), K1) } }"

text \<open>
  The visibilities of the choice values; the result tells whether every visible one
  has a user value.
\<close>

fun calc_values :: "calc \<Rightarrow> symref list \<Rightarrow> bool \<Rightarrow> kstate \<Rightarrow> (bool \<times> kstate) option" where
  "calc_values calc [] flag K = Some (flag, K)"
| "calc_values calc (v # vs) flag K = do {
     (_, K1) \<leftarrow> sym_calc_visibility calc v K;
     calc_values calc vs (if s_visible (k_tab K1 v) \<noteq> tri_no then flag \<and> sym_has_value K1 v else flag) K1 }"

definition calc_default_of :: "calc \<Rightarrow> symref \<Rightarrow> kstate \<Rightarrow> (symref option \<times> kstate) option" where
  "calc_default_of calc s K = do {
     (d, K1) \<leftarrow> sym_choice_default calc s K;
     Some (d, if d = None then upd_sym s (\<lambda>r. r\<lparr>s_curr := (s_curr r)\<lparr>sv_tri := tri_no\<rparr>\<rparr>) K1 else K1) }"

definition pick_choice :: "calc \<Rightarrow> symref \<Rightarrow> kstate \<Rightarrow> (symref option \<times> kstate) option" where
  "pick_choice calc s K =
     (case sv_val (s_def_user (k_tab K s)) of
        CSym d \<Rightarrow> (if s_visible (k_tab K d) \<noteq> tri_no then Some (Some d, K) else calc_default_of calc s K)
      | _ \<Rightarrow> calc_default_of calc s K)"

definition sym_calc_choice :: "calc \<Rightarrow> symref \<Rightarrow> kstate \<Rightarrow> (symref option \<times> kstate) option" where
  "sym_calc_choice calc s K = do {
     prop \<leftarrow> sym_get_choice_prop K s;
     (flag, K1) \<leftarrow> calc_values calc (list_syms (p_expr prop)) (sym_has_value K s) K;
     pick_choice calc s (if flag then K1 else clear_flag SYMBOL_DEF_USER s K1) }"

text \<open>\<open>set_all_choice_values\<close> (confdata.c).\<close>

definition set_all_choice_values :: "symref \<Rightarrow> kstate \<Rightarrow> (unit \<times> kstate) option" where
  "set_all_choice_values cs K = do {
     prop \<leftarrow> sym_get_choice_prop K cs;
     let K1 = fold (\<lambda>v K. if sym_has_value K v then K
         else upd_sym v (\<lambda>r. r\<lparr>s_def_user := (s_def_user r)\<lparr>sv_tri := tri_no\<rparr>\<rparr>) K)
       (list_syms (p_expr prop)) K;
     Some ((), clear_flag SYMBOL_NEED_SET_CHOICE_VALUES cs
       (clear_flag SYMBOL_VALID cs (set_flag SYMBOL_DEF_USER cs K1))) }"

section \<open>\<open>sym_calc_value\<close>\<close>

text \<open>The part after \<open>calc_newval\<close>: selections, and m where it is not allowed.\<close>

definition apply_select :: "kstate \<Rightarrow> symref \<Rightarrow> tristate \<Rightarrow> tristate" where
  "apply_select K s t = EXPR_OR t (s_rev_tri (k_tab K s))"

definition fix_mod :: "kstate \<Rightarrow> symref \<Rightarrow> tristate \<Rightarrow> tristate" where
  "fix_mod K s t =
     (if t = tri_mod \<and> (sym_get_type K s = S_BOOLEAN \<or> s_impl_tri (k_tab K s) = tri_yes)
      then tri_yes else t)"

text \<open>A symbol without a usable user value: its default and what implies it.\<close>

definition default_tri :: "calc \<Rightarrow> symref \<Rightarrow> kstate \<Rightarrow> (tristate \<times> kstate) option" where
  "default_tri calc s K = do {
     (p, K1) \<leftarrow> sym_get_default_prop calc s K;
     case p of
       None \<Rightarrow> Some (tri_no, K1)
     | Some prop \<Rightarrow> do {
         (v, K2) \<leftarrow> calc_opt calc (p_expr prop) K1;
         let t = EXPR_AND v (p_vis_tri prop);
         Some (t, if t \<noteq> tri_no then set_flag SYMBOL_WRITE s K2 else K2) } }"

definition add_implied :: "symref \<Rightarrow> tristate \<Rightarrow> kstate \<Rightarrow> tristate \<times> kstate" where
  "add_implied s t K =
     (if s_impl_tri (k_tab K s) \<noteq> tri_no
      then (EXPR_OR t (s_impl_tri (k_tab K s)), set_flag SYMBOL_WRITE s K)
      else (t, K))"

definition calc_default_tri :: "calc \<Rightarrow> symref \<Rightarrow> kstate \<Rightarrow> (tristate \<times> kstate) option" where
  "calc_default_tri calc s K0 =
     (let K = (if s_rev_tri (k_tab K0 s) \<noteq> tri_no then set_flag SYMBOL_WRITE s K0 else K0) in
      if sym_is_choice K s then Some (tri_no, K)
      else do {
        (t, K1) \<leftarrow> default_tri calc s K;
        Some (add_implied s t K1) })"

definition calc_tristate :: "calc \<Rightarrow> symref \<Rightarrow> kstate \<Rightarrow> (tristate \<times> kstate) option" where
  "calc_tristate calc s K =
     (if sym_is_choice_value K s \<and> s_visible (k_tab K s) = tri_yes then
        (case choice_of K s of
           Some (Some c) \<Rightarrow>
             (let t = (if sv_val (s_curr (k_tab K c)) = CSym s then tri_yes else tri_no)
              in Some (fix_mod K s t, K))
         | _ \<Rightarrow> None)
      else if s_visible (k_tab K s) \<noteq> tri_no \<and> sym_has_value K s then
        (let t = EXPR_AND (sv_tri (s_def_user (k_tab K s))) (s_visible (k_tab K s))
         in Some (fix_mod K s (apply_select K s t), K))
      else do {
        (t, K1) \<leftarrow> calc_default_tri calc s K;
        Some (fix_mod K1 s (apply_select K1 s t), K1) })"

definition calc_string :: "calc \<Rightarrow> symref \<Rightarrow> cval \<Rightarrow> kstate \<Rightarrow> (cval \<times> kstate) option" where
  "calc_string calc s dflt K =
     (if s_visible (k_tab K s) \<noteq> tri_no \<and> sym_has_value K s
      then Some (sv_val (s_def_user (k_tab K s)), K)
      else do {
        (p, K1) \<leftarrow> sym_get_default_prop calc s K;
        case p of None \<Rightarrow> Some (dflt, K1)
        | Some prop \<Rightarrow>
            (case prop_get_symbol prop of None \<Rightarrow> Some (dflt, K1)
             | Some ds \<Rightarrow> do {
                 (_, K2) \<leftarrow> calc ds (set_flag SYMBOL_WRITE s K1);
                 Some (sv_val (s_curr (k_tab K2 ds)), K2) }) })"

text \<open>The effects after the new value is known: change flags and \<open>modules_val\<close>.\<close>

definition note_change :: "symref \<Rightarrow> symbol_value \<Rightarrow> kstate \<Rightarrow> kstate" where
  "note_change s oldval K =
     (if oldval \<noteq> s_curr (k_tab K s) then
        (let K1 = sym_set_changed s K in
         if k_modules_sym K1 = s then
           (let K2 = sym_set_all_changed K1
            in K2\<lparr>k_modules_val := sv_tri (s_curr (k_tab K2 s))\<rparr>)
         else K1)
      else K)"

definition touch_values :: "symref \<Rightarrow> kstate \<Rightarrow> (unit \<times> kstate) option" where
  "touch_values s K = do {
     prop \<leftarrow> sym_get_choice_prop K s;
     Some ((), fold (\<lambda>v K.
        (let K1 = (if has_flag SYMBOL_WRITE s K \<and> s_visible (k_tab K v) \<noteq> tri_no
                   then set_flag SYMBOL_WRITE v K else K)
         in if has_flag SYMBOL_CHANGED s K1 then sym_set_changed v K1 else K1))
       (list_syms (p_expr prop)) K) }"

definition set_curr :: "symref \<Rightarrow> symbol_value \<Rightarrow> kstate \<Rightarrow> kstate" where
  "set_curr s v K = upd_sym s (\<lambda>r. r\<lparr>s_curr := v\<rparr>) K"

text \<open>The choice whose values must be set before that of a choice value.\<close>

definition calc_choice_first :: "calc \<Rightarrow> symref \<Rightarrow> kstate \<Rightarrow> (unit \<times> kstate) option" where
  "calc_choice_first calc s K =
     (if sym_is_choice_value K s \<and> has_flag SYMBOL_NEED_SET_CHOICE_VALUES s K then
        (let K1 = clear_flag SYMBOL_NEED_SET_CHOICE_VALUES s K in
         case choice_of K1 s of None \<Rightarrow> None
         | Some None \<Rightarrow> Some ((), K1)
         | Some (Some c) \<Rightarrow> calc c K1)
      else Some ((), K))"

definition calc_new_value :: "calc \<Rightarrow> symref \<Rightarrow> symbol_value \<Rightarrow> kstate \<Rightarrow> (unit \<times> kstate) option" where
  "calc_new_value calc s newval K =
     (let ty = sym_get_type K s in
      if ty = S_BOOLEAN \<or> ty = S_TRISTATE then do {
        (t, K1) \<leftarrow> calc_tristate calc s K;
        Some ((), set_curr s (newval\<lparr>sv_tri := t\<rparr>) K1) }
      else do {
        (v, K1) \<leftarrow> calc_string calc s (sv_val newval) K;
        Some ((), set_curr s (newval\<lparr>sv_val := v\<rparr>) K1) })"

definition calc_choice_value :: "calc \<Rightarrow> symref \<Rightarrow> kstate \<Rightarrow> (unit \<times> kstate) option" where
  "calc_choice_value calc s K =
     (if sym_is_choice K s \<and> sv_tri (s_curr (k_tab K s)) = tri_yes then do {
        (d, K1) \<leftarrow> sym_calc_choice calc s K;
        Some ((), set_curr_val s (case d of Some v \<Rightarrow> CSym v | None \<Rightarrow> CNull) K1) }
      else Some ((), K))"

definition calc_finish :: "symref \<Rightarrow> symbol_value \<Rightarrow> kstate \<Rightarrow> (unit \<times> kstate) option" where
  "calc_finish s oldval K = do {
     (_, K1) \<leftarrow> (if sym_is_choice K s then touch_values s (note_change s oldval K)
                  else Some ((), note_change s oldval K));
     let K2 = (if has_flag SYMBOL_AUTO s K1 then clear_flag SYMBOL_WRITE s K1 else K1);
     (if has_flag SYMBOL_NEED_SET_CHOICE_VALUES s K2 then set_all_choice_values s K2 else Some ((), K2)) }"

text \<open>One activation of \<open>sym_calc_value\<close>.\<close>

definition calc_body :: "calc \<Rightarrow> symref \<Rightarrow> kstate \<Rightarrow> (unit \<times> kstate) option" where
  "calc_body calc s K =
     (if has_flag SYMBOL_VALID s K then Some ((), K)
      else do {
        (_, K1) \<leftarrow> calc_choice_first calc s K;
        let K2 = set_flag SYMBOL_VALID s K1;
        let r = k_tab K2 s;
        (if s_type r = S_UNKNOWN \<or> s_type r = S_OTHER then
           Some ((), set_curr s \<lparr>sv_val = (case s_name r of Some n \<Rightarrow> CStr n | None \<Rightarrow> CNull), sv_tri = tri_no\<rparr> K2)
         else do {
           let newval = s_curr (k_tab K2 (if s_type r = S_BOOLEAN \<or> s_type r = S_TRISTATE
                                          then symbol_no else symbol_empty));
           (_, K3) \<leftarrow> sym_calc_visibility calc s (clear_flag SYMBOL_WRITE s K2);
           let K4 = (if s_visible (k_tab K3 s) \<noteq> tri_no then set_flag SYMBOL_WRITE s K3 else K3);
           (_, K5) \<leftarrow> calc_new_value calc s newval (set_curr s newval K4);
           (_, K6) \<leftarrow> calc_choice_value calc s K5;
           (_, K7) \<leftarrow> sym_validate_range calc s K6;
           calc_finish s (s_curr r) K7 }) })"

fun sym_calc_value :: "nat \<Rightarrow> symref \<Rightarrow> kstate \<Rightarrow> (unit \<times> kstate) option" where
  "sym_calc_value 0 s K = None"
| "sym_calc_value (Suc n) s K = calc_body (sym_calc_value n) s K"

end
