(* ===== verification/Symbol_Total.thy ===== *)
theory Symbol_Total
  imports Symbol_Calc
begin

text \<open>
  \<open>sym_calc_value\<close> returns in every well-formed store, and what it leaves alone: the
  static part of every symbol, and the values of the symbols that are already
  valid. The recursion is bounded because an activation marks its symbol valid (or
  clears the flag that made it visit the choice first) before it calls others.
\<close>

section \<open>How calculation changes the store\<close>

definition dynamic_flags :: "symflag set" where
  "dynamic_flags =
     {SYMBOL_VALID, SYMBOL_WRITE, SYMBOL_CHANGED, SYMBOL_NEED_SET_CHOICE_VALUES, SYMBOL_DEF_USER}"

definition static :: "symbol \<Rightarrow> symbol" where
  "static r = r\<lparr>s_curr := \<lparr>sv_val = CNull, sv_tri = tri_no\<rparr>, s_def_user := \<lparr>sv_val = CNull, sv_tri = tri_no\<rparr>,
     s_visible := tri_no, s_flags := s_flags r - dynamic_flags,
     s_prop := map (p_vis_tri_update (\<lambda>_. tri_no)) (s_prop r),
     s_dir_tri := tri_no, s_rev_tri := tri_no, s_impl_tri := tri_no\<rparr>"

text \<open>What a valid symbol that is no part of a choice keeps besides its value.\<close>

definition core :: "symbol \<Rightarrow> tristate \<times> tristate \<times> tristate \<times> tristate \<times> bool \<times> symbol_value" where
  "core r = (s_visible r, s_dir_tri r, s_rev_tri r, s_impl_tri r, SYMBOL_DEF_USER \<in> s_flags r, s_def_user r)"

definition kept :: "symbol \<Rightarrow> symbol \<Rightarrow> bool" where
  "kept r r' \<longleftrightarrow> s_curr r' = s_curr r \<and>
     (SYMBOL_CHOICE \<notin> s_flags r \<and> SYMBOL_CHOICEVAL \<notin> s_flags r \<longrightarrow> core r' = core r)"

text \<open>
  What holds of the value of a symbol once it is calculated. A constant has its name
  as value. A boolean symbol is never m. For a symbol outside of choices: selection is
  a lower bound, a visible symbol has its user value as far as visibility and
  selection allow, and a symbol without one is at least what implies it.
\<close>

definition user_value :: "symbol \<Rightarrow> tristate" where
  "user_value r = max (min (sv_tri (s_def_user r)) (s_visible r)) (s_rev_tri r)"

definition tri_ok :: "symbol \<Rightarrow> bool" where
  "tri_ok r \<longleftrightarrow> (let t = sv_tri (s_curr r) in
     s_rev_tri r \<le> t \<and> (s_impl_tri r = tri_yes \<longrightarrow> t \<noteq> tri_mod) \<and>
     (if s_visible r \<noteq> tri_no \<and> SYMBOL_DEF_USER \<in> s_flags r
      then t = user_value r \<or> (user_value r = tri_mod \<and> t = tri_yes)
      else s_impl_tri r \<le> t))"

definition value_ok :: "symbol \<Rightarrow> bool" where
  "value_ok r \<longleftrightarrow>
     (s_type r = S_UNKNOWN \<or> s_type r = S_OTHER \<longrightarrow>
        s_curr r = \<lparr>sv_val = (case s_name r of Some n \<Rightarrow> CStr n | None \<Rightarrow> CNull), sv_tri = tri_no\<rparr>) \<and>
     (SYMBOL_CHOICE \<notin> s_flags r \<longrightarrow>
        (s_type r = S_BOOLEAN \<longrightarrow> sv_tri (s_curr r) \<noteq> tri_mod) \<and>
        (SYMBOL_CHOICEVAL \<notin> s_flags r \<longrightarrow> s_type r = S_BOOLEAN \<or> s_type r = S_TRISTATE \<longrightarrow> tri_ok r))"

definition step :: "symref set \<Rightarrow> kstate \<Rightarrow> kstate \<Rightarrow> bool" where
  "step X K K' \<longleftrightarrow>
     k_nsyms K' = k_nsyms K \<and> k_hash K' = k_hash K \<and> k_modules_sym K' = k_modules_sym K \<and>
     (\<forall>t. static (k_tab K' t) = static (k_tab K t)) \<and>
     (\<forall>t. has_flag SYMBOL_NEED_SET_CHOICE_VALUES t K' \<longrightarrow> has_flag SYMBOL_NEED_SET_CHOICE_VALUES t K) \<and>
     (\<forall>t. has_flag SYMBOL_VALID t K \<longrightarrow> has_flag SYMBOL_VALID t K' \<and>
        (t \<notin> X \<longrightarrow> kept (k_tab K t) (k_tab K' t))) \<and>
     (\<forall>t. t \<notin> X \<longrightarrow> has_flag SYMBOL_VALID t K' \<longrightarrow> \<not> has_flag SYMBOL_VALID t K \<longrightarrow>
        value_ok (k_tab K' t))"

lemma static_flags: "static r = static r' \<Longrightarrow> fl \<notin> dynamic_flags \<Longrightarrow> fl \<in> s_flags r \<longleftrightarrow> fl \<in> s_flags r'"
  by (cases r; cases r') (auto simp: static_def)

lemma static_fields:
  assumes "static r = static r'"
  shows "s_type r = s_type r'" "s_name r = s_name r'"
  using arg_cong [OF assms, of s_type] arg_cong [OF assms, of s_name] by (simp_all add: static_def)

lemma kept_value_ok:
  assumes "kept r r'" "static r' = static r" "value_ok r"
  shows "value_ok r'"
proof -
  have f: "SYMBOL_CHOICE \<in> s_flags r' \<longleftrightarrow> SYMBOL_CHOICE \<in> s_flags r"
    "SYMBOL_CHOICEVAL \<in> s_flags r' \<longleftrightarrow> SYMBOL_CHOICEVAL \<in> s_flags r"
    using static_flags [OF assms(2)] by (simp_all add: dynamic_flags_def)
  have "tri_ok r' = tri_ok r" if "core r' = core r" "s_curr r' = s_curr r"
    using that by (simp add: tri_ok_def core_def user_value_def)
  with assms(1,3) show ?thesis
    by (auto simp: value_ok_def f static_fields [OF assms(2)] kept_def)
qed

lemma step_refl [simp]: "step X K K"
  by (simp add: step_def kept_def)

lemma step_mono: "step X K K' \<Longrightarrow> X \<subseteq> Y \<Longrightarrow> step Y K K'"
  by (auto simp: step_def)

lemma step_trans [trans]:
  assumes "step X K K1" "step X K1 K2"
  shows "step X K K2"
proof -
  have "kept (k_tab K t) (k_tab K2 t)" if "has_flag SYMBOL_VALID t K" "t \<notin> X" for t
  proof -
    have k: "kept (k_tab K t) (k_tab K1 t)" "kept (k_tab K1 t) (k_tab K2 t)"
      using assms that by (auto simp: step_def)
    have "static (k_tab K1 t) = static (k_tab K t)" using assms by (simp add: step_def)
    from k static_flags [OF this, of SYMBOL_CHOICE] static_flags [OF this, of SYMBOL_CHOICEVAL]
    show ?thesis by (auto simp: kept_def dynamic_flags_def)
  qed
  moreover have "value_ok (k_tab K2 t)"
    if "t \<notin> X" "has_flag SYMBOL_VALID t K2" "\<not> has_flag SYMBOL_VALID t K" for t
  proof (cases "has_flag SYMBOL_VALID t K1")
    case True
    then have "value_ok (k_tab K1 t)" "kept (k_tab K1 t) (k_tab K2 t)"
      "static (k_tab K2 t) = static (k_tab K1 t)"
      using assms that by (auto simp: step_def)
    then show ?thesis using kept_value_ok by blast
  next
    case False
    with assms(2) that show ?thesis by (auto simp: step_def)
  qed
  ultimately show ?thesis using assms by (auto simp: step_def)
qed

lemma step_closed: "step {s} K K' \<Longrightarrow> \<not> has_flag SYMBOL_VALID s K \<Longrightarrow> value_ok (k_tab K' s) \<Longrightarrow> step {} K K'"
  by (auto simp: step_def)

lemma step_value_ok:
  assumes "step X K K'" "has_flag SYMBOL_VALID s K" "s \<notin> X" "value_ok (k_tab K s)"
  shows "value_ok (k_tab K' s)"
  using kept_value_ok [of "k_tab K s" "k_tab K' s"] assms by (auto simp: step_def)

section \<open>Elementary updates\<close>

lemma k_tab_upd: "k_tab (upd_sym s f K) t = (if t = s then f (k_tab K s) else k_tab K t)"
  by (simp add: upd_sym_def)

lemma upd_sym_simps [simp]:
  "k_nsyms (upd_sym s f K) = k_nsyms K" "k_hash (upd_sym s f K) = k_hash K"
  "k_modules_sym (upd_sym s f K) = k_modules_sym K" "k_modules_val (upd_sym s f K) = k_modules_val K"
  by (simp_all add: upd_sym_def)

lemma step_upd:
  assumes "static (f (k_tab K s)) = static (k_tab K s)"
    "SYMBOL_NEED_SET_CHOICE_VALUES \<in> s_flags (f (k_tab K s)) \<Longrightarrow> has_flag SYMBOL_NEED_SET_CHOICE_VALUES s K"
    "has_flag SYMBOL_VALID s K \<Longrightarrow> SYMBOL_VALID \<in> s_flags (f (k_tab K s))"
    "has_flag SYMBOL_VALID s K \<Longrightarrow> s \<notin> X \<Longrightarrow> kept (k_tab K s) (f (k_tab K s))"
    "SYMBOL_VALID \<in> s_flags (f (k_tab K s)) \<Longrightarrow> s \<in> X \<or> has_flag SYMBOL_VALID s K"
  shows "step X K (upd_sym s f K)"
  using assms by (auto simp: step_def k_tab_upd has_flag_def kept_def)

lemma has_flag_set [simp]: "has_flag fl t (set_flag fl' s K) \<longleftrightarrow> (t = s \<and> fl = fl') \<or> has_flag fl t K"
  by (auto simp: has_flag_def set_flag_def k_tab_upd)

lemma has_flag_clear [simp]: "has_flag fl t (clear_flag fl' s K) \<longleftrightarrow> has_flag fl t K \<and> \<not> (t = s \<and> fl = fl')"
  by (auto simp: has_flag_def clear_flag_def k_tab_upd)

lemma static_flag:
  "fl \<in> dynamic_flags \<Longrightarrow> static (r\<lparr>s_flags := insert fl (s_flags r)\<rparr>) = static r"
  "fl \<in> dynamic_flags \<Longrightarrow> static (r\<lparr>s_flags := s_flags r - {fl}\<rparr>) = static r"
proof -
  assume "fl \<in> dynamic_flags"
  then have "s_flags r - {fl} - dynamic_flags = s_flags r - dynamic_flags" by auto
  then show "static (r\<lparr>s_flags := s_flags r - {fl}\<rparr>) = static r" by (simp add: static_def)
qed (simp add: static_def)

lemma step_set_flag:
  "fl = SYMBOL_WRITE \<or> fl = SYMBOL_CHANGED \<Longrightarrow> step X K (set_flag fl s K)"
  unfolding set_flag_def
  by (rule step_upd) (auto simp: static_flag dynamic_flags_def kept_def core_def has_flag_def)

lemma step_set_valid: "s \<in> X \<Longrightarrow> step X K (set_flag SYMBOL_VALID s K)"
  unfolding set_flag_def
  by (rule step_upd) (auto simp: static_flag dynamic_flags_def kept_def core_def has_flag_def)

lemma step_clear_flag:
  "fl = SYMBOL_NEED_SET_CHOICE_VALUES \<or> fl = SYMBOL_WRITE \<Longrightarrow> step X K (clear_flag fl s K)"
  unfolding clear_flag_def
  by (rule step_upd) (auto simp: static_flag dynamic_flags_def kept_def core_def has_flag_def)

lemma step_user_flag:
  "s \<in> X \<or> sym_is_choice K s \<Longrightarrow> step X K (clear_flag SYMBOL_DEF_USER s K)"
  unfolding clear_flag_def
  by (rule step_upd)
    (auto simp: static_flag dynamic_flags_def kept_def core_def has_flag_def sym_is_choice_def)

lemma static_vis: "static (r\<lparr>s_prop := (s_prop r)[i := (s_prop r ! i)\<lparr>p_vis_tri := t\<rparr>]\<rparr>) = static r"
proof -
  have "map (p_vis_tri_update (\<lambda>_. tri_no)) ((s_prop r)[i := (s_prop r ! i)\<lparr>p_vis_tri := t\<rparr>]) =
      map (p_vis_tri_update (\<lambda>_. tri_no)) (s_prop r)"
  proof (cases "i < length (s_prop r)")
    case True
    then have "p_vis_tri_update (\<lambda>_. tri_no) ((s_prop r ! i)\<lparr>p_vis_tri := t\<rparr>) =
        map (p_vis_tri_update (\<lambda>_. tri_no)) (s_prop r) ! i" by simp
    then show ?thesis by (simp only: map_update list_update_id)
  qed (simp add: list_update_beyond)
  then show ?thesis by (simp add: static_def)
qed

lemma step_visible_tri [simp]: "step X K (set_visible_tri s i t K)"
  unfolding set_visible_tri_def
  by (rule step_upd) (auto simp: static_vis kept_def core_def has_flag_def)

lemma step_menu [simp]: "step X K (K'\<lparr>k_menu_changed := m\<rparr>) = step X K K'"
  "step X K (K'\<lparr>k_modules_val := v\<rparr>) = step X K K'"
  by (simp_all add: step_def has_flag_def)

lemma step_changed [simp]: "step X K (sym_set_changed s K)"
  by (simp add: sym_set_changed_def step_set_flag)

lemma step_fold: "(\<And>x K. x \<in> set xs \<Longrightarrow> step X K (f x K)) \<Longrightarrow> step X K (fold f xs K)"
  by (induction xs arbitrary: K) (auto intro: step_trans)

lemma step_all_changed [simp]: "step X K (sym_set_all_changed K)"
  by (simp add: sym_set_all_changed_def step_fold)

lemma step_curr: "s \<in> X \<Longrightarrow> step X K (set_curr s v K)" "s \<in> X \<Longrightarrow> step X K (set_curr_val s c K)"
  "s \<in> X \<Longrightarrow> step X K (upd_sym s (\<lambda>r. r\<lparr>s_curr := g r\<rparr>) K)"
  unfolding set_curr_def set_curr_val_def
  by (rule step_upd; auto simp: static_def has_flag_def)+

definition tri_field :: "(symbol \<Rightarrow> tristate) \<Rightarrow> ((tristate \<Rightarrow> tristate) \<Rightarrow> symbol \<Rightarrow> symbol) \<Rightarrow> bool" where
  "tri_field get upd \<longleftrightarrow> (get, upd) \<in>
     {(s_visible, s_visible_update), (s_dir_tri, s_dir_tri_update), (s_rev_tri, s_rev_tri_update),
      (s_impl_tri, s_impl_tri_update)}"

lemma step_update_tri:
  assumes "tri_field get upd" "s \<in> X \<or> sym_is_choice K s \<or> sym_is_choice_value K s"
  shows "step X K (update_tri get upd s t K)"
proof -
  have "step X K (upd_sym s (upd (\<lambda>_. t)) K)"
    using assms by (intro step_upd)
      (auto simp: tri_field_def static_def kept_def has_flag_def sym_is_choice_def sym_is_choice_value_def)
  then show ?thesis
    by (auto simp: update_tri_def intro: step_trans)
qed

section \<open>Well-formed stores\<close>

definition choice_expr :: "symbol \<Rightarrow> expr option option" where
  "choice_expr r = map_option p_expr (find (\<lambda>p. p_type p = P_CHOICE) (s_prop r))"

lemma find_map: "find P (map f xs) = map_option f (find (\<lambda>x. P (f x)) xs)"
  by (induction xs) auto

lemma choice_expr_static: "choice_expr (static r) = choice_expr r"
  by (simp add: choice_expr_def static_def find_map option.map_comp comp_def)

text \<open>
  A choice value names its choice, which is one, a choice lists choice values and has symbols as
  defaults, and a range has two bounds.
\<close>

definition symbol_wf :: "symtab \<Rightarrow> symbol \<Rightarrow> bool" where
  "symbol_wf T r \<longleftrightarrow>
     (SYMBOL_CHOICEVAL \<in> s_flags r \<longrightarrow>
        (\<exists>c. choice_expr r = Some (Some (Esym c)) \<and> SYMBOL_CHOICE \<in> s_flags (T c))) \<and>
     (SYMBOL_CHOICE \<in> s_flags r \<longrightarrow>
        (\<exists>e. choice_expr r = Some e \<and> (\<forall>v\<in>set (list_syms e). SYMBOL_CHOICEVAL \<in> s_flags (T v))) \<and>
        (\<forall>p\<in>set (s_prop r). p_type p = P_DEFAULT \<longrightarrow> (\<exists>d. p_expr p = Some (Esym d)))) \<and>
     (\<forall>p\<in>set (s_prop r). p_type p = P_RANGE \<longrightarrow> (\<exists>a b. p_expr p = Some (Erange a b)))"

definition store_wf :: "kstate \<Rightarrow> bool" where
  "store_wf K \<longleftrightarrow> (\<forall>t. symbol_wf (k_tab K) (k_tab K t)) \<and>
     (\<forall>t. t \<notin> set (all_symbols K) \<longrightarrow>
        has_flag SYMBOL_VALID t K \<and> \<not> has_flag SYMBOL_NEED_SET_CHOICE_VALUES t K) \<and>
     (\<forall>t. has_flag SYMBOL_NEED_SET_CHOICE_VALUES t K \<longrightarrow> sym_is_choice K t \<or> sym_is_choice_value K t)"

lemma symbol_wf_static:
  assumes "\<And>t. static (T' t) = static (T t)" "static r' = static r" "symbol_wf T r"
  shows "symbol_wf T' r'"
proof -
  have c: "choice_expr r' = choice_expr r"
    using assms(2) choice_expr_static by metis
  have f: "fl \<in> s_flags r' \<longleftrightarrow> fl \<in> s_flags r" if "fl \<notin> dynamic_flags" for fl
    using static_flags [OF assms(2) that] .
  have v: "SYMBOL_CHOICEVAL \<in> s_flags (T' t) \<longleftrightarrow> SYMBOL_CHOICEVAL \<in> s_flags (T t)" for t
    using static_flags [OF assms(1), of SYMBOL_CHOICEVAL] by (simp add: dynamic_flags_def)
  have v': "SYMBOL_CHOICE \<in> s_flags (T' t) \<longleftrightarrow> SYMBOL_CHOICE \<in> s_flags (T t)" for t
    using static_flags [OF assms(1), of SYMBOL_CHOICE] by (simp add: dynamic_flags_def)
  have "map (p_vis_tri_update (\<lambda>_. tri_no)) (s_prop r') = map (p_vis_tri_update (\<lambda>_. tri_no)) (s_prop r)"
    using arg_cong [OF assms(2), of s_prop] by (simp add: static_def)
  then have im: "p_vis_tri_update (\<lambda>_. tri_no) p \<in> p_vis_tri_update (\<lambda>_. tri_no) ` set (s_prop r)"
    if "p \<in> set (s_prop r')" for p
    using that by (metis image_eqI list.set_map)
  then have p: "\<exists>p0\<in>set (s_prop r). p_type p0 = p_type p \<and> p_expr p0 = p_expr p"
    if "p \<in> set (s_prop r')" for p
  proof -
    from im [OF that] obtain p0 where p0: "p0 \<in> set (s_prop r)"
      and eq: "p_vis_tri_update (\<lambda>_. tri_no) p = p_vis_tri_update (\<lambda>_. tri_no) p0" by blast
    from arg_cong [OF eq, of p_type] arg_cong [OF eq, of p_expr]
    have "p_type p0 = p_type p \<and> p_expr p0 = p_expr p" by simp
    with p0 show ?thesis by blast
  qed
  have cf: "SYMBOL_CHOICE \<in> s_flags r' \<longleftrightarrow> SYMBOL_CHOICE \<in> s_flags r"
    "SYMBOL_CHOICEVAL \<in> s_flags r' \<longleftrightarrow> SYMBOL_CHOICEVAL \<in> s_flags r"
    using f by (simp_all add: dynamic_flags_def)
  have all: "\<forall>q\<in>set (s_prop r'). p_type q = ty \<longrightarrow> Q (p_expr q)"
    if "\<forall>q\<in>set (s_prop r). p_type q = ty \<longrightarrow> Q (p_expr q)" for ty Q
  proof (intro ballI impI)
    fix q assume "q \<in> set (s_prop r')" "p_type q = ty"
    with p [of q] that show "Q (p_expr q)" by metis
  qed
  note w = assms(3) [unfolded symbol_wf_def]
  show ?thesis
    unfolding symbol_wf_def c cf v v'
  proof (intro conjI impI)
    assume "SYMBOL_CHOICEVAL \<in> s_flags r"
    with w show "\<exists>c. choice_expr r = Some (Some (Esym c)) \<and> SYMBOL_CHOICE \<in> s_flags (T c)" by blast
  next
    assume "SYMBOL_CHOICE \<in> s_flags r"
    with w show "\<exists>e. choice_expr r = Some e \<and> (\<forall>v\<in>set (list_syms e). SYMBOL_CHOICEVAL \<in> s_flags (T v))"
      by blast
  next
    assume "SYMBOL_CHOICE \<in> s_flags r"
    with w show "\<forall>p\<in>set (s_prop r'). p_type p = P_DEFAULT \<longrightarrow> (\<exists>d. p_expr p = Some (Esym d))"
      using all [of P_DEFAULT "\<lambda>e. \<exists>d. e = Some (Esym d)"] by blast
  next
    show "\<forall>p\<in>set (s_prop r'). p_type p = P_RANGE \<longrightarrow> (\<exists>a b. p_expr p = Some (Erange a b))"
      using w all [of P_RANGE "\<lambda>e. \<exists>a b. e = Some (Erange a b)"] by blast
  qed
qed

lemma step_flag:
  assumes "step X K K'" "fl \<notin> dynamic_flags"
  shows "has_flag fl s K' \<longleftrightarrow> has_flag fl s K"
proof -
  have "static (k_tab K' s) = static (k_tab K s)" using assms(1) by (simp add: step_def)
  from static_flags [OF this assms(2)] show ?thesis by (simp add: has_flag_def)
qed

lemma step_choice:
  assumes "step X K K'"
  shows "sym_is_choice_value K' s = sym_is_choice_value K s" "sym_is_choice K' s = sym_is_choice K s"
  using step_flag [OF assms, of SYMBOL_CHOICEVAL] step_flag [OF assms, of SYMBOL_CHOICE]
  by (simp_all add: sym_is_choice_value_def sym_is_choice_def dynamic_flags_def)

lemma wf_step: "step X K K' \<Longrightarrow> store_wf K \<Longrightarrow> store_wf K'"
  unfolding store_wf_def using step_choice [of X K K']
  by (auto simp: step_def all_symbols_def intro: symbol_wf_static)

definition mu :: "kstate \<Rightarrow> nat" where
  "mu K = card {t. \<not> has_flag SYMBOL_VALID t K} + card {t. has_flag SYMBOL_NEED_SET_CHOICE_VALUES t K}"

lemma wf_finite:
  assumes "store_wf K"
  shows "finite {t. \<not> has_flag SYMBOL_VALID t K}" "finite {t. has_flag SYMBOL_NEED_SET_CHOICE_VALUES t K}"
  by (rule finite_subset [of _ "set (all_symbols K)"]; use assms in \<open>auto simp: store_wf_def\<close>)+

lemma mu_step: "step X K K' \<Longrightarrow> store_wf K \<Longrightarrow> mu K' \<le> mu K"
  unfolding mu_def by (intro add_mono card_mono wf_finite) (auto simp: step_def)

text \<open>A store in which calls with less than \<open>m\<close> to calculate are made.\<close>

definition ready :: "nat \<Rightarrow> kstate \<Rightarrow> bool" where
  "ready m K \<longleftrightarrow> store_wf K \<and> mu K < m"

lemma ready_step: "step X K K' \<Longrightarrow> ready m K \<Longrightarrow> ready m K'"
  using mu_step wf_step by (fastforce simp: ready_def)

section \<open>Every operation returns\<close>

definition runs :: "symref set \<Rightarrow> kstate \<Rightarrow> ('a \<times> kstate) option \<Rightarrow> bool" where
  "runs X K r \<longleftrightarrow> wp r (\<lambda>(x, K'). step X K K')"

lemma runs_Some [simp]: "runs X K (Some (x, K')) \<longleftrightarrow> step X K K'"
  by (simp add: runs_def)

lemma runs_bind:
  assumes "runs X K r" "\<And>x K1. step X K K1 \<Longrightarrow> runs X K1 (f (x, K1))"
  shows "runs X K (Option.bind r f)"
  using assms step_trans by (cases r) (fastforce simp: runs_def wp_iff)+

lemma rbind:
  assumes "ready m K" "runs X K r" "\<And>x K1. step X K K1 \<Longrightarrow> ready m K1 \<Longrightarrow> runs X K1 (f (x, K1))"
  shows "runs X K (Option.bind r f)"
  by (rule runs_bind) (use assms ready_step in blast)+

lemma runs_step: "step X K K1 \<Longrightarrow> runs X K1 r \<Longrightarrow> runs X K r"
  by (auto simp: runs_def wp_iff intro: step_trans)

lemma runs_mono: "runs {} K r \<Longrightarrow> runs X K r"
  by (auto simp: runs_def wp_iff intro: step_mono)

definition calc_safe :: "calc \<Rightarrow> nat \<Rightarrow> bool" where
  "calc_safe calc m \<longleftrightarrow> (\<forall>t K. ready m K \<longrightarrow> runs {} K (calc t K))"

lemma runs_calc: "calc_safe calc m \<Longrightarrow> ready m K \<Longrightarrow> runs X K (calc t K)"
  by (simp add: calc_safe_def runs_mono)

lemma runs_string: "calc_safe calc m \<Longrightarrow> ready m K \<Longrightarrow> runs X K (get_string_value calc s K)"
  unfolding get_string_value_def
  by (auto intro!: rbind [of m] runs_calc [of _ m] split: tristate.split)

lemma runs_expr: "calc_safe calc m \<Longrightarrow> ready m K \<Longrightarrow> runs X K (calc_expr calc e K)"
proof (induction e arbitrary: K)
  case (Ecmp c a b)
  then show ?case
    by (auto intro!: rbind [of m] runs_calc [of _ m] runs_string [of _ m])
qed (auto intro!: rbind [of m] runs_calc [of _ m])

lemma runs_opt: "calc_safe calc m \<Longrightarrow> ready m K \<Longrightarrow> runs X K (calc_opt calc e K)"
  by (cases e) (auto simp: runs_expr)

lemma runs_first_prop:
  "calc_safe calc m \<Longrightarrow> ready m K \<Longrightarrow> runs X K (first_prop calc ty s ps K)"
proof (induction ps arbitrary: K)
  case (Cons ip ps)
  obtain i p where ip: "ip = (i, p)" by (cases ip)
  have rest: "runs X K1 (first_prop calc ty s ps (set_visible_tri s i t K1))" if "ready m K1" for t K1
    by (rule runs_step [OF step_visible_tri Cons.IH [OF Cons.prems(1) ready_step [OF step_visible_tri that]]])
  show ?case
    unfolding ip first_prop.simps
    by (simp split: if_split)
      (intro conjI impI rbind [OF Cons.prems(2) runs_opt [OF Cons.prems]] Cons.IH Cons.prems; simp add: rest)
qed simp

lemma wf_choice_value:
  assumes "store_wf K" "sym_is_choice_value K s"
  shows "\<exists>c. choice_of K s = Some (Some c) \<and> sym_is_choice K c"
proof -
  from assms have "\<exists>c. choice_expr (k_tab K s) = Some (Some (Esym c)) \<and> sym_is_choice K c"
    unfolding sym_is_choice_def store_wf_def symbol_wf_def sym_is_choice_value_def has_flag_def by blast
  then show ?thesis
    by (auto simp: choice_expr_def choice_of_def sym_get_choice_prop_def prop_get_symbol_def)
qed

lemma wf_choice:
  assumes "store_wf K" "sym_is_choice K s"
  obtains p where "sym_get_choice_prop K s = Some p"
    "\<forall>v\<in>set (list_syms (p_expr p)). sym_is_choice_value K v"
proof -
  from assms obtain e where "choice_expr (k_tab K s) = Some e"
    "\<forall>v\<in>set (list_syms e). SYMBOL_CHOICEVAL \<in> s_flags (k_tab K v)"
    unfolding store_wf_def symbol_wf_def sym_is_choice_def has_flag_def by blast
  then show thesis
    using that by (auto simp: choice_expr_def sym_get_choice_prop_def sym_is_choice_value_def has_flag_def)
qed

lemma wf_choice_prop: "store_wf K \<Longrightarrow> sym_is_choice K s \<Longrightarrow> \<exists>p. sym_get_choice_prop K s = Some p"
  using wf_choice by metis

lemma runs_prompts:
  "calc_safe calc m \<Longrightarrow> ready m K \<Longrightarrow> runs X K (calc_prompts calc s c ps t K)"
proof (induction ps arbitrary: t K)
  case (Cons ip ps)
  obtain i p where ip: "ip = (i, p)" by (cases ip)
  have rest: "runs X K1 (calc_prompts calc s c ps t' (set_visible_tri s i t'' K1))" if "ready m K1" for t' t'' K1
    by (rule runs_step [OF step_visible_tri Cons.IH [OF Cons.prems(1) ready_step [OF step_visible_tri that]]])
  show ?case
    unfolding ip calc_prompts.simps
    by (simp split: if_split)
      (intro conjI impI rbind [OF Cons.prems(2) runs_opt [OF Cons.prems]] Cons.IH Cons.prems; simp add: rest Let_def)
qed simp

lemma runs_opt_no: "calc_safe calc m \<Longrightarrow> ready m K \<Longrightarrow> runs X K (calc_opt_no calc e K)"
  by (cases e) (auto simp: calc_opt_no_def runs_expr)

lemma runs_field:
  assumes "tri_field get upd" "s \<in> X" "ready m K" "runs X K (eval K)"
  shows "runs X K (calc_field get upd eval s K)"
  unfolding calc_field_def
  by (rule rbind [OF assms(3,4)]) (simp add: step_update_tri [OF assms(1)] assms(2))

lemma runs_dependencies:
  assumes "calc_safe calc m" "ready m K" "s \<in> X"
  shows "runs X K (calc_dependencies calc s K)"
  unfolding calc_dependencies_def
  by (intro rbind [OF assms(2)] runs_field [of _ _ _ _ m])
    (auto simp: tri_field_def assms intro!: rbind [of m] runs_field [of _ _ _ _ m] runs_opt [OF assms(1)]
      runs_opt_no [OF assms(1)])

lemma runs_visibility:
  assumes c: "calc_safe calc m" and K: "ready m K" and s: "s \<in> X \<or> sym_is_choice_value K s"
  shows "runs X K (sym_calc_visibility calc s K)"
proof -
  obtain ch where ch: "(if sym_is_choice_value K s then choice_of K s else Some None) = Some ch"
    using wf_choice_value [of K s] K by (cases "sym_is_choice_value K s") (auto simp: ready_def)
  have rest: "runs X K1 (finish_visibility calc s t K1)" if st: "step X K K1" and r: "ready m K1" for t K1
  proof -
    define t' where "t' = (if t = tri_mod \<and> (s_type (k_tab K1 s) \<noteq> S_TRISTATE \<or> k_modules_val K1 = tri_no)
      then tri_yes else t)"
    define K2 where "K2 = update_tri s_visible s_visible_update s t' K1"
    have u: "step X K1 K2"
      using s step_choice [OF st] unfolding K2_def by (intro step_update_tri) (auto simp: tri_field_def)
    have "runs X K2 (if sym_is_choice_value K2 s then Some ((), K2) else calc_dependencies calc s K2)"
      using s step_choice [OF st] step_choice [OF u] runs_dependencies [OF c ready_step [OF u r]] by auto
    then have "runs X K1 (if sym_is_choice_value K2 s then Some ((), K2) else calc_dependencies calc s K2)"
      by (rule runs_step [OF u])
    then show ?thesis
      by (simp only: finish_visibility_def Let_def K2_def t'_def)
  qed
  show ?thesis
    unfolding sym_calc_visibility_def ch by (simp, rule rbind [OF K runs_prompts [OF c K]]) (simp add: rest)
qed

section \<open>Choices\<close>

lemma props_set: "snd ` set (props K s) = set (s_prop (k_tab K s))"
  unfolding props_def by (metis list.set_map map_snd_enumerate)

lemma runs_default_choice:
  assumes c: "calc_safe calc m"
    and d: "\<And>i p. (i, p) \<in> set ps \<Longrightarrow> p_type p = P_DEFAULT \<Longrightarrow> \<exists>d. p_expr p = Some (Esym d)"
  shows "ready m K \<Longrightarrow> runs X K (default_choice calc s ps K)"
  using d
proof (induction ps arbitrary: K)
  case (Cons ip ps)
  obtain i p where ip: "ip = (i, p)" by (cases ip)
  have IH: "runs X K1 (default_choice calc s ps K1)" if "ready m K1" for K1
    by (rule Cons.IH [OF that]) (use Cons.prems(2) in auto)
  have rest: "runs X K1 (default_choice calc s ps (set_visible_tri s i t K1))" if "ready m K1" for t K1
    by (rule runs_step [OF step_visible_tri IH [OF ready_step [OF step_visible_tri that]]])
  show ?case
  proof (cases "p_type p = P_DEFAULT")
    case True
    then obtain d where "prop_get_symbol p = Some d"
      using Cons.prems(2) [of i p] by (auto simp: ip prop_get_symbol_def)
    with True show ?thesis
      unfolding ip default_choice.simps
      by simp (rule rbind [OF Cons.prems(1) runs_opt [OF c Cons.prems(1)]], simp add: rest Let_def)
  next
    case False
    with IH [OF Cons.prems(1)] show ?thesis by (simp add: ip)
  qed
qed simp

lemma runs_choice_default:
  assumes "calc_safe calc m" "ready m K" "sym_is_choice K s"
  shows "runs X K (sym_choice_default calc s K)"
  unfolding sym_choice_default_def
proof (rule rbind [OF assms(2) runs_default_choice [OF assms(1) _ assms(2)]])
  fix i p
  assume "(i, p) \<in> set (props K s)" "p_type p = P_DEFAULT"
  moreover from this have "p \<in> set (s_prop (k_tab K s))"
    unfolding props_set [symmetric] by force
  moreover have "SYMBOL_CHOICE \<in> s_flags (k_tab K s)"
    using assms(3) by (simp add: sym_is_choice_def has_flag_def)
  ultimately show "\<exists>d. p_expr p = Some (Esym d)"
    using assms(2) unfolding ready_def store_wf_def symbol_wf_def by blast
next
  fix d K1
  assume st: "step X K K1" and r: "ready m K1"
  obtain p where "sym_get_choice_prop K1 s = Some p"
    using wf_choice_prop [of K1 s] r step_choice(2) [OF st, of s] assms(3) by (auto simp: ready_def)
  then show "runs X K1 (case (d, K1) of (d, K1) \<Rightarrow> (case d of
      None \<Rightarrow> sym_get_choice_prop K1 s \<bind> (\<lambda>prop. Some (find (\<lambda>v. s_visible (k_tab K1 v) \<noteq> tri_no) (list_syms (p_expr prop)), K1))
    | Some def_sym \<Rightarrow> Some (Some def_sym, K1)))"
    by (simp split: option.split)
qed

lemma runs_values:
  assumes c: "calc_safe calc m"
  shows "ready m K \<Longrightarrow> \<forall>v\<in>set vs. sym_is_choice_value K v \<Longrightarrow> runs X K (calc_values calc vs f K)"
proof (induction vs arbitrary: f K)
  case (Cons v vs)
  have vis: "runs X K (sym_calc_visibility calc v K)"
    using Cons.prems by (intro runs_visibility [OF c]) auto
  show ?case
    unfolding calc_values.simps
    by (rule rbind [OF Cons.prems(1) vis]) (use Cons.prems(2) Cons.IH step_choice in \<open>auto split: if_split\<close>)
qed simp

lemma runs_default_of:
  assumes "calc_safe calc m" "ready m K" "sym_is_choice K s" "s \<in> X"
  shows "runs X K (calc_default_of calc s K)"
  unfolding calc_default_of_def
  by (rule rbind [OF assms(2) runs_choice_default [OF assms(1-3)]]) (simp add: step_curr(3) [OF assms(4)])

lemma runs_pick:
  assumes "calc_safe calc m" "ready m K" "sym_is_choice K s" "s \<in> X"
  shows "runs X K (pick_choice calc s K)"
  using runs_default_of [OF assms] by (simp add: pick_choice_def split: cval.split)

lemma runs_calc_choice:
  assumes c: "calc_safe calc m" and K: "ready m K" and s: "sym_is_choice K s" "s \<in> X"
  shows "runs X K (sym_calc_choice calc s K)"
proof -
  obtain p where p: "sym_get_choice_prop K s = Some p" "\<forall>v\<in>set (list_syms (p_expr p)). sym_is_choice_value K v"
    using wf_choice [of K s] K s by (auto simp: ready_def)
  have pick: "runs X K1 (pick_choice calc s (if f then K1 else clear_flag SYMBOL_DEF_USER s K1))"
    if st: "step X K K1" and r: "ready m K1" for f K1
  proof -
    have t: "step X K1 (if f then K1 else clear_flag SYMBOL_DEF_USER s K1)" (is "step X K1 ?K2")
      using s by (auto intro: step_user_flag)
    have "sym_is_choice ?K2 s" using step_choice(2) [OF t] step_choice(2) [OF st] s by simp
    from runs_step [OF t runs_pick [OF c ready_step [OF t r] this s(2)]] show ?thesis .
  qed
  show ?thesis
    unfolding sym_calc_choice_def p by (simp, rule rbind [OF K runs_values [OF c K p(2)]]) (simp add: pick)
qed

section \<open>\<open>sym_calc_value\<close>\<close>

lemma runs_choice_first:
  assumes c: "calc_safe calc m" and K: "store_wf K" "mu K \<le> m"
  shows "runs X K (calc_choice_first calc s K)"
proof (cases "sym_is_choice_value K s \<and> has_flag SYMBOL_NEED_SET_CHOICE_VALUES s K")
  case True
  define K1 where "K1 = clear_flag SYMBOL_NEED_SET_CHOICE_VALUES s K"
  have st: "step X K K1" unfolding K1_def by (rule step_clear_flag) simp
  have "{t. has_flag SYMBOL_NEED_SET_CHOICE_VALUES t K1} =
      {t. has_flag SYMBOL_NEED_SET_CHOICE_VALUES t K} - {s}"
    "{t. \<not> has_flag SYMBOL_VALID t K1} = {t. \<not> has_flag SYMBOL_VALID t K}"
    by (auto simp: K1_def)
  then have "mu K1 < mu K"
    using True card_Diff1_less [OF wf_finite(2) [OF K(1)], of s] unfolding mu_def by simp
  with K wf_step [OF st] have r: "ready m K1" by (simp add: ready_def)
  obtain ch where "choice_of K1 s = Some (Some ch)"
    using wf_choice_value [of K1 s] r step_choice [OF st] True by (auto simp: ready_def)
  with True runs_step [OF st runs_calc [OF c r]] show ?thesis
    by (simp add: calc_choice_first_def K1_def [symmetric])
qed (auto simp: calc_choice_first_def)

lemma runs_default_value:
  assumes c: "calc_safe calc m" and K: "ready m K"
  shows "runs X K (default_tri calc s K)"
proof -
  have "runs X K1 (do { (v, K2) \<leftarrow> calc_opt calc e K1;
         let t = EXPR_AND v u;
         Some (t, if t \<noteq> tri_no then set_flag SYMBOL_WRITE s K2 else K2) })" if "ready m K1" for e u K1
    by (rule rbind [OF that runs_opt [OF c that]]) (simp add: Let_def step_set_flag)
  then show ?thesis
    unfolding default_tri_def sym_get_default_prop_def
    by (intro rbind [OF K runs_first_prop [OF c K]]) (simp split: option.split)
qed

lemma runs_default_tri:
  assumes c: "calc_safe calc m" and K: "ready m K"
  shows "runs X K (calc_default_tri calc s K)"
proof -
  define K0 where "K0 = (if s_rev_tri (k_tab K s) \<noteq> tri_no then set_flag SYMBOL_WRITE s K else K)"
  have st: "step X K K0" by (simp add: K0_def step_set_flag)
  note r = ready_step [OF st K]
  have "runs X K0 (do { (t, K1) \<leftarrow> default_tri calc s K0; Some (add_implied s t K1) })"
    by (rule rbind [OF r runs_default_value [OF c r]]) (simp add: add_implied_def step_set_flag)
  from runs_step [OF st this] st show ?thesis
    by (simp add: calc_default_tri_def Let_def K0_def [symmetric])
qed

lemma runs_tristate:
  assumes c: "calc_safe calc m" and K: "ready m K"
  shows "runs X K (calc_tristate calc s K)"
proof -
  have "runs X K (do { (t, K1) \<leftarrow> calc_default_tri calc s K; Some (fix_mod K1 s (apply_select K1 s t), K1) })"
    by (rule rbind [OF K runs_default_tri [OF c K]]) simp
  moreover have "\<exists>ch. choice_of K s = Some (Some ch)" if "sym_is_choice_value K s"
    using wf_choice_value [OF _ that] K unfolding ready_def by blast
  ultimately show ?thesis
    by (auto simp: calc_tristate_def Let_def)
qed

lemma runs_string_value:
  assumes c: "calc_safe calc m" and K: "ready m K"
  shows "runs X K (calc_string calc s d K)"
proof -
  have call: "runs X K1 (do { (_, K2) \<leftarrow> calc ds (set_flag SYMBOL_WRITE s K1);
      Some (sv_val (s_curr (k_tab K2 ds)), K2) })" if "ready m K1" for ds K1
  proof -
    have st: "step X K1 (set_flag SYMBOL_WRITE s K1)" by (simp add: step_set_flag)
    note r = ready_step [OF st that]
    show ?thesis
      by (rule runs_step [OF st], rule rbind [OF r runs_calc [OF c r]]) simp
  qed
  have "runs X K (do {
        (p, K1) \<leftarrow> sym_get_default_prop calc s K;
        case p of None \<Rightarrow> Some (d, K1)
        | Some prop \<Rightarrow>
            (case prop_get_symbol prop of None \<Rightarrow> Some (d, K1)
             | Some ds \<Rightarrow> do {
                 (_, K2) \<leftarrow> calc ds (set_flag SYMBOL_WRITE s K1);
                 Some (sv_val (s_curr (k_tab K2 ds)), K2) }) })"
    unfolding sym_get_default_prop_def
    by (rule rbind [OF K runs_first_prop [OF c K]]) (simp add: call split: option.split)
  then show ?thesis by (simp add: calc_string_def)
qed

lemma runs_new_value:
  assumes "calc_safe calc m" "ready m K" "s \<in> X"
  shows "runs X K (calc_new_value calc s v K)"
proof -
  have "runs X K (do { (t, K1) \<leftarrow> calc_tristate calc s K; Some ((), set_curr s (v\<lparr>sv_tri := t\<rparr>) K1) })"
    by (rule rbind [OF assms(2) runs_tristate [OF assms(1,2)]]) (simp add: step_curr assms)
  moreover have "runs X K (do { (u, K1) \<leftarrow> calc_string calc s (sv_val v) K;
      Some ((), set_curr s (v\<lparr>sv_val := u\<rparr>) K1) })"
    by (rule rbind [OF assms(2) runs_string_value [OF assms(1,2)]]) (simp add: step_curr assms)
  ultimately show ?thesis by (simp add: calc_new_value_def Let_def)
qed

lemma runs_choice_value:
  assumes "calc_safe calc m" "ready m K" "s \<in> X"
  shows "runs X K (calc_choice_value calc s K)"
proof -
  have "runs X K (do { (d, K1) \<leftarrow> sym_calc_choice calc s K;
      Some ((), set_curr_val s (case d of Some v \<Rightarrow> CSym v | None \<Rightarrow> CNull) K1) })" if "sym_is_choice K s"
    by (rule rbind [OF assms(2) runs_calc_choice [OF assms(1,2) that assms(3)]]) (simp add: step_curr assms)
  then show ?thesis by (simp add: calc_choice_value_def)
qed

lemma runs_range_val:
  assumes "calc_safe calc m" "ready m K"
  shows "runs X K (sym_get_range_val calc s b K)"
  unfolding sym_get_range_val_def by (rule rbind [OF assms(2) runs_calc [OF assms]]) simp

lemma first_prop_range:
  "first_prop calc ty s ps K = Some (Some p, K') \<Longrightarrow> \<exists>q\<in>snd ` set ps. p_type q = ty \<and> p_expr p = p_expr q"
proof (induction ps arbitrary: K)
  case (Cons ip ps)
  obtain i q where ip: "ip = (i, q)" by (cases ip)
  from Cons.prems have "(p_type q = ty \<and> p_expr p = p_expr q) \<or> (\<exists>K1. first_prop calc ty s ps K1 = Some (Some p, K'))"
    by (auto simp: ip split: if_splits Option.bind_splits)
  with Cons.IH show ?case by (auto simp: ip)
qed simp

lemma runs_clamp:
  assumes c: "calc_safe calc m" and K: "ready m K" and s: "s \<in> X"
  shows "runs X K (clamp_range calc s ty lo hi K)"
proof -
  let ?v = "fst (strtoll (cstr (sv_val (s_curr (k_tab K s)))) (range_base ty 0))"
  have hi: "runs X K2 (do {
           (val3, K3) \<leftarrow> sym_get_range_val calc hi (range_base ty 0) K2;
           Some ((), if ?v \<le> val3 then K3 else set_curr_val s (CStr (show_bound ty val3)) K3) })"
    if "ready m K2" for K2
    by (rule rbind [OF that runs_range_val [OF c that]]) (simp add: step_curr s)
  show ?thesis
    unfolding clamp_range_def Let_def
    by (rule rbind [OF K runs_range_val [OF c K]]) (simp add: hi step_curr s)
qed

lemma runs_validate:
  assumes c: "calc_safe calc m" and K: "ready m K" and s: "s \<in> X"
  shows "runs X K (sym_validate_range calc s K)"
proof -
  obtain p K1 where g: "sym_get_range_prop calc s K = Some (p, K1)" "step X K K1"
    using runs_first_prop [OF c K, of X P_RANGE s "props K s"]
    by (auto simp: runs_def wp_iff sym_get_range_prop_def)
  note r = ready_step [OF g(2) K]
  have "\<exists>lo hi. p_expr q = Some (Erange lo hi)" if "p = Some q" for q
  proof -
    from g(1) that obtain q' where q': "q' \<in> set (s_prop (k_tab K s))" "p_type q' = P_RANGE"
      "p_expr q = p_expr q'"
      unfolding sym_get_range_prop_def using first_prop_range props_set by blast
    with K show ?thesis unfolding ready_def store_wf_def symbol_wf_def by metis
  qed
  then have "p = None \<or> (\<exists>q lo hi. p = Some q \<and> p_expr q = Some (Erange lo hi))" by (cases p) auto
  then show ?thesis
    using g runs_step [OF g(2) runs_clamp [OF c r s]]
    by (auto simp: sym_validate_range_def Let_def)
qed

lemma step_note_change: "step X K (note_change s v K)"
proof -
  have "step X K (sym_set_all_changed (sym_set_changed s K))"
    by (rule step_trans [of X K "sym_set_changed s K"]) simp_all
  then show ?thesis by (simp add: note_change_def Let_def)
qed

lemma runs_touch:
  assumes "store_wf K" "sym_is_choice K s"
  shows "runs X K (touch_values s K)"
proof -
  obtain p where p: "sym_get_choice_prop K s = Some p" using wf_choice_prop [OF assms] by blast
  have "step X K1 (let K2 = (if has_flag SYMBOL_WRITE s K1 \<and> s_visible (k_tab K1 v) \<noteq> tri_no
                   then set_flag SYMBOL_WRITE v K1 else K1)
         in if has_flag SYMBOL_CHANGED s K2 then sym_set_changed v K2 else K2)" for v K1
    by (auto simp: Let_def step_set_flag intro: step_trans [OF step_set_flag step_changed])
  then show ?thesis
    by (simp add: touch_values_def p step_fold)
qed

lemma step_def_user:
  "sym_is_choice_value K v \<Longrightarrow> step X K (upd_sym v (\<lambda>r. r\<lparr>s_def_user := g r\<rparr>) K)"
  by (rule step_upd) (auto simp: static_def kept_def has_flag_def sym_is_choice_value_def)

lemma step_set_user: "s \<in> X \<Longrightarrow> step X K (set_flag SYMBOL_DEF_USER s K)"
  unfolding set_flag_def
  by (rule step_upd) (auto simp: static_flag dynamic_flags_def has_flag_def)

lemma step_reset:
  assumes "step {s} K K'" "\<not> has_flag SYMBOL_VALID s K"
  shows "step {} K (clear_flag SYMBOL_NEED_SET_CHOICE_VALUES s (clear_flag SYMBOL_VALID s K'))"
proof -
  have st: "static (k_tab (clear_flag fl s K1) t) = static (k_tab K1 t)" if "fl \<in> dynamic_flags" for fl K1 t
    using static_flag(2) [OF that] by (simp add: clear_flag_def k_tab_upd)
  have ne: "t \<noteq> s" if "has_flag SYMBOL_VALID t K" for t
    using that assms(2) by auto
  have c: "t \<noteq> s \<Longrightarrow> k_tab (clear_flag fl s K1) t = k_tab K1 t" for fl K1 t
    by (simp add: clear_flag_def k_tab_upd)
  have "k_nsyms (clear_flag fl s K1) = k_nsyms K1 \<and> k_hash (clear_flag fl s K1) = k_hash K1 \<and>
      k_modules_sym (clear_flag fl s K1) = k_modules_sym K1" for fl K1
    by (simp add: clear_flag_def)
  with assms show ?thesis
    by (auto simp: step_def st dynamic_flags_def c ne)
qed

lemma step_fold_values:
  assumes "\<forall>v\<in>set vs. sym_is_choice_value K v"
  shows "step X K (fold (\<lambda>v K. if sym_has_value K v then K
         else upd_sym v (\<lambda>r. r\<lparr>s_def_user := (s_def_user r)\<lparr>sv_tri := tri_no\<rparr>\<rparr>) K) vs K)"
  using assms
proof (induction vs arbitrary: K)
  case (Cons v vs)
  let ?K1 = "if sym_has_value K v then K
    else upd_sym v (\<lambda>r. r\<lparr>s_def_user := (s_def_user r)\<lparr>sv_tri := tri_no\<rparr>\<rparr>) K"
  have st: "step X K ?K1" using Cons.prems step_def_user by simp
  with Cons.prems have "\<forall>w\<in>set vs. sym_is_choice_value ?K1 w"
    using step_choice(1) [OF st] by simp
  from step_trans [OF st Cons.IH [OF this]] show ?case by simp
qed simp

lemma wf_choice_list:
  assumes "store_wf K" "sym_is_choice K s \<or> sym_is_choice_value K s"
  shows "\<exists>p. sym_get_choice_prop K s = Some p \<and> (\<forall>v\<in>set (list_syms (p_expr p)). sym_is_choice_value K v)"
proof (cases "sym_is_choice K s")
  case True
  with wf_choice [OF assms(1)] show ?thesis by metis
next
  case False
  with assms(2) have "sym_is_choice_value K s" by simp
  then obtain c where "choice_of K s = Some (Some c)" using wf_choice_value [OF assms(1)] by blast
  then show ?thesis
    by (auto simp: choice_of_def prop_get_symbol_def split: option.splits expr.splits)
qed

lemma runs_set_all:
  assumes K: "store_wf K" "has_flag SYMBOL_NEED_SET_CHOICE_VALUES s K"
    and K0: "step {s} K0 K" "\<not> has_flag SYMBOL_VALID s K0"
  shows "runs {} K0 (set_all_choice_values s K)"
proof -
  have "sym_is_choice K s \<or> sym_is_choice_value K s" using K unfolding store_wf_def by blast
  from wf_choice_list [OF K(1) this] obtain p where p: "sym_get_choice_prop K s = Some p"
    "\<forall>v\<in>set (list_syms (p_expr p)). sym_is_choice_value K v" by blast
  from step_trans [OF step_trans [OF K0(1) step_fold_values [OF p(2)]] step_set_user]
  show ?thesis
    by (simp add: set_all_choice_values_def p step_reset [OF _ K0(2)])
qed

lemma runs_finish:
  assumes K: "store_wf K" and K0: "step {s} K0 K" "\<not> has_flag SYMBOL_VALID s K0"
    and v: "has_flag SYMBOL_VALID s K" "value_ok (k_tab K s)"
  shows "runs {} K0 (calc_finish s v K)"
proof -
  have n: "step {} K (note_change s v K)" by (rule step_note_change)
  have w: "store_wf (note_change s v K)" by (rule wf_step [OF n K])
  have "runs {} (note_change s v K) (if sym_is_choice K s then touch_values s (note_change s v K)
                  else Some ((), note_change s v K))"
    using runs_touch [OF w] step_choice(2) [OF n] by simp
  then obtain u K1 where K1: "(if sym_is_choice K s then touch_values s (note_change s v K)
      else Some ((), note_change s v K)) = Some (u, K1)" "step {} (note_change s v K) K1"
    by (auto simp: runs_def wp_iff)
  define K2 where "K2 = (if has_flag SYMBOL_AUTO s K1 then clear_flag SYMBOL_WRITE s K1 else K1)"
  have s2: "step {} K1 K2" by (simp add: K2_def step_clear_flag)
  have k2: "step {} K K2" by (rule step_trans [OF step_trans [OF n K1(2)] s2])
  have t: "step {s} K0 K2" by (rule step_trans [OF K0(1) step_mono [OF k2]]) simp
  have "value_ok (k_tab K2 s)" using step_value_ok [OF k2 v(1) _ v(2)] by simp
  with runs_set_all [OF wf_step [OF k2 K] _ t K0(2)] step_closed [OF t K0(2)] show ?thesis
    by (simp add: calc_finish_def K1(1) Let_def K2_def [symmetric])
qed

lemma fix_mod_bounds:
  "t \<le> fix_mod K s t" "fix_mod K s t = t \<or> (t = tri_mod \<and> fix_mod K s t = tri_yes)"
  "s_impl_tri (k_tab K s) = tri_yes \<Longrightarrow> fix_mod K s t \<noteq> tri_mod"
  "s_type (k_tab K s) = S_BOOLEAN \<Longrightarrow> fix_mod K s t \<noteq> tri_mod"
  by (auto simp: fix_mod_def sym_get_type_def)

text \<open>The value that \<open>calc_tristate\<close> computes is right for the symbol.\<close>

lemma set_flag_fields [simp]:
  "s_impl_tri (k_tab (set_flag fl s K) t) = s_impl_tri (k_tab K t)"
  "sym_is_choice (set_flag SYMBOL_WRITE s K) t = sym_is_choice K t"
  by (simp_all add: set_flag_def k_tab_upd sym_is_choice_def has_flag_def)

lemma default_implied:
  assumes "calc_default_tri calc s K = Some (t, K')" "\<not> sym_is_choice K s"
  shows "s_impl_tri (k_tab K' s) \<le> t"
proof -
  define K0 where "K0 = (if s_rev_tri (k_tab K s) \<noteq> tri_no then set_flag SYMBOL_WRITE s K else K)"
  have "\<not> sym_is_choice K0 s" using assms(2) by (simp add: K0_def)
  with assms(1) have "default_tri calc s K0 \<bind> (\<lambda>(u, K2). Some (add_implied s u K2)) = Some (t, K')"
    by (simp add: calc_default_tri_def Let_def K0_def [symmetric])
  then obtain u K2 where "add_implied s u K2 = (t, K')"
    by (cases "default_tri calc s K0") auto
  then show ?thesis by (auto simp: add_implied_def EXPR_OR_max split: if_splits)
qed

lemma tristate_fix: "calc_tristate calc s K = Some (t, K') \<Longrightarrow> \<exists>u. t = fix_mod K' s u"
  by (auto simp: calc_tristate_def Let_def bind_eq_Some_conv split: if_split_asm option.split_asm)

lemma tristate_ok:
  assumes c: "calc_safe calc m" and K: "ready m K" and vl: "has_flag SYMBOL_VALID s K"
    and ty: "s_type (k_tab K s) = S_BOOLEAN \<or> s_type (k_tab K s) = S_TRISTATE"
    and ch: "\<not> sym_is_choice K s"
    and r: "calc_tristate calc s K = Some (t, K')"
  shows "value_ok ((k_tab K' s)\<lparr>s_curr := v\<lparr>sv_tri := t\<rparr>\<rparr>)"
proof -
  have st: "step {} K K'" using runs_tristate [OF c K, of "{}" s] r by (simp add: runs_def)
  have ty': "s_type (k_tab K' s) = s_type (k_tab K s)"
    using st static_fields(1) [of "k_tab K' s" "k_tab K s"] by (simp add: step_def)
  obtain u0 where "t = fix_mod K' s u0" using tristate_fix [OF r] by blast
  then have "t \<noteq> tri_mod" if "s_type (k_tab K' s) = S_BOOLEAN"
    using fix_mod_bounds(4) [OF that] by simp
  moreover have "tri_ok ((k_tab K' s)\<lparr>s_curr := v\<lparr>sv_tri := t\<rparr>\<rparr>)"
    if "\<not> sym_is_choice_value K s"
  proof (cases "s_visible (k_tab K s) \<noteq> tri_no \<and> sym_has_value K s")
    case True
    with r that have "K' = K" "t = fix_mod K s (user_value (k_tab K s))"
      by (auto simp: calc_tristate_def Let_def apply_select_def user_value_def EXPR_AND_min EXPR_OR_max)
    with True fix_mod_bounds [where t = "user_value (k_tab K s)" and K = K and s = s] show ?thesis
      by (auto simp: tri_ok_def Let_def user_value_def sym_has_value_def has_flag_def)
  next
    case False
    with r that obtain u where u: "calc_default_tri calc s K = Some (u, K')"
      "t = fix_mod K' s (max u (s_rev_tri (k_tab K' s)))"
      by (auto simp: calc_tristate_def apply_select_def EXPR_OR_max bind_eq_Some_conv)
    have "kept (k_tab K s) (k_tab K' s)" using st vl by (simp add: step_def)
    then have "core (k_tab K' s) = core (k_tab K s)"
      using ch that by (auto simp: kept_def sym_is_choice_def sym_is_choice_value_def has_flag_def)
    with False have "\<not> (s_visible (k_tab K' s) \<noteq> tri_no \<and> SYMBOL_DEF_USER \<in> s_flags (k_tab K' s))"
      by (simp add: core_def sym_has_value_def has_flag_def)
    with u default_implied [OF u(1) ch] fix_mod_bounds [where t = "max u (s_rev_tri (k_tab K' s))" and K = K' and s = s]
    show ?thesis by (auto simp: tri_ok_def Let_def intro: max.coboundedI1)
  qed
  ultimately show ?thesis
    using ty ty' step_choice [OF st, of s]
    by (auto simp: value_ok_def sym_is_choice_value_def has_flag_def)
qed

lemma runs_body:
  assumes c: "calc_safe calc m" and K: "store_wf K" "mu K \<le> m"
  shows "runs {} K (calc_body calc s K)"
proof (cases "has_flag SYMBOL_VALID s K")
  case True
  then show ?thesis by (simp add: calc_body_def)
next
  case inv: False
  obtain u K1 where K1: "calc_choice_first calc s K = Some (u, K1)" "step {} K K1"
    using runs_choice_first [OF c K, of "{}" s] by (auto simp: runs_def wp_iff)
  define K2 where "K2 = set_flag SYMBOL_VALID s K1"
  define r where "r = k_tab K2 s"
  define v where "v = s_curr (k_tab K2 (if s_type r = S_BOOLEAN \<or> s_type r = S_TRISTATE
    then symbol_no else symbol_empty))"
  have s2: "step {s} K K2"
    using step_trans [OF step_mono [OF K1(2)] step_set_valid] by (simp add: K2_def)
  have w2: "store_wf K2" by (rule wf_step [OF s2 K(1)])
  have "{t. \<not> has_flag SYMBOL_VALID t K2} \<subset> {t. \<not> has_flag SYMBOL_VALID t K}"
    using inv s2 by (auto simp: K2_def step_def)
  then have "card {t. \<not> has_flag SYMBOL_VALID t K2} < card {t. \<not> has_flag SYMBOL_VALID t K}"
    using wf_finite(1) [OF K(1)] by (rule psubset_card_mono [rotated])
  moreover have "card {t. has_flag SYMBOL_NEED_SET_CHOICE_VALUES t K2}
      \<le> card {t. has_flag SYMBOL_NEED_SET_CHOICE_VALUES t K}"
    using s2 wf_finite(2) [OF K(1)] by (intro card_mono) (auto simp: step_def)
  ultimately have r2: "ready m K2" using w2 K(2) by (simp add: ready_def mu_def)
  define K2' where "K2' = clear_flag SYMBOL_WRITE s K2"
  have s2': "step {s} K2 K2'" by (simp add: K2'_def step_clear_flag)
  note r2' = ready_step [OF s2' r2]
  obtain u3 K3 where K3: "sym_calc_visibility calc s K2' = Some (u3, K3)" "step {s} K2' K3"
    using runs_visibility [OF c r2', of s "{s}"] by (auto simp: runs_def wp_iff)
  define K4 where "K4 = set_curr s v (if s_visible (k_tab K3 s) \<noteq> tri_no then set_flag SYMBOL_WRITE s K3 else K3)"
  have s4: "step {s} K3 K4"
    unfolding K4_def by (rule step_trans [OF _ step_curr(1)]) (auto simp: step_set_flag)
  note r4 = ready_step [OF s4 ready_step [OF K3(2) r2']]
  obtain u5 K5 where K5: "calc_new_value calc s v K4 = Some (u5, K5)" "step {s} K4 K5"
    using runs_new_value [OF c r4, of s "{s}" v] by (auto simp: runs_def wp_iff)
  note r5 = ready_step [OF K5(2) r4]
  obtain u6 K6 where K6: "calc_choice_value calc s K5 = Some (u6, K6)" "step {s} K5 K6"
    using runs_choice_value [OF c r5, of s "{s}"] by (auto simp: runs_def wp_iff)
  note r6 = ready_step [OF K6(2) r5]
  obtain u7 K7 where K7: "sym_validate_range calc s K6 = Some (u7, K7)" "step {s} K6 K7"
    using runs_validate [OF c r6, of s "{s}"] by (auto simp: runs_def wp_iff)
  have t72: "step {s} K2 K7"
    using s2' K3(2) s4 K5(2) K6(2) K7(2) by (meson step_trans)
  have t7: "step {s} K K7" by (rule step_trans [OF s2 t72])
  have v2: "has_flag SYMBOL_VALID s K2" by (simp add: K2_def)
  have v4: "has_flag SYMBOL_VALID s K4" and v7: "has_flag SYMBOL_VALID s K7"
    using v2 t72 s2' K3(2) s4 by (auto simp: step_def)
  have ty: "s_type (k_tab K4 s) = s_type r" "s_type (k_tab K5 s) = s_type r" "s_type (k_tab K6 s) = s_type r"
    "s_type (k_tab K7 s) = s_type r"
    using s2' K3(2) s4 K5(2) K6(2) K7(2) static_fields(1) unfolding r_def step_def by metis+
  have ch: "sym_is_choice K5 s = sym_is_choice K4 s" "sym_is_choice K7 s = sym_is_choice K4 s"
    using step_choice K5(2) K6(2) K7(2) by metis+
  have ok7: "value_ok (k_tab K7 s)" if u: "s_type r \<noteq> S_UNKNOWN" "s_type r \<noteq> S_OTHER"
  proof (cases "(s_type r = S_BOOLEAN \<or> s_type r = S_TRISTATE) \<and> \<not> sym_is_choice K4 s")
    case True
    then have "K7 = K5"
      using K6(1) K7(1) ty ch by (auto simp: calc_choice_value_def sym_validate_range_def)
    moreover from True ty have "sym_get_type K4 s = S_BOOLEAN \<or> sym_get_type K4 s = S_TRISTATE"
      by (auto simp: sym_get_type_def)
    then obtain t K' where "calc_tristate calc s K4 = Some (t, K')" "K5 = set_curr s (v\<lparr>sv_tri := t\<rparr>) K'"
      using K5(1) by (auto simp: calc_new_value_def Let_def bind_eq_Some_conv)
    moreover from this tristate_ok [OF c r4 v4 _ _ this(1), of v] True ty
    have "value_ok (k_tab K5 s)" by (simp add: set_curr_def k_tab_upd)
    ultimately show ?thesis by simp
  next
    case False
    with u ty ch show ?thesis by (auto simp: value_ok_def sym_is_choice_def has_flag_def)
  qed
  have fin: "runs {} K (calc_finish s w K7)" if "s_type r \<noteq> S_UNKNOWN" "s_type r \<noteq> S_OTHER" for w
    by (rule runs_finish [OF _ t7 inv v7 ok7 [OF that]]) (rule wf_step [OF t7 K(1)])
  have "runs {} K (Some ((), set_curr s \<lparr>sv_val = (case s_name r of Some n \<Rightarrow> CStr n | None \<Rightarrow> CNull),
      sv_tri = tri_no\<rparr> K2))" if "s_type r = S_UNKNOWN \<or> s_type r = S_OTHER"
    using that step_closed [OF step_trans [OF s2 step_curr(1)] inv]
    by (auto simp: value_ok_def set_curr_def k_tab_upd r_def)
  then show ?thesis
    using inv K1(1) K3(1) K5(1) K6(1) K7(1) fin [of "s_curr r"]
    by (simp add: calc_body_def Let_def K2_def [symmetric] r_def [symmetric] K2'_def [symmetric] v_def [symmetric]
        K4_def [symmetric])
qed

lemma calc_value_safe: "calc_safe (sym_calc_value n) n"
proof (induction n)
  case 0
  then show ?case by (simp add: calc_safe_def ready_def)
next
  case (Suc n)
  then show ?case
    by (auto simp: calc_safe_def [of _ "Suc n"] ready_def intro!: runs_body)
qed

lemma calc_value_returns:
  assumes "store_wf K" "mu K < n"
  shows "\<exists>K'. sym_calc_value n s K = Some ((), K') \<and> step {} K K'"
  using calc_value_safe [of n] assms by (auto simp: calc_safe_def ready_def runs_def wp_iff)

end
