(* ===== verification/Symbol_Fuel.thy ===== *)
theory Symbol_Fuel
  imports Symbol_Total
begin

text \<open>
  The bound on the recursion of \<open>sym_calc_value\<close> does not influence its result: with
  a larger bound a calculation that returned returns the same store.
\<close>

definition leads :: "'a option \<Rightarrow> 'a option \<Rightarrow> bool" where
  "leads r r' \<longleftrightarrow> (\<forall>x. r = Some x \<longrightarrow> r' = Some x)"

lemma leads_refl [simp, intro!]: "leads r r"
  by (simp add: leads_def)

lemma leads_bind:
  assumes "leads r r'" "\<And>x K. leads (f (x, K)) (g (x, K))"
  shows "leads (Option.bind r f) (Option.bind r' g)"
  using assms by (cases r; cases r') (auto simp: leads_def)

definition extends :: "calc \<Rightarrow> calc \<Rightarrow> bool" where
  "extends c c' \<longleftrightarrow> (\<forall>s K. leads (c s K) (c' s K))"

lemma leads_calc: "extends c c' \<Longrightarrow> leads (c s K) (c' s K)"
  by (simp add: extends_def)

lemma leads_string: "extends c c' \<Longrightarrow> leads (get_string_value c s K) (get_string_value c' s K)"
  unfolding get_string_value_def by (auto intro!: leads_bind leads_calc split: tristate.split)

lemma leads_expr: "extends c c' \<Longrightarrow> leads (calc_expr c e K) (calc_expr c' e K)"
  by (induction e arbitrary: K) (auto intro!: leads_bind leads_calc leads_string)

lemma leads_opt: "extends c c' \<Longrightarrow> leads (calc_opt c e K) (calc_opt c' e K)"
  "extends c c' \<Longrightarrow> leads (calc_opt_no c e K) (calc_opt_no c' e K)"
  by (cases e; auto simp: leads_expr calc_opt_no_def)+

lemma leads_first_prop: "extends c c' \<Longrightarrow> leads (first_prop c ty s ps K) (first_prop c' ty s ps K)"
  by (induction ps arbitrary: K) (auto intro!: leads_bind leads_opt)

lemma leads_prompts: "extends c c' \<Longrightarrow> leads (calc_prompts c s ch ps t K) (calc_prompts c' s ch ps t K)"
  by (induction ps arbitrary: t K) (auto intro!: leads_bind leads_opt simp: Let_def)

lemma leads_field:
  "(\<And>K. leads (ev K) (ev' K)) \<Longrightarrow> leads (calc_field g u ev s K) (calc_field g u ev' s K)"
  unfolding calc_field_def by (auto intro!: leads_bind)

lemma leads_dependencies: "extends c c' \<Longrightarrow> leads (calc_dependencies c s K) (calc_dependencies c' s K)"
  unfolding calc_dependencies_def by (auto intro!: leads_bind leads_field leads_opt)

lemma leads_bind0: "(\<And>x. leads (f x) (g x)) \<Longrightarrow> leads (Option.bind r f) (Option.bind r g)"
  by (cases r) auto

lemma leads_visibility: "extends c c' \<Longrightarrow> leads (sym_calc_visibility c s K) (sym_calc_visibility c' s K)"
  unfolding sym_calc_visibility_def finish_visibility_def Let_def
  by (auto intro!: leads_bind0 leads_bind leads_prompts leads_dependencies)

lemma leads_default_choice:
  "extends c c' \<Longrightarrow> leads (default_choice c s ps K) (default_choice c' s ps K)"
  by (induction ps arbitrary: K) (auto intro!: leads_bind leads_opt simp: Let_def split: option.split)

lemma leads_default_of: "extends c c' \<Longrightarrow> leads (calc_default_of c s K) (calc_default_of c' s K)"
  unfolding calc_default_of_def sym_choice_default_def
  by (auto intro!: leads_bind leads_default_choice)

lemma leads_values: "extends c c' \<Longrightarrow> leads (calc_values c vs f K) (calc_values c' vs f K)"
  by (induction vs arbitrary: f K) (auto intro!: leads_bind leads_visibility)

lemma leads_choice: "extends c c' \<Longrightarrow> leads (sym_calc_choice c s K) (sym_calc_choice c' s K)"
  unfolding sym_calc_choice_def pick_choice_def
  by (auto intro!: leads_bind0 leads_bind leads_values leads_default_of split: cval.split)

lemma leads_range_val: "extends c c' \<Longrightarrow> leads (sym_get_range_val c s b K) (sym_get_range_val c' s b K)"
  unfolding sym_get_range_val_def by (auto intro!: leads_bind leads_calc)

lemma leads_clamp: "extends c c' \<Longrightarrow> leads (clamp_range c s ty lo hi K) (clamp_range c' s ty lo hi K)"
  unfolding clamp_range_def Let_def by (auto intro!: leads_bind leads_range_val)

lemma leads_validate: "extends c c' \<Longrightarrow> leads (sym_validate_range c s K) (sym_validate_range c' s K)"
  unfolding sym_validate_range_def sym_get_range_prop_def Let_def
  by (auto intro!: leads_bind leads_first_prop leads_clamp split: option.split expr.split)

lemma leads_default_tri: "extends c c' \<Longrightarrow> leads (default_tri c s K) (default_tri c' s K)"
  unfolding default_tri_def sym_get_default_prop_def
  by (auto intro!: leads_bind leads_first_prop leads_opt split: option.split)

lemma leads_tristate: "extends c c' \<Longrightarrow> leads (calc_tristate c s K) (calc_tristate c' s K)"
  unfolding calc_tristate_def calc_default_tri_def Let_def
  by (auto intro!: leads_bind leads_default_tri split: option.split)

lemma leads_calc_string: "extends c c' \<Longrightarrow> leads (calc_string c s d K) (calc_string c' s d K)"
  unfolding calc_string_def sym_get_default_prop_def
  by (auto intro!: leads_bind leads_first_prop leads_calc split: option.split)

lemma leads_new_value: "extends c c' \<Longrightarrow> leads (calc_new_value c s v K) (calc_new_value c' s v K)"
  unfolding calc_new_value_def Let_def by (auto intro!: leads_bind leads_tristate leads_calc_string)

lemma leads_choice_value: "extends c c' \<Longrightarrow> leads (calc_choice_value c s K) (calc_choice_value c' s K)"
  unfolding calc_choice_value_def by (auto intro!: leads_bind leads_choice)

lemma leads_choice_first: "extends c c' \<Longrightarrow> leads (calc_choice_first c s K) (calc_choice_first c' s K)"
  unfolding calc_choice_first_def Let_def by (auto intro!: leads_calc split: option.split)

lemma leads_body: "extends c c' \<Longrightarrow> leads (calc_body c s K) (calc_body c' s K)"
  unfolding calc_body_def Let_def
  by (auto intro!: leads_bind leads_choice_first leads_visibility leads_new_value leads_choice_value leads_validate)

lemma calc_value_extends: "extends (sym_calc_value n) (sym_calc_value (n + k))"
proof (induction n)
  case 0
  then show ?case by (simp add: extends_def leads_def)
next
  case (Suc n)
  have "extends (calc_body (sym_calc_value n)) (calc_body (sym_calc_value (n + k)))"
    unfolding extends_def using leads_body [OF Suc] by simp
  then show ?case by simp
qed

lemma calc_value_fuel:
  assumes "sym_calc_value n s K = Some r" "n \<le> m"
  shows "sym_calc_value m s K = Some r"
  using calc_value_extends [of n "m - n"] assms by (cases r) (auto simp: extends_def leads_def)

end
