(* ===== verification/Symbol.thy ===== *)
theory Symbol
  imports Symbol_Fuel
begin

text \<open>
  The operations on symbols that use their calculated values (symbol.c): setting
  values within their limits, defaults, and the texts of values. A calculation gets a
  bound that suffices for every well-formed store (Symbol\_Total), and the result of
  an operation is \<open>None\<close> only for a null pointer dereference.
\<close>

definition calc_sym :: calc where
  "calc_sym s K = sym_calc_value (Suc (2 * k_nsyms K)) s K"

definition sym_add_change_count :: "int \<Rightarrow> kstate \<Rightarrow> kstate" where
  "sym_add_change_count n K = K\<lparr>k_changes := k_changes K + n\<rparr>"

definition invalidate_all :: "kstate \<Rightarrow> kstate" where
  "invalidate_all K = fold (clear_flag SYMBOL_VALID) (all_symbols K) K"

definition sym_clear_all_valid :: "kstate \<Rightarrow> (unit \<times> kstate) option" where
  "sym_clear_all_valid K =
     (let K1 = sym_add_change_count 1 (invalidate_all K) in calc_sym (k_modules_sym K1) K1)"

definition sym_tristate_within_range :: "kstate \<Rightarrow> symref \<Rightarrow> tristate \<Rightarrow> bool" where
  "sym_tristate_within_range K s val =
     (let ty = sym_get_type K s; r = k_tab K s in
      if s_visible r = tri_no then False
      else if ty \<noteq> S_BOOLEAN \<and> ty \<noteq> S_TRISTATE then False
      else if ty = S_BOOLEAN \<and> val = tri_mod then False
      else if s_visible r \<le> s_rev_tri r then False
      else if s_impl_tri r = tri_yes \<and> val = tri_mod then False
      else if sym_is_choice_value K s \<and> s_visible r = tri_yes then val = tri_yes
      else val \<ge> s_rev_tri r \<and> val \<le> s_visible r)"

text \<open>Marking a symbol as set by the user; the first time it counts as changed.\<close>

definition mark_user :: "symref \<Rightarrow> kstate \<Rightarrow> kstate" where
  "mark_user s K =
     (if sym_has_value K s then K else sym_set_changed s (set_flag SYMBOL_DEF_USER s K))"

definition select_choice_value :: "symref \<Rightarrow> kstate \<Rightarrow> (unit \<times> kstate) option" where
  "select_choice_value s K =
     (case choice_of K s of
        Some (Some cs) \<Rightarrow>
          (let K1 = set_flag SYMBOL_DEF_USER cs
             (upd_sym cs (\<lambda>r. r\<lparr>s_def_user := (s_def_user r)\<lparr>sv_val := CSym s\<rparr>\<rparr>) K) in
           case sym_get_choice_prop K1 cs of None \<Rightarrow> None
           | Some prop \<Rightarrow>
               Some ((), fold (\<lambda>v K. if s_visible (k_tab K v) \<noteq> tri_no then set_flag SYMBOL_DEF_USER v K else K)
                 (list_syms (p_expr prop)) K1))
      | _ \<Rightarrow> None)"

definition sym_set_tristate_value :: "symref \<Rightarrow> tristate \<Rightarrow> kstate \<Rightarrow> (bool \<times> kstate) option" where
  "sym_set_tristate_value s val K =
     (let oldval = sym_get_tristate_value K s in
      if oldval \<noteq> val \<and> \<not> sym_tristate_within_range K s val then Some (False, K)
      else do {
        (_, K1) \<leftarrow> (if sym_is_choice_value K s \<and> val = tri_yes
                    then select_choice_value s (mark_user s K) else Some ((), mark_user s K));
        let K2 = upd_sym s (\<lambda>r. r\<lparr>s_def_user := (s_def_user r)\<lparr>sv_tri := val\<rparr>\<rparr>) K1;
        (_, K3) \<leftarrow> (if oldval \<noteq> val then sym_clear_all_valid K2 else Some ((), K2));
        Some (True, K3) })"

text \<open>\<open>sym_toggle_tristate_value\<close>: at most three values are tried.\<close>

fun next_tri :: "tristate \<Rightarrow> tristate" where
  "next_tri tri_no = tri_mod"
| "next_tri tri_mod = tri_yes"
| "next_tri tri_yes = tri_no"

fun toggle_loop :: "nat \<Rightarrow> symref \<Rightarrow> tristate \<Rightarrow> tristate \<Rightarrow> kstate \<Rightarrow> (tristate \<times> kstate) option" where
  "toggle_loop 0 s oldval val K = None"
| "toggle_loop (Suc n) s oldval val K = do {
     (ok, K1) \<leftarrow> sym_set_tristate_value s (next_tri val) K;
     (if ok \<or> oldval = next_tri val then Some (next_tri val, K1)
      else toggle_loop n s oldval (next_tri val) K1) }"

definition sym_toggle_tristate_value :: "symref \<Rightarrow> kstate \<Rightarrow> (tristate \<times> kstate) option" where
  "sym_toggle_tristate_value s K =
     toggle_loop 3 s (sym_get_tristate_value K s) (sym_get_tristate_value K s) K"

section \<open>Strings as values\<close>

definition int_valid :: "string \<Rightarrow> bool" where
  "int_valid str =
     (let s = (case str of c # cs \<Rightarrow> (if c = CHR ''-'' then cs else str) | [] \<Rightarrow> []) in
      case s of [] \<Rightarrow> False
      | ch # rest \<Rightarrow> c_isdigit ch \<and> \<not> (ch = CHR ''0'' \<and> rest \<noteq> []) \<and> list_all c_isdigit rest)"

definition has_0x :: "string \<Rightarrow> bool" where
  "has_0x str \<longleftrightarrow> take 2 str = ''0x'' \<or> take 2 str = ''0X''"

definition hex_valid :: "string \<Rightarrow> bool" where
  "hex_valid str =
     (let s = (if has_0x str then drop 2 str else str) in s \<noteq> [] \<and> list_all c_isxdigit s)"

text \<open>The tristate a string stands for, by its first character.\<close>

definition tri_of_char :: "char \<Rightarrow> tristate option" where
  "tri_of_char c =
     (if c = CHR ''y'' \<or> c = CHR ''Y'' then Some tri_yes
      else if c = CHR ''m'' \<or> c = CHR ''M'' then Some tri_mod
      else if c = CHR ''n'' \<or> c = CHR ''N'' then Some tri_no
      else None)"

definition tri_of_string :: "string \<Rightarrow> tristate option" where
  "tri_of_string str = (case str of [] \<Rightarrow> None | c # _ \<Rightarrow> tri_of_char c)"

definition sym_string_valid :: "symbol_type \<Rightarrow> string \<Rightarrow> bool" where
  "sym_string_valid ty str =
     (if ty = S_STRING then True
      else if ty = S_INT then int_valid str
      else if ty = S_HEX then hex_valid str
      else if ty = S_BOOLEAN \<or> ty = S_TRISTATE then tri_of_string str \<noteq> None
      else False)"

definition in_range :: "symref \<Rightarrow> nat \<Rightarrow> string \<Rightarrow> kstate \<Rightarrow> (bool \<times> kstate) option" where
  "in_range s base str K = do {
     (p, K1) \<leftarrow> sym_get_range_prop calc_sym s K;
     case p of None \<Rightarrow> Some (True, K1)
     | Some prop \<Rightarrow>
         (case p_expr prop of
            Some (Erange lo hi) \<Rightarrow> do {
              let val = fst (strtoll str base);
              (l, K2) \<leftarrow> sym_get_range_val calc_sym lo base K1;
              (if val \<ge> l then do {
                 (h, K3) \<leftarrow> sym_get_range_val calc_sym hi base K2;
                 Some (val \<le> h, K3) }
               else Some (False, K2)) }
          | _ \<Rightarrow> None) }"

definition sym_string_within_range :: "symref \<Rightarrow> string \<Rightarrow> kstate \<Rightarrow> (bool \<times> kstate) option" where
  "sym_string_within_range s str K =
     (let ty = s_type (k_tab K s) in
      if ty = S_STRING then Some (sym_string_valid ty str, K)
      else if ty = S_INT \<or> ty = S_HEX then
        (if \<not> sym_string_valid ty str then Some (False, K)
         else in_range s (if ty = S_INT then 10 else 16) str K)
      else if ty = S_BOOLEAN \<or> ty = S_TRISTATE then
        (case tri_of_string str of
           Some t \<Rightarrow> Some (sym_tristate_within_range K s t, K) | None \<Rightarrow> Some (False, K))
      else Some (False, K))"

text \<open>A new user value of an int, hex or string symbol; \<open>None\<close> keeps the old one.\<close>

definition new_user_string :: "symbol_type \<Rightarrow> cval \<Rightarrow> string \<Rightarrow> string option" where
  "new_user_string ty oldval newval =
     (if ty = S_HEX \<and> \<not> has_0x newval then Some (''0x'' @ newval)
      else if oldval = CNull \<or> cstr oldval \<noteq> newval then Some newval
      else None)"

definition sym_set_string_value :: "symref \<Rightarrow> string \<Rightarrow> kstate \<Rightarrow> (bool \<times> kstate) option" where
  "sym_set_string_value s newval K =
     (let ty = s_type (k_tab K s) in
      if ty = S_BOOLEAN \<or> ty = S_TRISTATE then
        (case tri_of_string newval of
           Some t \<Rightarrow> sym_set_tristate_value s t K | None \<Rightarrow> Some (False, K))
      else do {
        (ok, K1) \<leftarrow> sym_string_within_range s newval K;
        (if \<not> ok then Some (False, K1)
         else
           (let K2 = mark_user s K1 in
            case new_user_string ty (sv_val (s_def_user (k_tab K2 s))) newval of
              None \<Rightarrow> Some (True, K2)
            | Some str \<Rightarrow> do {
                (_, K3) \<leftarrow> sym_clear_all_valid
                  (upd_sym s (\<lambda>r. r\<lparr>s_def_user := (s_def_user r)\<lparr>sv_val := CStr str\<rparr>\<rparr>) K2);
                Some (True, K3) })) })"

section \<open>Default values\<close>

text \<open>The tristate and the string that \<open>sym_get_string_default\<close> starts from.\<close>

definition default_values :: "symref \<Rightarrow> kstate \<Rightarrow> ((tristate \<times> string) \<times> kstate) option" where
  "default_values s K = do {
     let val = sv_tri (s_curr (k_tab K symbol_no));
     let str = cstr (sv_val (s_curr (k_tab K symbol_empty)));
     (p, K1) \<leftarrow> sym_get_default_prop calc_sym s K;
     case p of None \<Rightarrow> Some ((val, str), K1)
     | Some prop \<Rightarrow>
         (if s_type (k_tab K1 s) = S_BOOLEAN \<or> s_type (k_tab K1 s) = S_TRISTATE then do {
            (v, K2) \<leftarrow> calc_opt calc_sym (p_expr prop) K1;
            Some ((EXPR_AND v (p_vis_tri prop), str), K2) }
          else (case prop_get_symbol prop of
              None \<Rightarrow> Some ((val, str), K1)
            | Some ds \<Rightarrow> do {
                (_, K2) \<leftarrow> calc_sym ds K1;
                Some ((val, cstr (sv_val (s_curr (k_tab K2 ds)))), K2) })) }"

definition adjust_default :: "kstate \<Rightarrow> symref \<Rightarrow> tristate \<Rightarrow> tristate" where
  "adjust_default K s val0 =
     (let val1 = EXPR_OR val0 (s_rev_tri (k_tab K s));
          val2 = (if val1 = tri_mod \<and> \<not> sym_is_choice_value K s \<and>
                     sv_tri (s_curr (k_tab K (k_modules_sym K))) = tri_no then tri_yes else val1);
          val3 = (if s_type (k_tab K s) = S_BOOLEAN \<and> val2 = tri_mod then tri_yes else val2)
      in if val3 < s_impl_tri (k_tab K s) then s_impl_tri (k_tab K s) else val3)"

fun tri_string :: "tristate \<Rightarrow> string" where
  "tri_string tri_no = ''n''"
| "tri_string tri_mod = ''m''"
| "tri_string tri_yes = ''y''"

definition sym_get_string_default :: "symref \<Rightarrow> kstate \<Rightarrow> (string \<times> kstate) option" where
  "sym_get_string_default s K = do {
     (_, K1) \<leftarrow> sym_calc_visibility calc_sym s K;
     (_, K2) \<leftarrow> calc_sym (k_modules_sym K1) K1;
     (vs, K3) \<leftarrow> default_values s K2;
     let ty = s_type (k_tab K3 s);
     Some (if ty = S_BOOLEAN \<or> ty = S_TRISTATE then tri_string (adjust_default K3 s (fst vs))
           else if ty = S_INT \<or> ty = S_HEX \<or> ty = S_STRING then snd vs
           else [], K3) }"

definition sym_is_changable :: "kstate \<Rightarrow> symref \<Rightarrow> bool" where
  "sym_is_changable K s \<longleftrightarrow> s_visible (k_tab K s) > s_rev_tri (k_tab K s)"

end
