(* ===== verification/Numerals.thy ===== *)
theory Numerals
  imports Strto
begin

text \<open>
  Printed and parsed numbers: \<open>strtoll\<close> reads back what \<open>sprintf\<close> prints, and the
  digit strings without a superfluous zero are exactly the printed numbers.
\<close>

section \<open>Digits\<close>

lemma digit_char_val: "d < 16 \<Longrightarrow> digit_val (digit_char d) = Some d"
  by (auto simp: digit_val_def digit_char_def Let_def)

lemma digit_char_digit: "d < b \<Longrightarrow> b \<le> 16 \<Longrightarrow> is_digit_of b (digit_char d)"
  by (simp add: is_digit_of_def digit_char_val)

lemma dec_digit_code: "c_isdigit c \<longleftrightarrow> 48 \<le> (of_char c :: nat) \<and> (of_char c :: nat) \<le> 57"
  by (auto simp: is_digit_of_def digit_val_def Let_def)

lemma dec_digit_char: "c_isdigit c \<Longrightarrow> digit_char (the (digit_val c)) = c"
  by (auto simp: dec_digit_code digit_val_def digit_char_def Let_def)

text \<open>The number a list of digits denotes, after \<open>acc\<close>.\<close>

definition digits_num :: "nat \<Rightarrow> nat \<Rightarrow> string \<Rightarrow> nat" where
  "digits_num b acc xs = foldl (\<lambda>a c. a * b + the (digit_val c)) acc xs"

lemma digits_num_append [simp]:
  "digits_num b acc (xs @ ys) = digits_num b (digits_num b acc xs) ys"
  by (simp add: digits_num_def)

lemma digits_num_simps [simp]:
  "digits_num b acc [] = acc" "digits_num b acc (c # cs) = digits_num b (acc * b + the (digit_val c)) cs"
  by (simp_all add: digits_num_def)

lemma scan_digits_append:
  "list_all (is_digit_of b) xs \<Longrightarrow> scan_digits b acc (xs @ rest) = scan_digits b (digits_num b acc xs) rest"
  by (induction xs arbitrary: acc) auto

lemma scan_digits_all:
  "list_all (is_digit_of b) xs \<Longrightarrow> scan_digits b acc xs = (digits_num b acc xs, [])"
  using scan_digits_append [of b xs acc "[]"] by simp

lemma show_nat_ok:
  assumes b: "2 \<le> b" "b \<le> 16"
  shows "list_all (is_digit_of b) (show_nat b n) \<and> digits_num b 0 (show_nat b n) = n \<and> show_nat b n \<noteq> []"
proof (induction n rule: less_induct)
  case (less n)
  show ?case
  proof (cases "n < b")
    case True
    with b show ?thesis by (subst (1 2 3) show_nat.simps) (simp add: digit_char_val digit_char_digit)
  next
    case False
    have "n mod b < 16" using b by (meson less_le_trans mod_less_divisor zero_less_numeral order.strict_trans1)
    with b False less [of "n div b"] show ?thesis
      by (subst (1 2 3) show_nat.simps) (simp add: digit_char_val digit_char_digit)
  qed
qed

lemmas show_nat_dec = show_nat_ok [of 10, simplified]
lemmas show_nat_hex = show_nat_ok [of 16, simplified]

text \<open>Digits without a superfluous zero are a printed number.\<close>

lemma show_digits_num:
  "list_all c_isdigit xs \<Longrightarrow> xs \<noteq> [] \<Longrightarrow> (hd xs = CHR ''0'' \<longrightarrow> length xs = 1) \<Longrightarrow>
     show_nat 10 (digits_num 10 0 xs) = xs"
proof (induction xs rule: rev_induct)
  case (snoc c cs)
  then have c: "c_isdigit c" by simp
  then have v: "the (digit_val c) < 10" "digit_char (the (digit_val c)) = c"
    by (auto simp: is_digit_of_def dec_digit_char split: option.splits)
  show ?case
  proof (cases cs)
    case Nil
    with v show ?thesis by (simp add: show_nat.simps [of 10 "the (digit_val c)"])
  next
    case (Cons a as)
    let ?m = "digits_num 10 0 cs"
    have IH: "show_nat 10 ?m = cs" using snoc Cons by simp
    have "?m \<noteq> 0"
    proof
      assume "?m = 0"
      moreover have "show_nat 10 0 = [CHR ''0'']" by code_simp
      ultimately have "cs = [CHR ''0'']" using IH by simp
      with snoc.prems Cons show False by simp
    qed
    with v IH show ?thesis by (simp add: show_nat.simps [of 10 "?m * 10 + the (digit_val c)"])
  qed
qed simp

lemma show_nat_hd: "hd (show_nat 10 n) = CHR ''0'' \<Longrightarrow> length (show_nat 10 n) = 1"
proof (induction n rule: less_induct)
  case (less n)
  show ?case
  proof (cases "n < 10")
    case True
    then show ?thesis by (simp add: show_nat.simps [of 10 n])
  next
    case False
    then have e: "show_nat 10 n = show_nat 10 (n div 10) @ [digit_char (n mod 10)]"
      by (simp add: show_nat.simps [of 10 n])
    with less.prems show_nat_dec [of "n div 10"] have "hd (show_nat 10 (n div 10)) = CHR ''0''" by simp
    with less.IH [of "n div 10"] False have "length (show_nat 10 (n div 10)) = 1" by simp
    then obtain c where c: "show_nat 10 (n div 10) = [c]" by (auto simp: length_Suc_conv)
    with \<open>hd (show_nat 10 (n div 10)) = CHR ''0''\<close> show_nat_dec [of "n div 10"]
    have "n div 10 = 0" by (simp add: digit_val_def)
    with False show ?thesis by simp
  qed
qed

section \<open>Reading back\<close>

lemma digit_no_space: "is_digit_of b c \<Longrightarrow> \<not> c_isspace c \<and> c \<noteq> CHR ''-'' \<and> c \<noteq> CHR ''+''"
  by (auto simp: is_digit_of_def digit_val_def c_isspace_def Let_def split: if_splits)

lemma strto_scan_plain:
  assumes "list_all (is_digit_of b) s" "s \<noteq> []" "b \<noteq> 0" "b \<noteq> 16"
  shows "strto_scan b s = Some (False, digits_num b 0 s, [])"
    "strto_scan b (CHR ''-'' # s) = Some (True, digits_num b 0 s, [])"
proof -
  from assms(1,2) have h: "\<not> c_isspace (hd s) \<and> hd s \<noteq> CHR ''-'' \<and> hd s \<noteq> CHR ''+''"
    by (intro digit_no_space [of b]) (cases s; simp)
  with assms show "strto_scan b s = Some (False, digits_num b 0 s, [])"
    by (cases s) (simp_all add: strto_scan_def scan_digits_all Let_def del: scan_digits.simps)
  have "\<not> c_isspace (CHR ''-'')" by (simp add: c_isspace_def)
  with h assms show "strto_scan b (CHR ''-'' # s) = Some (True, digits_num b 0 s, [])"
    by (cases s) (simp_all add: strto_scan_def scan_digits_all Let_def del: scan_digits.simps)
qed

lemma strtoll_show_int:
  assumes "- (2 ^ 63) \<le> x" "x < 2 ^ 63"
  shows "strtoll (show_int x) 10 = (x, [], False)"
proof (cases "x < 0")
  case True
  then have "strto_scan 10 (show_int x) = Some (True, nat (- x), [])"
    using strto_scan_plain(2) [of 10 "show_nat 10 (nat (- x))"] show_nat_dec [of "nat (- x)"]
    by (simp add: show_int_def)
  with True assms show ?thesis by (simp add: strtoll_def)
next
  case False
  then have "strto_scan 10 (show_int x) = Some (False, nat x, [])"
    using strto_scan_plain(1) [of 10 "show_nat 10 (nat x)"] show_nat_dec [of "nat x"]
    by (simp add: show_int_def)
  with False assms show ?thesis by (simp add: strtoll_def)
qed

lemma strto_scan_hex:
  assumes "list_all c_isxdigit s" "s \<noteq> []"
  shows "strto_scan 16 (''0x'' @ s) = Some (False, digits_num 16 0 s, [])"
proof -
  obtain c cs where s: "s = c # cs" using assms(2) by (cases s) auto
  have "\<not> c_isspace (CHR ''0'')" by (simp add: c_isspace_def)
  with assms show ?thesis
    by (simp add: strto_scan_def s has_hex_prefix_def Let_def scan_digits_all del: scan_digits.simps)
qed

lemma strtoll_show_hex:
  assumes "0 \<le> x" "x < 2 ^ 63"
  shows "strtoll (''0x'' @ show_nat 16 (nat (x mod 2 ^ 64))) 16 = (x, [], False)"
  using assms strto_scan_hex [of "show_nat 16 (nat x)"] show_nat_hex [of "nat x"]
  by (simp add: strtoll_def)

end
