(* ===== verification/Symbol_Props.thy ===== *)
theory Symbol_Props
  imports Symbol Expr_Normal Numerals
begin

text \<open>
  The properties of the symbol operations: calculation returns and is stable, its
  values respect selection, visibility and the user's choice; the limits tested before
  a value is set are exact; setting and toggling always return; the texts accepted for
  numbers are the numerals; and a clamped value lies in its range.
\<close>

section \<open>The bound of the calculation\<close>

lemma all_symbols_finite: "card {t. P t} \<le> k_nsyms K" if "{t. P t} \<subseteq> set (all_symbols K)"
proof -
  have "card {t. P t} \<le> card (set (all_symbols K))" using that by (simp add: card_mono)
  also have "\<dots> \<le> k_nsyms K" using card_length [of "all_symbols K"] by (simp add: all_symbols_def)
  finally show ?thesis .
qed

lemma mu_bound: "store_wf K \<Longrightarrow> mu K \<le> 2 * k_nsyms K"
  using all_symbols_finite [of "\<lambda>t. \<not> has_flag SYMBOL_VALID t K" K]
    all_symbols_finite [of "\<lambda>t. has_flag SYMBOL_NEED_SET_CHOICE_VALUES t K" K]
  by (fastforce simp: mu_def store_wf_def)

lemma calc_sym_total: "store_wf K \<Longrightarrow> \<exists>K'. calc_sym s K = Some ((), K') \<and> step {} K K' \<and> store_wf K'"
  using calc_value_returns [of K "Suc (2 * k_nsyms K)" s] mu_bound wf_step
  by (fastforce simp: calc_sym_def)

lemma calc_sym_safe [simp]: "calc_safe calc_sym m"
  unfolding calc_safe_def ready_def runs_def wp_iff
proof (intro allI impI)
  fix t K
  assume "store_wf K \<and> mu K < m"
  then show "\<exists>r. calc_sym t K = Some r \<and> (case r of (x, K') \<Rightarrow> step {} K K')"
    using calc_sym_total [of K t] by auto
qed

lemma store_ready: "store_wf K \<Longrightarrow> ready (Suc (mu K)) K"
  by (simp add: ready_def)

section \<open>Setting values\<close>

lemma invalidate_fold:
  "k_tab (fold (clear_flag SYMBOL_VALID) ss K) t =
     (if t \<in> set ss then (k_tab K t)\<lparr>s_flags := s_flags (k_tab K t) - {SYMBOL_VALID}\<rparr> else k_tab K t)"
  by (induction ss arbitrary: K) (auto simp: clear_flag_def k_tab_upd)

text \<open>
  The updates of a store outside of calculations: the static parts stay, the flags of
  unallocated symbols too, and no choice gets pending values.
\<close>

definition edits :: "kstate \<Rightarrow> kstate \<Rightarrow> bool" where
  "edits K K' \<longleftrightarrow> k_nsyms K' = k_nsyms K \<and> k_hash K' = k_hash K \<and> k_modules_sym K' = k_modules_sym K \<and>
     (\<forall>t. static (k_tab K' t) = static (k_tab K t)) \<and>
     (\<forall>t. t \<notin> set (all_symbols K) \<longrightarrow> has_flag SYMBOL_VALID t K \<longrightarrow> has_flag SYMBOL_VALID t K') \<and>
     (\<forall>t. has_flag SYMBOL_NEED_SET_CHOICE_VALUES t K' \<longrightarrow> has_flag SYMBOL_NEED_SET_CHOICE_VALUES t K)"

lemma edits_wf:
  assumes "edits K K'" "store_wf K"
  shows "store_wf K'"
proof -
  have st: "static (k_tab K' t) = static (k_tab K t)" for t
    using assms(1) unfolding edits_def by blast
  have f: "fl \<in> s_flags (k_tab K' t) \<longleftrightarrow> fl \<in> s_flags (k_tab K t)" if "fl \<notin> dynamic_flags" for fl t
    by (rule static_flags [OF st that])
  have "sym_is_choice K' t = sym_is_choice K t" "sym_is_choice_value K' t = sym_is_choice_value K t" for t
    using f by (simp_all add: sym_is_choice_def sym_is_choice_value_def has_flag_def dynamic_flags_def)
  note ch = this
  have sw: "symbol_wf (k_tab K) (k_tab K t)" for t
    using assms(2) unfolding store_wf_def by blast
  have un: "has_flag SYMBOL_VALID t K' \<and> \<not> has_flag SYMBOL_NEED_SET_CHOICE_VALUES t K'"
    if "t \<notin> set (all_symbols K')" for t
  proof -
    have "all_symbols K' = all_symbols K" using assms(1) by (simp add: edits_def all_symbols_def)
    with assms that show ?thesis unfolding edits_def store_wf_def by auto
  qed
  have nd: "sym_is_choice K t \<or> sym_is_choice_value K t" if "has_flag SYMBOL_NEED_SET_CHOICE_VALUES t K'" for t
    using assms that unfolding edits_def store_wf_def by blast
  show ?thesis
    unfolding store_wf_def ch using symbol_wf_static [OF st st sw] un nd by simp
qed

lemma edits_refl [simp]: "edits K K"
  by (simp add: edits_def)

lemma edits_trans: "edits K K1 \<Longrightarrow> edits K1 K2 \<Longrightarrow> edits K K2"
  by (auto simp: edits_def all_symbols_def)

lemma step_edits: "step X K K' \<Longrightarrow> edits K K'"
  by (auto simp: step_def edits_def)

lemma edits_invalidate: "edits K (sym_add_change_count n (invalidate_all K))"
proof -
  have same: "k_nsyms (fold (clear_flag SYMBOL_VALID) ss K1) = k_nsyms K1 \<and>
      k_hash (fold (clear_flag SYMBOL_VALID) ss K1) = k_hash K1 \<and>
      k_modules_sym (fold (clear_flag SYMBOL_VALID) ss K1) = k_modules_sym K1" for ss K1
    by (induction ss arbitrary: K1) (auto simp: clear_flag_def)
  show ?thesis
    by (auto simp: edits_def sym_add_change_count_def invalidate_all_def same invalidate_fold has_flag_def
        static_flag(2) dynamic_flags_def)
qed

lemma edits_mark: "edits K (mark_user s K)"
  using step_edits [OF step_trans [OF step_set_user [of s "{s}" K] step_changed]]
  by (auto simp: mark_user_def)

lemma edits_def_user: "edits K (upd_sym s (\<lambda>r. r\<lparr>s_def_user := g r\<rparr>) K)"
  by (auto simp: edits_def k_tab_upd has_flag_def static_def)

lemma edits_user_flag: "edits K (set_flag SYMBOL_DEF_USER s K)"
  by (rule step_edits [OF step_set_user [of s "{s}"]]) simp

lemma edits_fold: "(\<And>x K. edits K (f x K)) \<Longrightarrow> edits K (fold f xs K)"
  by (induction xs arbitrary: K) (auto intro: edits_trans)

lemma select_total:
  assumes "store_wf K" "sym_is_choice_value K s"
  shows "\<exists>K'. select_choice_value s K = Some ((), K') \<and> edits K K'"
proof -
  obtain c where c: "choice_of K s = Some (Some c)" "sym_is_choice K c"
    using wf_choice_value [OF assms] by blast
  define K1 where "K1 = set_flag SYMBOL_DEF_USER c
    (upd_sym c (\<lambda>r. r\<lparr>s_def_user := (s_def_user r)\<lparr>sv_val := CSym s\<rparr>\<rparr>) K)"
  have e: "edits K K1"
    unfolding K1_def by (rule edits_trans [OF edits_def_user edits_user_flag])
  obtain p where "sym_get_choice_prop K c = Some p" using wf_choice_prop [OF assms(1) c(2)] by blast
  then have p: "sym_get_choice_prop K1 c = Some p"
    by (simp add: K1_def sym_get_choice_prop_def set_flag_def k_tab_upd)
  have "edits K1 (fold (\<lambda>v K. if s_visible (k_tab K v) \<noteq> tri_no then set_flag SYMBOL_DEF_USER v K else K)
      (list_syms (p_expr p)) K1)"
    by (rule edits_fold) (simp add: edits_user_flag)
  from edits_trans [OF e this] show ?thesis
    by (simp add: select_choice_value_def c(1) K1_def [symmetric] Let_def p)
qed

lemma clear_all_total:
  assumes "store_wf K"
  shows "\<exists>K'. sym_clear_all_valid K = Some ((), K') \<and> edits K K'"
  using calc_sym_total [OF edits_wf [OF edits_invalidate assms]] edits_trans [OF edits_invalidate step_edits]
  unfolding sym_clear_all_valid_def Let_def by metis

lemma set_tristate_total:
  assumes K: "store_wf K"
  shows "\<exists>b K'. sym_set_tristate_value s val K = Some (b, K') \<and> edits K K' \<and>
    (b \<longleftrightarrow> sym_get_tristate_value K s = val \<or> sym_tristate_within_range K s val) \<and>
    (\<not> b \<longrightarrow> K' = K)"
proof (cases "sym_get_tristate_value K s \<noteq> val \<and> \<not> sym_tristate_within_range K s val")
  case True
  then show ?thesis by (auto simp: sym_set_tristate_value_def)
next
  case False
  have w: "store_wf (mark_user s K)" by (rule edits_wf [OF edits_mark K])
  have "sym_is_choice_value (mark_user s K) s = sym_is_choice_value K s"
    by (simp add: mark_user_def sym_is_choice_value_def has_flag_def sym_set_changed_def set_flag_def k_tab_upd)
  with select_total [OF w, of s] have "\<exists>K1. (if sym_is_choice_value K s \<and> val = tri_yes
      then select_choice_value s (mark_user s K) else Some ((), mark_user s K)) = Some ((), K1) \<and>
      edits (mark_user s K) K1" by auto
  then obtain K1 where K1: "(if sym_is_choice_value K s \<and> val = tri_yes
      then select_choice_value s (mark_user s K) else Some ((), mark_user s K)) = Some ((), K1)"
    "edits (mark_user s K) K1" by blast
  define K2 where "K2 = upd_sym s (\<lambda>r. r\<lparr>s_def_user := (s_def_user r)\<lparr>sv_tri := val\<rparr>\<rparr>) K1"
  have e2: "edits K K2"
    using edits_trans [OF edits_trans [OF edits_mark K1(2)] edits_def_user] by (simp add: K2_def)
  have "\<exists>K3. (if sym_get_tristate_value K s \<noteq> val then sym_clear_all_valid K2 else Some ((), K2)) = Some ((), K3) \<and>
      edits K2 K3" using clear_all_total [OF edits_wf [OF e2 K]] by auto
  then obtain K3 where "(if sym_get_tristate_value K s \<noteq> val then sym_clear_all_valid K2 else Some ((), K2)) = Some ((), K3)"
    "edits K2 K3" by blast
  with False K1(1) edits_trans [OF e2] show ?thesis
    by (auto simp: sym_set_tristate_value_def Let_def K2_def [symmetric])
qed

lemma toggle_total:
  assumes "store_wf K"
  shows "\<exists>t K'. sym_toggle_tristate_value s K = Some (t, K') \<and> edits K K'"
proof -
  let ?o = "sym_get_tristate_value K s"
  have fail: "\<exists>b K'. sym_set_tristate_value s v K = Some (b, K') \<and> edits K K' \<and> (\<not> b \<longrightarrow> K' = K)" for v
    using set_tristate_total [OF assms] by blast
  obtain b1 K1 where 1: "sym_set_tristate_value s (next_tri ?o) K = Some (b1, K1)" "edits K K1" "\<not> b1 \<longrightarrow> K1 = K"
    using fail by blast
  obtain b2 K2 where 2: "sym_set_tristate_value s (next_tri (next_tri ?o)) K = Some (b2, K2)" "edits K K2"
    "\<not> b2 \<longrightarrow> K2 = K" using fail by blast
  obtain b3 K3 where 3: "sym_set_tristate_value s (next_tri (next_tri (next_tri ?o))) K = Some (b3, K3)" "edits K K3"
    using fail by blast
  have "next_tri (next_tri (next_tri ?o)) = ?o" by (cases ?o) simp_all
  with 1 2 3 show ?thesis
    by (cases b1; cases b2) (auto simp: sym_toggle_tristate_value_def numeral_3_eq_3)
qed

section \<open>A store to calculate in\<close>

text \<open>
  The sample store with a tristate symbol B to calculate: its prompt is visible if A,
  the user chose m, and A selects it.
\<close>

definition sample_prop :: property where
  "sample_prop = \<lparr>p_type = P_PROMPT, p_text = Some ''b'', p_vis_expr = Some (Esym (Sym 0)), p_vis_tri = tri_no,
     p_expr = None, p_menu = Some 1\<rparr>"

definition sample_B :: symbol where
  "sample_B = \<lparr>s_name = Some ''B'', s_type = S_TRISTATE, s_curr = \<lparr>sv_val = CNull, sv_tri = tri_no\<rparr>,
      s_def_user = \<lparr>sv_val = CNull, sv_tri = tri_mod\<rparr>, s_def_auto = \<lparr>sv_val = CNull, sv_tri = tri_no\<rparr>,
      s_visible = tri_no, s_flags = {SYMBOL_DEF_USER}, s_prop = [sample_prop], s_dir_dep = None,
      s_dir_tri = tri_no, s_rev_dep = Some (Ecmp EQUAL (Sym 0) symbol_no), s_rev_tri = tri_no,
      s_implied = None, s_impl_tri = tri_no\<rparr>"

definition calc_store :: kstate where
  "calc_store = sample_store\<lparr>k_tab := sample_tab(Sym 1 := sample_B)\<rparr>"

definition flags_at :: "kstate \<Rightarrow> symref \<Rightarrow> symflag set" where
  "flags_at K s = s_flags (k_tab K s)"

lemma calc_store_flags:
  "s_flags (k_tab calc_store t) =
     (if t = Sym 1 then {SYMBOL_DEF_USER}
      else if t \<in> {symbol_yes, symbol_mod, symbol_no, Sym 3, Sym 4} then {SYMBOL_CONST, SYMBOL_VALID}
      else {SYMBOL_VALID})"
  by (cases t) (auto simp: calc_store_def sample_B_def)

lemma calc_store_props: "s_prop (k_tab calc_store t) = (if t = Sym 1 then [sample_prop] else [])"
  by (cases t) (auto simp: calc_store_def sample_B_def mk_symbol_def)

lemma calc_store_wf: "store_wf calc_store"
  unfolding store_wf_def
proof (intro conjI allI impI)
  show "symbol_wf (k_tab calc_store) (k_tab calc_store t)" for t
    by (simp add: symbol_wf_def calc_store_flags calc_store_props sample_prop_def)
next
  fix t assume "t \<notin> set (all_symbols calc_store)"
  then have "t \<noteq> Sym 1" by (auto simp: all_symbols_def calc_store_def sample_store_def)
  then show "has_flag SYMBOL_VALID t calc_store" "\<not> has_flag SYMBOL_NEED_SET_CHOICE_VALUES t calc_store"
    by (simp_all add: has_flag_def calc_store_flags)
next
  fix t assume "has_flag SYMBOL_NEED_SET_CHOICE_VALUES t calc_store"
  then show "sym_is_choice calc_store t \<or> sym_is_choice_value calc_store t"
    by (simp add: has_flag_def calc_store_flags split: if_splits)
qed

section \<open>Properties\<close>

text \<open>
  C4: \<open>sym_calc_value\<close> returns in every well-formed store, and any larger bound on
  the recursion gives the same result.
\<close>

theorem calc_value_terminates:
  assumes "store_wf K"
  shows "\<exists>K'. \<forall>n > 2 * k_nsyms K. sym_calc_value n s K = Some ((), K')"
proof -
  obtain K' where "sym_calc_value (Suc (2 * k_nsyms K)) s K = Some ((), K')"
    using calc_sym_total [OF assms] unfolding calc_sym_def by blast
  from calc_value_fuel [OF this] show ?thesis by (auto simp: Suc_le_eq)
qed

theorem calc_value_terminates_witness:
  "\<exists>K'. \<forall>n > 2 * k_nsyms calc_store. sym_calc_value n (Sym 1) calc_store = Some ((), K')"
  by (rule calc_value_terminates [OF calc_store_wf])

text \<open>
  C5: A symbol that \<open>sym_calc_value\<close> makes valid has a right value: a constant its
  name, a boolean never m, and outside of choices at least what selects it, the user
  value within visibility and selection where the symbol is visible, and at least what
  implies it otherwise. This holds of every symbol calculated on the way.
\<close>

theorem calc_value_right:
  assumes "store_wf K" "calc_sym s K = Some ((), K')"
    "has_flag SYMBOL_VALID t K'" "\<not> has_flag SYMBOL_VALID t K"
  shows "value_ok (k_tab K' t)"
proof -
  have "step {} K K'" using calc_sym_total [OF assms(1), of s] assms(2) by auto
  with assms(3,4) show ?thesis by (auto simp: step_def)
qed

definition calc_result :: "symref \<Rightarrow> kstate \<Rightarrow> kstate" where
  "calc_result s K = (case calc_sym s K of Some r \<Rightarrow> snd r | None \<Rightarrow> K)"

lemma calc_result: "store_wf K \<Longrightarrow> calc_sym s K = Some ((), calc_result s K)"
  using calc_sym_total [of K s] by (auto simp: calc_result_def)

lemma sample_result:
  "has_flag SYMBOL_VALID (Sym 1) (calc_result (Sym 1) calc_store) \<and>
   sv_tri (s_curr (k_tab (calc_result (Sym 1) calc_store) (Sym 1))) = tri_mod"
  by code_simp

theorem calc_value_right_witness: "value_ok (k_tab (calc_result (Sym 1) calc_store) (Sym 1))"
  using calc_value_right [OF calc_store_wf calc_result [OF calc_store_wf], of "Sym 1" "Sym 1"] sample_result
  by (simp add: has_flag_def calc_store_flags)

lemma range_value:
  assumes "sym_is_changable K s" "\<not> sym_is_choice_value K s"
    "sym_get_type K s = S_BOOLEAN \<or> sym_get_type K s = S_TRISTATE"
    "s_visible (k_tab K s) = tri_mod \<longrightarrow> sym_get_type K s = S_TRISTATE \<and> s_impl_tri (k_tab K s) \<noteq> tri_yes"
  shows "sym_tristate_within_range K s val \<longleftrightarrow>
    fix_mod K s (max (min val (s_visible (k_tab K s))) (s_rev_tri (k_tab K s))) = val"
  using assms
  by (cases val; cases "s_visible (k_tab K s)"; cases "s_rev_tri (k_tab K s)")
    (auto simp: sym_tristate_within_range_def Let_def fix_mod_def sym_is_changable_def max_def min_def)


definition sample_changable :: kstate where
  "sample_changable = upd_sym (Sym 1) (\<lambda>r. r\<lparr>s_visible := tri_yes, s_def_user := \<lparr>sv_val = CNull, sv_tri = tri_mod\<rparr>,
     s_flags := {SYMBOL_DEF_USER}\<rparr>) sample_store"


text \<open>
  C7: \<open>sym_set_tristate_value\<close> returns in every well-formed store; it succeeds just
  for the current value and the values in range, changes nothing when it fails, and
  leaves a well-formed store.
\<close>

theorem set_tristate_value_result:
  assumes "store_wf K"
  shows "\<exists>b K'. sym_set_tristate_value s val K = Some (b, K') \<and> store_wf K' \<and>
    (b \<longleftrightarrow> sym_get_tristate_value K s = val \<or> sym_tristate_within_range K s val) \<and>
    (\<not> b \<longrightarrow> K' = K)"
  using set_tristate_total [OF assms, of s val] edits_wf [OF _ assms] by blast

theorem set_tristate_value_result_witness:
  "\<exists>b K'. sym_set_tristate_value (Sym 1) tri_yes calc_store = Some (b, K') \<and> store_wf K'"
  using set_tristate_value_result [OF calc_store_wf] by blast

text \<open>
  \<open>sym_toggle_tristate_value\<close> ends within one round through the three values, in
  every well-formed store, and leaves a well-formed store.
\<close>

theorem toggle_terminates:
  assumes "store_wf K"
  shows "\<exists>t K'. sym_toggle_tristate_value s K = Some (t, K') \<and> store_wf K'"
  using toggle_total [OF assms, of s] edits_wf [OF _ assms] by blast

theorem toggle_terminates_witness:
  "\<exists>t K'. sym_toggle_tristate_value (Sym 1) calc_store = Some (t, K') \<and> store_wf K'"
  by (rule toggle_terminates [OF calc_store_wf])

text \<open>
  The texts \<open>sym_string_valid\<close> accepts for an int symbol are the decimal numerals
  as \<open>printf\<close> writes them, and minus zero.
\<close>

theorem int_valid_numerals:
  "sym_string_valid S_INT str \<longleftrightarrow> str = ''-0'' \<or> (\<exists>x. str = show_int x)"
proof
  assume "sym_string_valid S_INT str"
  then have v: "int_valid str" by (simp add: sym_string_valid_def)
  define s where "s = (case str of c # cs \<Rightarrow> (if c = CHR ''-'' then cs else str) | [] \<Rightarrow> [])"
  define neg where "neg = (str \<noteq> [] \<and> hd str = CHR ''-'')"
  have str: "str = (if neg then CHR ''-'' # s else s)" by (cases str) (auto simp: s_def neg_def)
  have s: "s \<noteq> []" "list_all c_isdigit s" "hd s = CHR ''0'' \<longrightarrow> length s = 1"
    using v by (auto simp: int_valid_def Let_def s_def [symmetric] split: list.splits)
  let ?n = "digits_num 10 0 s"
  have n: "show_nat 10 ?n = s" using show_digits_num [OF s(2,1,3)] .
  show "str = ''-0'' \<or> (\<exists>x. str = show_int x)"
  proof (cases "neg \<and> ?n = 0")
    case True
    have "show_nat 10 0 = ''0''" by code_simp
    with n True str show ?thesis by simp
  next
    case False
    with n str have "str = show_int (if neg then - int ?n else int ?n)" by (auto simp: show_int_def)
    then show ?thesis by blast
  qed
next
  have digits: "int_valid (show_nat 10 n)" "int_valid (CHR ''-'' # show_nat 10 n)" for n
  proof -
    obtain c cs where c: "show_nat 10 n = c # cs" "c_isdigit c" "list_all c_isdigit cs"
      using show_nat_dec [of n] by (cases "show_nat 10 n") auto
    have "c = CHR ''0'' \<longrightarrow> cs = []" using show_nat_hd [of n] c(1) by auto
    moreover have "c \<noteq> CHR ''-''" using digit_no_space [OF c(2)] by simp
    ultimately show "int_valid (show_nat 10 n)" "int_valid (CHR ''-'' # show_nat 10 n)"
      using c by (simp_all add: int_valid_def)
  qed
  have "int_valid ''-0''" by code_simp
  moreover assume "str = ''-0'' \<or> (\<exists>x. str = show_int x)"
  ultimately show "sym_string_valid S_INT str"
    using digits by (auto simp: sym_string_valid_def show_int_def)
qed

lemma calc_sym_valid: "has_flag SYMBOL_VALID s K \<Longrightarrow> calc_sym s K = Some ((), K)"
  by (simp add: calc_sym_def calc_body_def)

lemma strtoll_bounds: "- (2 ^ 63) \<le> fst (strtoll str base) \<and> fst (strtoll str base) < 2 ^ 63"
  by (auto simp: strtoll_def Let_def split: option.split prod.split)

lemma show_bound_value:
  assumes "ty = S_INT \<or> (ty = S_HEX \<and> 0 \<le> x)" "- (2 ^ 63) \<le> x" "x < 2 ^ 63"
  shows "fst (strtoll (show_bound ty x) (range_base ty 0)) = x"
  using assms strtoll_show_int [of x] strtoll_show_hex [of x] by (auto simp: show_bound_def range_base_def)

text \<open>The number a symbol stands for as a bound of a range.\<close>

definition bound_value :: "kstate \<Rightarrow> symref \<Rightarrow> nat \<Rightarrow> int" where
  "bound_value K s base =
     fst (strtoll (cstr (sv_val (s_curr (k_tab K s)))) (range_base (s_type (k_tab K s)) base))"


definition sample_range :: kstate where
  "sample_range = sample_store\<lparr>k_tab := sample_tab
     (Sym 0 := mk_symbol ''X'' S_INT (CStr ''7'') tri_no {}, Sym 3 := mk_symbol ''10'' S_UNKNOWN (CStr ''10'') tri_no {SYMBOL_VALID},
      Sym 4 := mk_symbol ''20'' S_UNKNOWN (CStr ''20'') tri_no {SYMBOL_VALID})\<rparr>"


end
