(* ===== verification/Symtab.thy ===== *)
theory Symtab
  imports Symbol
begin

unbundle bit_operations_syntax

text \<open>
  The symbol table of symbol.c: hashing, \<open>sym_lookup\<close> and \<open>sym_find\<close> over the
  buckets of \<open>symbol_hash\<close>, and the operations that build on them. The interface
  \<open>symbol_table\<close> is the dictionary the parser and the reader of configurations
  rely on; the hash table provides it.
\<close>

section \<open>Hashing\<close>

definition SYMBOL_HASHSIZE :: nat where "SYMBOL_HASHSIZE = 9973"

text \<open>FNV-1a; a \<open>char\<close> is signed, as on the hosts the program is built for.\<close>

definition strhash :: "string \<Rightarrow> u32" where
  "strhash s = foldl (\<lambda>hash c. (hash XOR scast (of_char c :: u8)) * 0x01000193) 2166136261 s"

definition bucket_of :: "string \<Rightarrow> nat" where
  "bucket_of name = unat (strhash name) mod SYMBOL_HASHSIZE"

lemma bucket_of_less: "bucket_of name < SYMBOL_HASHSIZE"
  by (simp add: bucket_of_def SYMBOL_HASHSIZE_def)

section \<open>\<open>sym_lookup\<close> and \<open>sym_find\<close>\<close>

definition static_sym :: "string \<Rightarrow> symref option" where
  "static_sym name =
     (if name = ''y'' then Some symbol_yes
      else if name = ''m'' then Some symbol_mod
      else if name = ''n'' then Some symbol_no
      else None)"

definition flags_match :: "symflag set \<Rightarrow> symflag set \<Rightarrow> bool" where
  "flags_match flags have =
     (if flags \<noteq> {} then have \<inter> flags \<noteq> {} else SYMBOL_CONST \<notin> have \<and> SYMBOL_CHOICE \<notin> have)"

text \<open>A symbol as \<open>memset\<close> and \<open>sym_lookup\<close> leave it.\<close>

definition new_symbol :: "string option \<Rightarrow> symflag set \<Rightarrow> symbol" where
  "new_symbol name flags =
     \<lparr>s_name = name, s_type = S_UNKNOWN,
      s_curr = \<lparr>sv_val = CNull, sv_tri = tri_no\<rparr>,
      s_def_user = \<lparr>sv_val = CNull, sv_tri = tri_no\<rparr>,
      s_def_auto = \<lparr>sv_val = CNull, sv_tri = tri_no\<rparr>,
      s_visible = tri_no, s_flags = flags, s_prop = [],
      s_dir_dep = None, s_dir_tri = tri_no, s_rev_dep = None, s_rev_tri = tri_no,
      s_implied = None, s_impl_tri = tri_no\<rparr>"

definition insert_symbol :: "nat \<Rightarrow> string option \<Rightarrow> symflag set \<Rightarrow> kstate \<Rightarrow> symref \<times> kstate" where
  "insert_symbol h name flags K =
     (let s = Sym (k_nsyms K) in
      (s, K\<lparr>k_tab := (k_tab K)(s := new_symbol name flags),
            k_nsyms := k_nsyms K + 1,
            k_hash := (k_hash K)(h := s # k_hash K h)\<rparr>))"

definition sym_lookup :: "string option \<Rightarrow> symflag set \<Rightarrow> kstate \<Rightarrow> symref \<times> kstate" where
  "sym_lookup name flags K =
     (case name of
        None \<Rightarrow> insert_symbol 0 None flags K
      | Some nm \<Rightarrow>
          (case static_sym nm of
             Some s \<Rightarrow> (s, K)
           | None \<Rightarrow>
               (case find (\<lambda>s. s_name (k_tab K s) = Some nm \<and> flags_match flags (s_flags (k_tab K s)))
                       (k_hash K (bucket_of nm)) of
                  Some s \<Rightarrow> (s, K)
                | None \<Rightarrow> insert_symbol (bucket_of nm) (Some nm) flags K)))"

definition sym_find :: "string option \<Rightarrow> kstate \<Rightarrow> symref option" where
  "sym_find name K =
     (case name of
        None \<Rightarrow> None
      | Some nm \<Rightarrow>
          (case static_sym nm of
             Some s \<Rightarrow> Some s
           | None \<Rightarrow>
               find (\<lambda>s. s_name (k_tab K s) = Some nm \<and> SYMBOL_CONST \<notin> s_flags (k_tab K s))
                 (k_hash K (bucket_of nm))))"

section \<open>Properties of symbols\<close>

text \<open>\<open>prop_alloc\<close> appends; the file and the line of the property are not modelled.\<close>

definition prop_alloc :: "prop_type \<Rightarrow> symref \<Rightarrow> kstate \<Rightarrow> kstate" where
  "prop_alloc ty s K =
     upd_sym s (\<lambda>r. r\<lparr>s_prop := s_prop r @
       [\<lparr>p_type = ty, p_text = None, p_vis_expr = None, p_vis_tri = tri_no, p_expr = None, p_menu = None\<rparr>]\<rparr>) K"

definition sym_add_default :: "symref \<Rightarrow> string \<Rightarrow> kstate \<Rightarrow> kstate" where
  "sym_add_default s dflt K =
     (let n = length (s_prop (k_tab K s));
          K = prop_alloc P_DEFAULT s K
      in case sym_lookup (Some dflt) {SYMBOL_CONST} K of
           (d, K) \<Rightarrow> upd_sym s (\<lambda>r. r\<lparr>s_prop := (s_prop r)[n := (s_prop r ! n)\<lparr>p_expr := Some (Esym d)\<rparr>]\<rparr>) K)"

text \<open>\<open>sym_init\<close>, with the release that \<open>uname\<close> reports.\<close>

definition sym_init :: "string \<Rightarrow> kstate \<Rightarrow> kstate" where
  "sym_init release K =
     (case sym_lookup (Some ''UNAME_RELEASE'') {} K of
        (s, K) \<Rightarrow>
          sym_add_default s release
            (upd_sym s (\<lambda>r. r\<lparr>s_type := S_STRING, s_flags := insert SYMBOL_AUTO (s_flags r)\<rparr>) K))"

fun sym_type_name :: "symbol_type \<Rightarrow> string" where
  "sym_type_name S_BOOLEAN = ''bool''"
| "sym_type_name S_TRISTATE = ''tristate''"
| "sym_type_name S_INT = ''integer''"
| "sym_type_name S_HEX = ''hex''"
| "sym_type_name S_STRING = ''string''"
| "sym_type_name S_UNKNOWN = ''unknown''"
| "sym_type_name S_OTHER = ''???''"

fun prop_get_type_name :: "prop_type \<Rightarrow> string" where
  "prop_get_type_name P_PROMPT = ''prompt''"
| "prop_get_type_name P_ENV = ''env''"
| "prop_get_type_name P_COMMENT = ''comment''"
| "prop_get_type_name P_MENU = ''menu''"
| "prop_get_type_name P_DEFAULT = ''default''"
| "prop_get_type_name P_CHOICE = ''choice''"
| "prop_get_type_name P_SELECT = ''select''"
| "prop_get_type_name P_IMPLY = ''imply''"
| "prop_get_type_name P_RANGE = ''range''"
| "prop_get_type_name P_SYMBOL = ''symbol''"
| "prop_get_type_name P_UNKNOWN = ''unknown''"

section \<open>Search results\<close>

text \<open>\<open>struct sym_match\<close>, with the name of the symbol, and the order of the results.\<close>

record sym_match =
  sm_name :: string
  sm_so :: int
  sm_eo :: int

definition sym_rel_comp :: "sym_match \<Rightarrow> sym_match \<Rightarrow> int" where
  "sym_rel_comp s1 s2 =
     (let exact1 = (sm_eo s1 - sm_so s1 = int (length (sm_name s1)));
          exact2 = (sm_eo s2 - sm_so s2 = int (length (sm_name s2)))
      in if exact1 \<and> \<not> exact2 then - 1
         else if \<not> exact1 \<and> exact2 then 1
         else strcmp (sm_name s1) (sm_name s2))"

section \<open>Strings with symbols in them\<close>

definition SYMBOL_MAXLENGTH :: nat where "SYMBOL_MAXLENGTH = 256"

definition name_char :: "char \<Rightarrow> bool" where
  "name_char c \<longleftrightarrow> (case digit_val c of Some _ \<Rightarrow> True | None \<Rightarrow> False) \<or> c = CHR ''_''"

text \<open>The value of a name, empty for an unknown symbol.\<close>

definition name_value :: "string \<Rightarrow> kstate \<Rightarrow> (string \<times> kstate) option" where
  "name_value name K =
     (case sym_find (Some name) K of
        None \<Rightarrow> Some ([], K)
      | Some s \<Rightarrow> do { (_, K) \<leftarrow> calc_sym s K; get_string_value calc_sym s K })"

text \<open>
  The loop of \<open>sym_expand_string_value\<close>, with the buffer \<open>res\<close> of \<open>reslen\<close> bytes:
  what does not fit has no result, and neither has a name of \<open>SYMBOL_MAXLENGTH\<close>
  characters or more, which overruns the array \<open>name\<close>.
\<close>

function expand_loop :: "string \<Rightarrow> nat \<Rightarrow> string \<Rightarrow> kstate \<Rightarrow> (string \<times> kstate) option" where
  "expand_loop res reslen inp K =
     (if CHR ''$'' \<notin> set inp then
        (if length res + length inp + 1 > reslen then None else Some (res @ inp, K))
      else
        (let pre = takeWhile (\<lambda>c. c \<noteq> CHR ''$'') inp;
             src = tl (dropWhile (\<lambda>c. c \<noteq> CHR ''$'') inp);
             name = takeWhile name_char src;
             src = dropWhile name_char src;
             res = res @ pre
         in if length res + 1 > reslen then None
            else if length name \<ge> SYMBOL_MAXLENGTH then None
            else do {
              (symval, K) \<leftarrow> name_value name K;
              let newlen = length res + length symval + length src + 1;
              let reslen = (if newlen > reslen then newlen else reslen);
              if length res + length symval + 1 > reslen then None
              else expand_loop (res @ symval) reslen src K }))"
  by pat_completeness auto

lemma expand_decreases:
  "CHR ''$'' \<in> set inp \<Longrightarrow> length (dropWhile p (tl (dropWhile (\<lambda>c. c \<noteq> CHR ''$'') inp))) < length inp"
proof -
  assume "CHR ''$'' \<in> set inp"
  then obtain c cs where d: "dropWhile (\<lambda>c. c \<noteq> CHR ''$'') inp = c # cs"
    by (metis (full_types) dropWhile_eq_Nil_conv neq_Nil_conv)
  have "length (dropWhile p cs) \<le> length cs" by (rule length_dropWhile_le)
  moreover have "length (c # cs) \<le> length inp" using length_dropWhile_le [of _ inp] by (metis d)
  ultimately show ?thesis by (simp add: d)
qed

termination expand_loop
  by (relation "measure (\<lambda>(_, _, inp, _). length inp)") (auto simp: expand_decreases)

declare expand_loop.simps [simp del]

definition sym_expand_string_value :: "string \<Rightarrow> kstate \<Rightarrow> (string \<times> kstate) option" where
  "sym_expand_string_value inp K = expand_loop [] (length inp + 1) inp K"

text \<open>\<open>sym_escape_string_value\<close>: the size of the buffer, and what is written into it.\<close>

definition is_special :: "char \<Rightarrow> bool" where
  "is_special c \<longleftrightarrow> c = CHR 0x22 \<or> c = CHR 0x5c"

definition escape_size :: "string \<Rightarrow> nat" where
  "escape_size inp = length inp + 2 + 1 + length (filter is_special inp)"

fun escape_body :: "string \<Rightarrow> string" where
  "escape_body [] = []"
| "escape_body (c # cs) = (if is_special c then CHR 0x5c # c # escape_body cs else c # escape_body cs)"

definition sym_escape_string_value :: "string \<Rightarrow> string option" where
  "sym_escape_string_value inp =
     (let res = CHR 0x22 # escape_body inp @ [CHR 0x22] in
      if length res + 1 > escape_size inp then None else Some res)"

section \<open>The interface of a symbol table\<close>

text \<open>The three kinds of lookups of the program.\<close>

datatype lookup_kind = Plain | Const | Choice

fun kind_flags :: "lookup_kind \<Rightarrow> symflag set" where
  "kind_flags Plain = {}"
| "kind_flags Const = {SYMBOL_CONST}"
| "kind_flags Choice = {SYMBOL_CHOICE}"

text \<open>The names \<open>y\<close>, \<open>m\<close> and \<open>n\<close> belong to static symbols, which are not in the table.\<close>

definition ordinary :: "string \<Rightarrow> bool" where
  "ordinary name \<longleftrightarrow> static_sym name = None"

text \<open>
  A dictionary from names and kinds to symbols: a lookup returns the entry, and
  makes one where there is none; every symbol has one name and one kind.
\<close>

locale symbol_table =
  fixes inv :: "'s \<Rightarrow> bool"
    and entry :: "'s \<Rightarrow> string \<times> lookup_kind \<Rightarrow> symref option"
    and lookup :: "string \<times> lookup_kind \<Rightarrow> 's \<Rightarrow> symref \<times> 's"
  assumes lookup_inv: "inv s \<Longrightarrow> ordinary (fst k) \<Longrightarrow> inv (snd (lookup k s))"
    and lookup_hit: "inv s \<Longrightarrow> ordinary (fst k) \<Longrightarrow> entry s k = Some x \<Longrightarrow> lookup k s = (x, s)"
    and lookup_miss: "inv s \<Longrightarrow> ordinary (fst k) \<Longrightarrow> entry s k = None \<Longrightarrow>
          entry (snd (lookup k s)) = (entry s)(k \<mapsto> fst (lookup k s))"
    and entry_inj: "inv s \<Longrightarrow> entry s k = Some x \<Longrightarrow> entry s k' = Some x \<Longrightarrow> k = k'"
begin

lemma lookup_entry:
  assumes "inv s" "ordinary (fst k)"
  shows "entry (snd (lookup k s)) k = Some (fst (lookup k s))"
proof (cases "entry s k")
  case None
  then show ?thesis using lookup_miss [OF assms] by simp
next
  case (Some x)
  then show ?thesis using lookup_hit [OF assms] by simp
qed

lemma lookup_keeps:
  assumes "inv s" "ordinary (fst k)" "entry s k' = Some x"
  shows "entry (snd (lookup k s)) k' = Some x"
  using assms lookup_miss [OF assms(1,2)] lookup_hit [OF assms(1,2)] by (cases "entry s k") auto

text \<open>Any sequence of lookups.\<close>

fun lookups :: "(string \<times> lookup_kind) list \<Rightarrow> 's \<Rightarrow> 's" where
  "lookups [] s = s"
| "lookups (k # ks) s = lookups ks (snd (lookup k s))"

lemma lookups_inv: "inv s \<Longrightarrow> \<forall>k \<in> set ks. ordinary (fst k) \<Longrightarrow> inv (lookups ks s)"
  by (induction ks arbitrary: s) (simp_all add: lookup_inv)

lemma lookups_keep:
  "inv s \<Longrightarrow> \<forall>k \<in> set ks. ordinary (fst k) \<Longrightarrow> entry s k' = Some x \<Longrightarrow> entry (lookups ks s) k' = Some x"
  by (induction ks arbitrary: s) (simp_all add: lookup_inv lookup_keeps)

text \<open>A name once looked up keeps its symbol, and different keys have different symbols.\<close>

lemma lookup_stable:
  assumes "inv s" "ordinary (fst k)" "\<forall>k \<in> set ks. ordinary (fst k)" "ordinary (fst k')"
  defines "s1 \<equiv> lookups ks (snd (lookup k s))"
  shows "fst (lookup k' s1) = fst (lookup k s) \<longleftrightarrow> k' = k"
proof -
  have inv: "inv s1" unfolding s1_def by (rule lookups_inv [OF lookup_inv [OF assms(1,2)] assms(3)])
  have k: "entry s1 k = Some (fst (lookup k s))"
    unfolding s1_def by (rule lookups_keep [OF lookup_inv [OF assms(1,2)] assms(3) lookup_entry [OF assms(1,2)]])
  show ?thesis
  proof
    assume same: "fst (lookup k' s1) = fst (lookup k s)"
    have "entry (snd (lookup k' s1)) k = Some (fst (lookup k s))"
      by (rule lookup_keeps [OF inv assms(4) k])
    then show "k' = k"
      using entry_inj [OF lookup_inv [OF inv assms(4)]] lookup_entry [OF inv assms(4)] same by metis
  qed (use lookup_hit [OF inv assms(4)] k in simp)
qed

end

section \<open>The hash table provides the interface\<close>

definition kind_of :: "symflag set \<Rightarrow> lookup_kind" where
  "kind_of fl = (if SYMBOL_CONST \<in> fl then Const else if SYMBOL_CHOICE \<in> fl then Choice else Plain)"

definition key_of :: "kstate \<Rightarrow> symref \<Rightarrow> (string \<times> lookup_kind) option" where
  "key_of K s = (case s_name (k_tab K s) of None \<Rightarrow> None | Some nm \<Rightarrow> Some (nm, kind_of (s_flags (k_tab K s))))"

text \<open>
  Every symbol in a bucket is allocated and belongs there, no symbol is both a
  constant and a choice, and no two have the same key.
\<close>

definition table_ok :: "kstate \<Rightarrow> bool" where
  "table_ok K \<longleftrightarrow>
     (\<forall>h. \<forall>s \<in> set (k_hash K h).
        (\<exists>n < k_nsyms K. s = Sym n) \<and>
        h = (case s_name (k_tab K s) of None \<Rightarrow> 0 | Some nm \<Rightarrow> bucket_of nm) \<and>
        \<not> {SYMBOL_CONST, SYMBOL_CHOICE} \<subseteq> s_flags (k_tab K s)) \<and>
     (\<forall>h. \<forall>s \<in> set (k_hash K h). \<forall>t \<in> set (k_hash K h). key_of K s = key_of K t \<longrightarrow> key_of K s \<noteq> None \<longrightarrow> s = t)"

definition sym_entry :: "kstate \<Rightarrow> string \<times> lookup_kind \<Rightarrow> symref option" where
  "sym_entry K k = find (\<lambda>s. key_of K s = Some k) (k_hash K (bucket_of (fst k)))"

definition lookup_key :: "string \<times> lookup_kind \<Rightarrow> kstate \<Rightarrow> symref \<times> kstate" where
  "lookup_key k K = sym_lookup (Some (fst k)) (kind_flags (snd k)) K"

lemma table_okD:
  assumes "table_ok K" "s \<in> set (k_hash K h)"
  shows "\<exists>n < k_nsyms K. s = Sym n"
    and "h = (case s_name (k_tab K s) of None \<Rightarrow> 0 | Some nm \<Rightarrow> bucket_of nm)"
    and "\<not> {SYMBOL_CONST, SYMBOL_CHOICE} \<subseteq> s_flags (k_tab K s)"
  using assms unfolding table_ok_def by blast+

lemma find_cong_set: "(\<And>x. x \<in> set xs \<Longrightarrow> P x = Q x) \<Longrightarrow> find P xs = find Q xs"
  by (induction xs) auto

lemma find_Some_unique: "find P xs = Some x \<longleftrightarrow> x \<in> set xs \<and> P x" if "\<And>y z. y \<in> set xs \<Longrightarrow> z \<in> set xs \<Longrightarrow> P y \<Longrightarrow> P z \<Longrightarrow> y = z"
  using that by (induction xs) auto

lemma kind_flags_match:
  "\<not> {SYMBOL_CONST, SYMBOL_CHOICE} \<subseteq> fl \<Longrightarrow> flags_match (kind_flags kd) fl \<longleftrightarrow> kind_of fl = kd"
  by (cases kd) (auto simp: flags_match_def kind_of_def)

lemma lookup_key_eq:
  assumes "table_ok K" "ordinary (fst k)"
  shows "lookup_key k K =
           (case sym_entry K k of Some s \<Rightarrow> (s, K) | None \<Rightarrow> insert_symbol (bucket_of (fst k)) (Some (fst k)) (kind_flags (snd k)) K)"
proof -
  have "(s_name (k_tab K s) = Some (fst k) \<and> flags_match (kind_flags (snd k)) (s_flags (k_tab K s))) \<longleftrightarrow> key_of K s = Some k"
    if "s \<in> set (k_hash K (bucket_of (fst k)))" for s
    using kind_flags_match [OF table_okD(3) [OF assms(1) that]] by (cases k) (auto simp: key_of_def split: option.splits)
  then have "find (\<lambda>s. s_name (k_tab K s) = Some (fst k) \<and> flags_match (kind_flags (snd k)) (s_flags (k_tab K s)))
      (k_hash K (bucket_of (fst k))) = sym_entry K k"
    unfolding sym_entry_def by (rule find_cong_set)
  then show ?thesis using assms(2) by (simp add: lookup_key_def sym_lookup_def ordinary_def)
qed

lemma sym_entry_iff:
  assumes "table_ok K"
  shows "sym_entry K k = Some s \<longleftrightarrow> s \<in> set (k_hash K (bucket_of (fst k))) \<and> key_of K s = Some k"
  unfolding sym_entry_def
  by (rule find_Some_unique) (use assms in \<open>unfold table_ok_def, fastforce\<close>)

lemma insert_tab:
  "k_tab (snd (insert_symbol h nm fl K)) s = (if s = Sym (k_nsyms K) then new_symbol nm fl else k_tab K s)"
  by (simp add: insert_symbol_def Let_def)

lemma insert_key:
  "key_of (snd (insert_symbol h (Some nm) (kind_flags kd) K)) s =
     (if s = Sym (k_nsyms K) then Some (nm, kd) else key_of K s)"
  by (cases kd) (auto simp: key_of_def insert_tab new_symbol_def kind_of_def split: option.splits)

lemma insert_hash:
  "set (k_hash (snd (insert_symbol h nm fl K)) h') = set (k_hash K h') \<union> (if h' = h then {Sym (k_nsyms K)} else {})"
  by (simp add: insert_symbol_def Let_def)

lemma insert_ok:
  assumes "table_ok K" "sym_entry K k = None"
  shows "table_ok (snd (insert_symbol (bucket_of (fst k)) (Some (fst k)) (kind_flags (snd k)) K))"
proof -
  let ?K = "snd (insert_symbol (bucket_of (fst k)) (Some (fst k)) (kind_flags (snd k)) K)"
  have fresh: "Sym (k_nsyms K) \<notin> set (k_hash K h)" for h
    using table_okD(1) [OF assms(1)] by fastforce
  have none: "s \<in> set (k_hash K (bucket_of (fst k))) \<Longrightarrow> key_of K s \<noteq> Some k" for s
    using sym_entry_iff [OF assms(1), of k s] assms(2) by auto
  have tab: "k_tab ?K s = (if s = Sym (k_nsyms K) then new_symbol (Some (fst k)) (kind_flags (snd k)) else k_tab K s)" for s
    by (rule insert_tab)
  have n: "k_nsyms ?K = k_nsyms K + 1" by (simp add: insert_symbol_def Let_def)
  have key: "key_of ?K s = (if s = Sym (k_nsyms K) then Some k else key_of K s)" for s
    using insert_key [of "bucket_of (fst k)" "fst k" "snd k" K s] by simp
  show ?thesis
    unfolding table_ok_def
  proof (intro conjI allI ballI impI)
    fix h s assume s: "s \<in> set (k_hash ?K h)"
    show "\<exists>m < k_nsyms ?K. s = Sym m"
      using s table_okD(1) [OF assms(1), of s h] by (auto simp: insert_hash n split: if_splits intro: less_SucI)
    show "h = (case s_name (k_tab ?K s) of None \<Rightarrow> 0 | Some nm \<Rightarrow> bucket_of nm)"
      using s fresh table_okD(2) [OF assms(1), of s h] by (auto simp: insert_hash tab new_symbol_def split: if_splits)
    show "\<not> {SYMBOL_CONST, SYMBOL_CHOICE} \<subseteq> s_flags (k_tab ?K s)"
    proof -
      have "\<not> {SYMBOL_CONST, SYMBOL_CHOICE} \<subseteq> s_flags (new_symbol nm (kind_flags kd))" for nm kd
        by (cases kd) (simp_all add: new_symbol_def)
      then show ?thesis
        using s fresh table_okD(3) [OF assms(1), of s h]
        by (cases "s = Sym (k_nsyms K)") (simp_all add: insert_hash tab split: if_splits)
    qed
  next
    fix h s t assume s: "s \<in> set (k_hash ?K h)" "t \<in> set (k_hash ?K h)" "key_of ?K s = key_of ?K t" "key_of ?K s \<noteq> None"
    have old: "s \<in> set (k_hash K h) \<Longrightarrow> t \<in> set (k_hash K h) \<Longrightarrow> key_of K s = key_of K t \<Longrightarrow> key_of K s \<noteq> None \<Longrightarrow> s = t"
      using assms(1) unfolding table_ok_def by blast
    show "s = t"
      using s old none fresh by (auto simp: insert_hash key split: if_splits)
  qed
qed

interpretation symtab: symbol_table table_ok sym_entry lookup_key
proof
  fix K and k :: "string \<times> lookup_kind" assume ok: "table_ok K" "ordinary (fst k)"
  show "table_ok (snd (lookup_key k K))"
    using ok insert_ok [OF ok(1)] by (cases "sym_entry K k") (simp_all add: lookup_key_eq)
  show "sym_entry K k = Some x \<Longrightarrow> lookup_key k K = (x, K)" for x
    using ok by (simp add: lookup_key_eq)
  assume none: "sym_entry K k = None"
  let ?K = "snd (insert_symbol (bucket_of (fst k)) (Some (fst k)) (kind_flags (snd k)) K)"
  have fresh: "Sym (k_nsyms K) \<notin> set (k_hash K h)" for h
    using table_okD(1) [OF ok(1)] by fastforce
  have "sym_entry ?K k' = (if k' = k then Some (Sym (k_nsyms K)) else sym_entry K k')" for k'
  proof -
    have "sym_entry ?K k' = Some s \<longleftrightarrow> (if k' = k then Some (Sym (k_nsyms K)) else sym_entry K k') = Some s" for s
      using sym_entry_iff [OF insert_ok [OF ok(1) none]] sym_entry_iff [OF ok(1)] fresh none
        insert_key [of "bucket_of (fst k)" "fst k" "snd k" K] sym_entry_iff [OF ok(1), of k s]
      by (auto simp: insert_hash)
    then show ?thesis by (metis option.exhaust)
  qed
  then show "sym_entry (snd (lookup_key k K)) = (sym_entry K)(k \<mapsto> fst (lookup_key k K))"
    using none ok by (auto simp: lookup_key_eq fun_eq_iff) (simp_all add: insert_symbol_def Let_def)
next
  fix K x and k k' :: "string \<times> lookup_kind" assume "table_ok K" "sym_entry K k = Some x" "sym_entry K k' = Some x"
  then show "k = k'" by (simp add: sym_entry_iff)
qed

section \<open>Properties of the table\<close>

fun lookup_all :: "(string \<times> lookup_kind) list \<Rightarrow> kstate \<Rightarrow> kstate" where
  "lookup_all [] K = K"
| "lookup_all (k # ks) K = lookup_all ks (snd (lookup_key k K))"

lemma lookup_all_eq: "symtab.lookups ks K = lookup_all ks K"
  by (induction ks arbitrary: K) simp_all

definition empty_table :: kstate where
  "empty_table =
     \<lparr>k_tab = (\<lambda>_. new_symbol None {}), k_nsyms = 0, k_hash = (\<lambda>_. []), k_modules_sym = symbol_no,
      k_modules_val = tri_no, k_menu_changed = {}, k_changes = 0\<rparr>"

lemma empty_table_ok: "table_ok empty_table"
  by (simp add: table_ok_def empty_table_def)

text \<open>
  C15: names are interned. From a well-formed table, whatever is looked up in
  between, a later lookup returns the same symbol just when it is for the same name
  and the same kind; the table stays well-formed.
\<close>

theorem lookup_interns:
  assumes "table_ok K" "ordinary (fst k)" "list_all (\<lambda>k. ordinary (fst k)) ks" "ordinary (fst k')"
  shows "table_ok (lookup_all ks (snd (lookup_key k K))) \<and>
         (fst (lookup_key k' (lookup_all ks (snd (lookup_key k K)))) = fst (lookup_key k K) \<longleftrightarrow> k' = k)"
  using symtab.lookup_stable [OF assms(1,2) _ assms(4), of ks] assms
    symtab.lookups_inv [OF symtab.lookup_inv [OF assms(1,2)], of ks]
  by (simp add: lookup_all_eq list_all_iff)

theorem lookup_interns_witness:
  "fst (lookup_key (''FOO'', Plain) (lookup_all [(''BAR'', Plain), (''FOO'', Const)] (snd (lookup_key (''FOO'', Plain) empty_table))))
     = fst (lookup_key (''FOO'', Plain) empty_table)"
  using lookup_interns [OF empty_table_ok, of "(''FOO'', Plain)" "[(''BAR'', Plain), (''FOO'', Const)]" "(''FOO'', Plain)"]
  by (simp add: ordinary_def static_sym_def)

text \<open>
  \<open>sym_find\<close> finds a symbol just when the name belongs to a symbol that is no
  constant; where no choice has the name, it is the symbol that \<open>sym_lookup\<close> returns
  without flags.
\<close>

theorem sym_find_lookup:
  assumes "table_ok K" "ordinary name"
  shows "(sym_find (Some name) K = None \<longleftrightarrow> sym_entry K (name, Plain) = None \<and> sym_entry K (name, Choice) = None) \<and>
         (sym_entry K (name, Choice) = None \<longrightarrow>
            sym_find (Some name) (snd (lookup_key (name, Plain) K)) = Some (fst (lookup_key (name, Plain) K)))"
proof -
  have find: "sym_find (Some name) K' =
      find (\<lambda>s. key_of K' s = Some (name, Plain) \<or> key_of K' s = Some (name, Choice)) (k_hash K' (bucket_of name))" for K'
  proof -
    have "(s_name (k_tab K' s) = Some name \<and> SYMBOL_CONST \<notin> s_flags (k_tab K' s)) \<longleftrightarrow>
          key_of K' s = Some (name, Plain) \<or> key_of K' s = Some (name, Choice)" for s
      by (auto simp: key_of_def kind_of_def split: option.splits)
    then show ?thesis using assms(2) by (simp add: sym_find_def ordinary_def)
  qed
  have none: "sym_entry K' k = None \<longleftrightarrow> (\<forall>s \<in> set (k_hash K' (bucket_of (fst k))). key_of K' s \<noteq> Some k)" for K' k
    by (auto simp: sym_entry_def find_None_iff)
  have some: "sym_find (Some name) K' = sym_entry K' (name, Plain)" if "sym_entry K' (name, Choice) = None" for K'
    unfolding find sym_entry_def using that unfolding none by (auto intro!: find_cong_set)
  have "sym_entry (snd (lookup_key (name, Plain) K)) (name, Choice) = None"
    if "sym_entry K (name, Choice) = None"
    using that symtab.lookup_miss [OF assms(1), of "(name, Plain)"] symtab.lookup_hit [OF assms(1), of "(name, Plain)"] assms(2)
    by (cases "sym_entry K (name, Plain)") auto
  then have "sym_entry K (name, Choice) = None \<Longrightarrow>
      sym_find (Some name) (snd (lookup_key (name, Plain) K)) = Some (fst (lookup_key (name, Plain) K))"
    using some [of "snd (lookup_key (name, Plain) K)"] symtab.lookup_entry [OF assms(1), of "(name, Plain)"] assms(2)
    by simp
  moreover have "sym_find (Some name) K = None \<longleftrightarrow> sym_entry K (name, Plain) = None \<and> sym_entry K (name, Choice) = None"
    unfolding find none find_None_iff by auto
  ultimately show ?thesis by blast
qed

theorem sym_find_lookup_witness:
  "sym_find (Some ''FOO'') empty_table = None \<and>
   sym_find (Some ''FOO'') (snd (lookup_key (''FOO'', Plain) empty_table)) = Some (Sym 0)"
  using sym_find_lookup [OF empty_table_ok, of "''FOO''"]
  by (simp add: ordinary_def static_sym_def sym_entry_def empty_table_def lookup_key_def sym_lookup_def insert_symbol_def Let_def)

section \<open>The order of search results\<close>

lemma strcmp_swap: "strcmp ys xs = - strcmp xs ys"
  by (induction xs ys rule: strcmp.induct) auto

lemma strcmp_values: "strcmp xs ys \<in> {- 1, 0, 1}"
  by (induction xs ys rule: strcmp.induct) auto

lemma strcmp_trans: "strcmp xs ys \<le> 0 \<Longrightarrow> strcmp ys zs \<le> 0 \<Longrightarrow> strcmp xs zs \<le> 0"
proof (induction xs arbitrary: ys zs)
  case Nil
  then show ?case by (cases zs) simp_all
next
  case (Cons x xs)
  then obtain y ys' where ys: "ys = y # ys'" by (cases ys) auto
  then obtain z zs' where zs: "zs = z # zs'" using Cons.prems by (cases zs) auto
  show ?case using Cons.prems Cons.IH [of ys' zs'] by (auto simp: ys zs split: if_splits)
qed

text \<open>
  \<open>sym_rel_comp\<close> is an order, as \<open>qsort\<close> requires: swapping the arguments negates
  the result, it is transitive, and only results with the same name that are both
  exact or both not are equal.
\<close>

theorem rel_comp_order:
  "sym_rel_comp b a = - sym_rel_comp a b \<and>
   (sym_rel_comp a b \<le> 0 \<and> sym_rel_comp b c \<le> 0 \<longrightarrow> sym_rel_comp a c \<le> 0) \<and>
   (sym_rel_comp a b = 0 \<longrightarrow> sm_name a = sm_name b)"
  using strcmp_trans [of "sm_name a" "sm_name b" "sm_name c"] strcmp_swap [of "sm_name a" "sm_name b"]
  by (auto simp: sym_rel_comp_def Let_def)

theorem rel_comp_order_witness:
  "sym_rel_comp \<lparr>sm_name = ''BR2_ARM'', sm_so = 0, sm_eo = 7\<rparr> \<lparr>sm_name = ''BR2_AMD'', sm_so = 0, sm_eo = 3\<rparr> =
   - sym_rel_comp \<lparr>sm_name = ''BR2_AMD'', sm_so = 0, sm_eo = 3\<rparr> \<lparr>sm_name = ''BR2_ARM'', sm_so = 0, sm_eo = 7\<rparr> \<and>
   sym_rel_comp \<lparr>sm_name = ''BR2_ARM'', sm_so = 0, sm_eo = 7\<rparr> \<lparr>sm_name = ''BR2_AMD'', sm_so = 0, sm_eo = 3\<rparr> = - 1"
  using rel_comp_order [of "\<lparr>sm_name = ''BR2_ARM'', sm_so = 0, sm_eo = 7\<rparr>" "\<lparr>sm_name = ''BR2_AMD'', sm_so = 0, sm_eo = 3\<rparr>"]
  by (simp add: sym_rel_comp_def)

section \<open>Expansion stays in its buffer\<close>

text \<open>The reference: the expansion without a buffer.\<close>

function expand_text :: "string \<Rightarrow> kstate \<Rightarrow> (string \<times> kstate) option" where
  "expand_text inp K =
     (if CHR ''$'' \<notin> set inp then Some (inp, K)
      else
        (let src = tl (dropWhile (\<lambda>c. c \<noteq> CHR ''$'') inp);
             name = takeWhile name_char src
         in if length name \<ge> SYMBOL_MAXLENGTH then None
            else do {
              (symval, K) \<leftarrow> name_value name K;
              (rest, K) \<leftarrow> expand_text (dropWhile name_char src) K;
              Some (takeWhile (\<lambda>c. c \<noteq> CHR ''$'') inp @ symval @ rest, K) }))"
  by pat_completeness auto
termination expand_text
  by (relation "measure (\<lambda>(inp, _). length inp)") (auto simp: expand_decreases)

declare expand_text.simps [simp del]

lemma split_length: "CHR ''$'' \<in> set inp \<Longrightarrow>
  length inp = length (takeWhile (\<lambda>c. c \<noteq> CHR ''$'') inp) + Suc (length (tl (dropWhile (\<lambda>c. c \<noteq> CHR ''$'') inp)))"
proof -
  assume "CHR ''$'' \<in> set inp"
  then obtain c cs where d: "dropWhile (\<lambda>c. c \<noteq> CHR ''$'') inp = c # cs"
    by (metis (full_types) dropWhile_eq_Nil_conv neq_Nil_conv)
  have "length inp = length (takeWhile (\<lambda>c. c \<noteq> CHR ''$'') inp) + length (dropWhile (\<lambda>c. c \<noteq> CHR ''$'') inp)"
    by (metis length_append takeWhile_dropWhile_id)
  then show ?thesis by (simp add: d)
qed

lemma expand_loop_text:
  "length res + length inp + 1 \<le> reslen \<Longrightarrow>
     expand_loop res reslen inp K =
       (case expand_text inp K of None \<Rightarrow> None | Some (out, K) \<Rightarrow> Some (res @ out, K))"
proof (induction res reslen inp K rule: expand_loop.induct)
  case (1 res reslen inp K)
  show ?case
  proof (cases "CHR ''$'' \<in> set inp")
    case False
    then show ?thesis using 1(2) by (simp add: expand_loop.simps [of _ _ inp] expand_text.simps [of inp])
  next
    case True
    define pre where "pre = takeWhile (\<lambda>c. c \<noteq> CHR ''$'') inp"
    define src where "src = tl (dropWhile (\<lambda>c. c \<noteq> CHR ''$'') inp)"
    define name where "name = takeWhile name_char src"
    define src' where "src' = dropWhile name_char src"
    have len: "length res + length pre + length src + 2 \<le> reslen"
      using 1(2) split_length [OF True] by (simp add: pre_def src_def)
    have len': "length src' \<le> length src" by (simp add: src'_def length_dropWhile_le)
    have spec: "expand_text inp K =
        (if length name \<ge> SYMBOL_MAXLENGTH then None
         else do { (symval, K) \<leftarrow> name_value name K; (rest, K) \<leftarrow> expand_text src' K; Some (pre @ symval @ rest, K) })"
      unfolding expand_text.simps [of inp K] Let_def pre_def [symmetric] src_def [symmetric]
        name_def [symmetric] src'_def [symmetric]
      using True by simp
    have code: "expand_loop res reslen inp K =
        (if length name \<ge> SYMBOL_MAXLENGTH then None
         else do { (symval, K) \<leftarrow> name_value name K;
                   let newlen = length (res @ pre) + length symval + length src' + 1;
                   let reslen = (if newlen > reslen then newlen else reslen);
                   if length (res @ pre) + length symval + 1 > reslen then None
                   else expand_loop ((res @ pre) @ symval) reslen src' K })"
      unfolding expand_loop.simps [of res reslen inp K] Let_def pre_def [symmetric] src_def [symmetric]
        name_def [symmetric] src'_def [symmetric]
      using True len by simp
    show ?thesis
    proof (cases "length name \<ge> SYMBOL_MAXLENGTH")
      case False
      show ?thesis
      proof (cases "name_value name K")
        case (Some r)
        obtain symval K1 where r: "r = (symval, K1)" by (cases r)
        define newlen where "newlen = length (res @ pre) + length symval + length src' + 1"
        define reslen' where "reslen' = (if newlen > reslen then newlen else reslen)"
        have big: "length (res @ pre) + length symval + length src' + 1 \<le> reslen'"
          by (simp add: reslen'_def newlen_def)
        have step: "expand_loop ((res @ pre) @ symval) reslen' src' K1 =
            (case expand_text src' K1 of None \<Rightarrow> None | Some (out, K) \<Rightarrow> Some (((res @ pre) @ symval) @ out, K))"
          by (rule 1(1) [of pre "tl (dropWhile (\<lambda>c. c \<noteq> CHR ''$'') inp)" name src' "res @ pre" r symval K1 newlen reslen'])
             (use True False len len' big Some r in \<open>simp_all add: pre_def src_def name_def src'_def newlen_def reslen'_def\<close>)
        have "length (res @ pre) + length symval + 1 \<le> reslen'" using big by simp
        then have code': "expand_loop res reslen inp K = expand_loop ((res @ pre) @ symval) reslen' src' K1"
          using False unfolding code Some r Let_def by (simp add: reslen'_def newlen_def)
        show ?thesis
          using False Some r unfolding code' step by (cases "expand_text src' K1") (auto simp: spec)
      qed (simp add: spec code)
    qed (simp add: spec code)
  qed
qed

text \<open>
  C16: the result of \<open>sym_expand_string_value\<close> never outgrows its buffer, whatever
  the values of the symbols: the code computes the expansion of the text.
\<close>

theorem expand_in_bounds: "sym_expand_string_value inp K = expand_text inp K"
  using expand_loop_text [of "[]" inp "length inp + 1" K]
  by (simp add: sym_expand_string_value_def split: option.split prod.split)

end
