(* ===== verification/Menu.thy ===== *)
theory Menu
  imports Symtab Symbol Expr_Normal
begin

text \<open>
  The menu tree of menu.c. An entry is a node with the list of the entries below it;
  the pointers \<open>list\<close>, \<open>next\<close> and \<open>parent\<close> are the place of an entry in this tree. A
  prompt of an entry with a symbol is one of the symbol's properties, given by its
  position; a menu or comment owns its prompt. A property names the entry it belongs
  to by its number. Files and line numbers are not modelled; warnings are values.
\<close>

section \<open>Entries\<close>

datatype prompt_ref = Sym_prompt nat | Own_prompt property

record menu_node =
  n_id :: nat
  n_sym :: "symref option"
  n_prompt :: "prompt_ref option"
  n_visibility :: "expr option"
  n_dep :: "expr option"
  n_help :: "string option"

datatype menu = Menu (m_node: menu_node) (m_list: "menu list")

datatype diag = Menu_warn nat string | Prop_warn string | Zconf_error string

text \<open>
  The state of a traversal: the symbols, the warnings so far, whether the code
  dereferenced a null pointer, from where on the state means nothing, and the symbol
  \<open>menu->parent->sym\<close> of every entry.
\<close>

record mstate =
  ms_k :: kstate
  ms_diags :: "diag list"
  ms_fault :: bool
  ms_outer :: "nat \<Rightarrow> symref option"

abbreviation tab :: "mstate \<Rightarrow> symtab" where "tab M \<equiv> k_tab (ms_k M)"

definition upd :: "symref \<Rightarrow> (symbol \<Rightarrow> symbol) \<Rightarrow> mstate \<Rightarrow> mstate" where
  "upd s f M = M\<lparr>ms_k := upd_sym s f (ms_k M)\<rparr>"

definition diagnose :: "diag \<Rightarrow> mstate \<Rightarrow> mstate" where
  "diagnose d M = M\<lparr>ms_diags := ms_diags M @ [d]\<rparr>"

definition diagnose_if :: "bool \<Rightarrow> diag \<Rightarrow> mstate \<Rightarrow> mstate" where
  "diagnose_if b d M = (if b then diagnose d M else M)"

definition fault :: "mstate \<Rightarrow> mstate" where
  "fault M = M\<lparr>ms_fault := True\<rparr>"

definition prompt_prop :: "symtab \<Rightarrow> menu_node \<Rightarrow> property option" where
  "prompt_prop T n =
     (case n_prompt n of
        None \<Rightarrow> None
      | Some (Own_prompt p) \<Rightarrow> Some p
      | Some (Sym_prompt i) \<Rightarrow> map_option (\<lambda>s. s_prop (T s) ! i) (n_sym n))"

definition name_text :: "symtab \<Rightarrow> symref \<Rightarrow> string" where
  "name_text T s = (case s_name (T s) of Some nm \<Rightarrow> nm | None \<Rightarrow> ''(null)'')"

section \<open>Dependencies\<close>

text \<open>\<open>rewrite_m\<close>; \<open>mods\<close> is \<open>modules_sym\<close>.\<close>

fun rewrite_m :: "symref \<Rightarrow> expr \<Rightarrow> expr" where
  "rewrite_m mods (Enot e) = Enot (rewrite_m mods e)"
| "rewrite_m mods (Eor l r) = Eor (rewrite_m mods l) (rewrite_m mods r)"
| "rewrite_m mods (Eand l r) = Eand (rewrite_m mods l) (rewrite_m mods r)"
| "rewrite_m mods (Esym s) =
     (if s = symbol_mod then Eand (Esym s) (expr_alloc_symbol mods) else Esym s)"
| "rewrite_m mods e = e"

definition copy :: "expr option \<Rightarrow> expr option" where
  "copy e = Option.bind e expr_copy"

definition simplified :: "symtab \<Rightarrow> expr option \<Rightarrow> expr option" where
  "simplified T e = the (expr_eliminate_dups T e)"

text \<open>A condition under the dependencies of the entry around it, simplified.\<close>

definition propagate :: "kstate \<Rightarrow> expr option \<Rightarrow> expr option \<Rightarrow> expr option" where
  "propagate K outer e =
     simplified (k_tab K) (expr_alloc_and (copy outer)
       (map_option (\<lambda>e. expr_transform (k_tab K) (rewrite_m (k_modules_sym K) e)) e))"

section \<open>Types\<close>

definition menu_set_type :: "menu_node \<Rightarrow> symbol_type \<Rightarrow> mstate \<Rightarrow> mstate" where
  "menu_set_type n ty M =
     (case n_sym n of
        None \<Rightarrow> fault M
      | Some s \<Rightarrow>
          (if s_type (tab M s) = ty then M
           else if s_type (tab M s) = S_UNKNOWN then upd s (\<lambda>r. r\<lparr>s_type := ty\<rparr>) M
           else diagnose (Menu_warn (n_id n)
             (''ignoring type redefinition of '' @
              quoted (case s_name (tab M s) of Some nm \<Rightarrow> nm | None \<Rightarrow> ''<choice>'') @
              '' from '' @ quoted (sym_type_name (s_type (tab M s))) @ '' to '' @ quoted (sym_type_name ty))) M))"

text \<open>The type of an untyped choice is that of its first typed value.\<close>

fun choice_type :: "menu_node \<Rightarrow> menu list \<Rightarrow> mstate \<Rightarrow> mstate" where
  "choice_type n [] M = M"
| "choice_type n (c # cs) M =
     (case n_sym (m_node c) of
        Some v \<Rightarrow> (if s_type (tab M v) \<noteq> S_UNKNOWN then menu_set_type n (s_type (tab M v)) M
                   else choice_type n cs M)
      | None \<Rightarrow> choice_type n cs M)"

definition value_type :: "symref \<Rightarrow> menu \<Rightarrow> mstate \<Rightarrow> mstate" where
  "value_type s c M =
     (case n_sym (m_node c) of
        Some v \<Rightarrow> (if s_type (tab M v) = S_UNKNOWN then menu_set_type (m_node c) (s_type (tab M s)) M else M)
      | None \<Rightarrow> M)"

definition choice_types :: "menu_node \<Rightarrow> symref \<Rightarrow> menu list \<Rightarrow> mstate \<Rightarrow> mstate" where
  "choice_types n s cs M =
     fold (value_type s) cs (if s_type (tab M s) = S_UNKNOWN then choice_type n cs M else M)"

section \<open>Conditions of properties\<close>

definition set_vis :: "symref \<Rightarrow> nat \<Rightarrow> expr option \<Rightarrow> mstate \<Rightarrow> mstate" where
  "set_vis s i e M = upd s (\<lambda>r. r\<lparr>s_prop := (s_prop r)[i := (s_prop r ! i)\<lparr>p_vis_expr := e\<rparr>]\<rparr>) M"

text \<open>A selection or implication by the entry of \<open>s\<close> under \<open>dep\<close>.\<close>

definition add_reverse :: "symref \<Rightarrow> property \<Rightarrow> expr option \<Rightarrow> mstate \<Rightarrow> mstate" where
  "add_reverse s p dep M =
     (if p_type p = P_SELECT then
        (case prop_get_symbol p of
           None \<Rightarrow> fault M
         | Some es \<Rightarrow> upd es (\<lambda>r. r\<lparr>s_rev_dep :=
             expr_alloc_or (s_rev_dep r) (expr_alloc_and (Some (expr_alloc_symbol s)) (copy dep))\<rparr>) M)
      else if p_type p = P_IMPLY then
        (case prop_get_symbol p of
           None \<Rightarrow> fault M
         | Some es \<Rightarrow> upd es (\<lambda>r. r\<lparr>s_implied :=
             expr_alloc_or (s_implied r) (expr_alloc_and (Some (expr_alloc_symbol s)) (copy dep))\<rparr>) M)
      else M)"

definition finalize_prop :: "nat \<Rightarrow> symref \<Rightarrow> expr option \<Rightarrow> nat \<Rightarrow> mstate \<Rightarrow> mstate" where
  "finalize_prop entry s basedep i M =
     (let p = s_prop (tab M s) ! i in
      if p_menu p \<noteq> Some entry then M
      else
        (let dep = propagate (ms_k M) basedep (p_vis_expr p);
             dep = (if s_type (tab M s) \<noteq> S_TRISTATE then map_option (expr_trans_bool (tab M)) dep else dep)
         in add_reverse s p dep (set_vis s i dep M)))"

definition finalize_child :: "expr option \<Rightarrow> menu \<Rightarrow> mstate \<Rightarrow> menu \<times> mstate" where
  "finalize_child parentdep c M =
     (let n = m_node c;
          basedep = propagate (ms_k M) parentdep (n_dep n);
          n = n\<lparr>n_dep := basedep\<rparr>
      in case n_sym n of
           Some s \<Rightarrow> (Menu n (m_list c), fold (finalize_prop (n_id n) s basedep) [0..<length (s_prop (tab M s))] M)
         | None \<Rightarrow>
             (case n_prompt n of
                Some (Own_prompt p) \<Rightarrow>
                  (Menu (n\<lparr>n_prompt := Some (Own_prompt
                     (p\<lparr>p_vis_expr := propagate (ms_k M) basedep (p_vis_expr p)\<rparr>))\<rparr>) (m_list c), M)
              | _ \<Rightarrow> (Menu n (m_list c), M)))"

fun finalize_children :: "expr option \<Rightarrow> menu list \<Rightarrow> mstate \<Rightarrow> menu list \<times> mstate" where
  "finalize_children parentdep [] M = ([], M)"
| "finalize_children parentdep (c # cs) M =
     (let (c', M1) = finalize_child parentdep c M;
          (cs', M2) = finalize_children parentdep cs M1
      in (c' # cs', M2))"

text \<open>The dependency the entries below an entry inherit.\<close>

definition parent_dep :: "menu_node \<Rightarrow> mstate \<Rightarrow> expr option" where
  "parent_dep n M =
     (case n_sym n of
        Some s \<Rightarrow>
          (if sym_is_choice (ms_k M) s then Some (expr_alloc_symbol s)
           else case prompt_prop (tab M) n of Some p \<Rightarrow> p_vis_expr p | None \<Rightarrow> n_dep n)
      | None \<Rightarrow> (case prompt_prop (tab M) n of Some p \<Rightarrow> p_vis_expr p | None \<Rightarrow> n_dep n))"

section \<open>Checks of properties: \<open>sym_check_prop\<close>\<close>

definition menu_validate_number :: "symtab \<Rightarrow> symref \<Rightarrow> symref \<Rightarrow> bool" where
  "menu_validate_number T s s2 \<longleftrightarrow>
     s_type (T s2) = S_INT \<or> s_type (T s2) = S_HEX \<or>
     (s_type (T s2) = S_UNKNOWN \<and> sym_string_valid (s_type (T s)) (name_text T s2))"

definition check_default :: "symref \<Rightarrow> property \<Rightarrow> mstate \<Rightarrow> mstate" where
  "check_default s p M =
     (let T = tab M;
          M = diagnose_if ((s_type (T s) = S_STRING \<or> s_type (T s) = S_INT \<or> s_type (T s) = S_HEX) \<and>
                (\<forall>a \<in> set_option (p_expr p). etype a \<noteq> E_SYMBOL))
              (Prop_warn (''default for config symbol '' @ quoted (name_text T s) @ '' must be a single symbol'')) M
      in case p_expr p of
           Some (Esym s2) \<Rightarrow>
             (let M = diagnose_if ((s_type (T s) = S_HEX \<or> s_type (T s) = S_INT) \<and> \<not> menu_validate_number T s s2)
                    (Prop_warn (quoted (name_text T s) @ '': number is invalid'')) M
              in diagnose_if (sym_is_choice (ms_k M) s \<and>
                   (case sym_get_choice_prop (ms_k M) s2 of None \<Rightarrow> True
                    | Some cp \<Rightarrow> prop_get_symbol cp \<noteq> Some s))
                 (Prop_warn (''choice default symbol '' @ quoted (name_text T s2) @ '' is not contained in the choice'')) M)
         | Some _ \<Rightarrow> M
         | None \<Rightarrow> fault M)"

definition check_reverse :: "symref \<Rightarrow> property \<Rightarrow> mstate \<Rightarrow> mstate" where
  "check_reverse s p M =
     (let T = tab M; use = (if p_type p = P_SELECT then ''select'' else ''imply'')
      in case prop_get_symbol p of
           None \<Rightarrow> fault M
         | Some s2 \<Rightarrow>
             (if s_type (T s) \<noteq> S_BOOLEAN \<and> s_type (T s) \<noteq> S_TRISTATE
              then diagnose (Prop_warn (''config symbol '' @ quoted (name_text T s) @ '' uses '' @ use @
                     '', but is not bool or tristate'')) M
              else diagnose_if (s_type (T s2) \<noteq> S_UNKNOWN \<and> s_type (T s2) \<noteq> S_BOOLEAN \<and> s_type (T s2) \<noteq> S_TRISTATE)
                     (Prop_warn (quoted (name_text T s2) @ '' has wrong type. '' @ quoted use @
                        '' only accept arguments of bool and tristate type'')) M))"

definition check_range :: "symref \<Rightarrow> property \<Rightarrow> mstate \<Rightarrow> mstate" where
  "check_range s p M =
     (let T = tab M;
          M = diagnose_if (s_type (T s) \<noteq> S_INT \<and> s_type (T s) \<noteq> S_HEX)
                (Prop_warn ''range is only allowed for int or hex symbols'') M
      in case p_expr p of
           Some (Erange lo hi) \<Rightarrow>
             diagnose_if (\<not> menu_validate_number T s lo \<or> \<not> menu_validate_number T s hi)
               (Prop_warn ''range is invalid'') M
         | _ \<Rightarrow> fault M)"

definition check_prop :: "symref \<Rightarrow> property \<Rightarrow> mstate \<Rightarrow> mstate" where
  "check_prop s p M =
     (if p_type p = P_DEFAULT then check_default s p M
      else if p_type p = P_SELECT \<or> p_type p = P_IMPLY then check_reverse s p M
      else if p_type p = P_RANGE then check_range s p M
      else M)"

definition sym_check_prop :: "symref \<Rightarrow> mstate \<Rightarrow> mstate" where
  "sym_check_prop s M = fold (check_prop s) (s_prop (tab M s)) M"

section \<open>Choice values\<close>

text \<open>The list of a choice grows at its innermost node.\<close>

fun append_value :: "expr option \<Rightarrow> symref \<Rightarrow> expr option" where
  "append_value (Some (Elist rest s)) v = Some (Elist (append_value rest v) s)"
| "append_value (Some e) v = Some e"
| "append_value None v = Some (Elist None v)"

fun update_first :: "('a \<Rightarrow> bool) \<Rightarrow> ('a \<Rightarrow> 'a) \<Rightarrow> 'a list \<Rightarrow> 'a list" where
  "update_first P f [] = []"
| "update_first P f (x # xs) = (if P x then f x # xs else x # update_first P f xs)"

definition add_to_choice :: "symref \<Rightarrow> symref \<Rightarrow> mstate \<Rightarrow> mstate" where
  "add_to_choice s v M =
     (if sym_get_choice_prop (ms_k M) s = None then fault M
      else upd s (\<lambda>r. r\<lparr>s_prop := update_first (\<lambda>p. p_type p = P_CHOICE)
             (\<lambda>p. p\<lparr>p_expr := append_value (p_expr p) v\<rparr>) (s_prop r)\<rparr>) M)"

text \<open>\<open>menu_add_symbol\<close> for \<open>P_CHOICE\<close>: a property that names the choice.\<close>

definition add_choice_prop :: "nat \<Rightarrow> symref \<Rightarrow> symref \<Rightarrow> mstate \<Rightarrow> mstate" where
  "add_choice_prop entry v s M =
     upd v (\<lambda>r. r\<lparr>s_prop := s_prop r @
       [\<lparr>p_type = P_CHOICE, p_text = None, p_vis_expr = None, p_vis_tri = tri_no,
         p_expr = Some (expr_alloc_symbol s), p_menu = Some entry\<rparr>]\<rparr>) M"

definition check_value_prop :: "symref \<Rightarrow> nat \<Rightarrow> property \<Rightarrow> mstate \<Rightarrow> mstate" where
  "check_value_prop s entry p M =
     (let M = diagnose_if (p_type p = P_DEFAULT) (Prop_warn ''defaults for choice values not supported'') M
      in if p_menu p = Some entry \<or> p_type p \<noteq> P_PROMPT then M
         else case p_menu p of
                None \<Rightarrow> fault M
              | Some m \<Rightarrow> diagnose_if (ms_outer M m \<noteq> Some s)
                  (Prop_warn ''choice value used outside its choice group'') M)"

definition depend_on_choice :: "nat \<Rightarrow> symref \<Rightarrow> expr \<Rightarrow> mstate \<Rightarrow> mstate" where
  "depend_on_choice entry v basedep M =
     upd v (\<lambda>r. r\<lparr>s_prop := map (\<lambda>p. if p_menu p = Some entry
       then p\<lparr>p_vis_expr := expr_alloc_and (expr_copy basedep) (p_vis_expr p)\<rparr> else p) (s_prop r)\<rparr>) M"

definition choice_value :: "symref \<Rightarrow> menu_node \<Rightarrow> mstate \<Rightarrow> menu_node \<times> mstate" where
  "choice_value s n M =
     (case n_sym n of
        None \<Rightarrow> (n, M)
      | Some v \<Rightarrow>
          (if \<not> sym_is_choice (ms_k M) s \<or> sym_is_choice_value (ms_k M) v then (n, M)
           else
             (let M = upd v (\<lambda>r. r\<lparr>s_flags := insert SYMBOL_CHOICEVAL (s_flags r)\<rparr>) M;
                  M = diagnose_if (n_prompt n = None) (Menu_warn (n_id n) ''choice value must have a prompt'') M;
                  M = fold (check_value_prop s (n_id n)) (s_prop (tab M v)) M;
                  basedep = expr_alloc_comp EQUAL s symbol_yes;
                  dependent = (s_type (tab M s) = S_TRISTATE \<and> s_type (tab M v) \<noteq> S_TRISTATE);
                  n = (if dependent then n\<lparr>n_dep := expr_alloc_and (Some basedep) (n_dep n)\<rparr> else n);
                  M = (if dependent then depend_on_choice (n_id n) v basedep M else M)
              in (n, add_to_choice s v (add_choice_prop (n_id n) v s M)))))"

section \<open>\<open>menu_finalize\<close>\<close>

fun menu_size :: "menu \<Rightarrow> nat" and list_size :: "menu list \<Rightarrow> nat" where
  "menu_size (Menu n cs) = Suc (list_size cs)"
| "list_size [] = 0"
| "list_size (c # cs) = menu_size c + list_size cs"

definition set_outer :: "symref option \<Rightarrow> menu list \<Rightarrow> mstate \<Rightarrow> mstate" where
  "set_outer outer cs M = M\<lparr>ms_outer := fold (\<lambda>c f. f(n_id (m_node c) := outer)) cs (ms_outer M)\<rparr>"

lemma list_size_append [simp]: "list_size (cs @ ds) = list_size cs + list_size ds"
  by (induction cs) simp_all

lemma menu_size_pos [simp]: "0 < menu_size c"
  by (cases c) simp

text \<open>
  The second loop over the entries: the values of a choice are recorded, and the
  entries below an entry without a prompt move behind it.
\<close>

function flatten :: "menu_node \<Rightarrow> menu list \<Rightarrow> mstate \<Rightarrow> menu list \<times> mstate" where
  "flatten n [] M = ([], M)"
| "flatten n (c # cs) M =
     (let (cn, M1) = (case n_sym n of Some s \<Rightarrow> choice_value s (m_node c) M | None \<Rightarrow> (m_node c, M));
          hidden = (case prompt_prop (tab M1) cn of None \<Rightarrow> True | Some p \<Rightarrow> p_text p = None)
      in if m_list c \<noteq> [] \<and> hidden
         then (let (cs', M2) = flatten n (m_list c @ cs) (set_outer (n_sym n) (m_list c) M1)
               in (Menu cn [] # cs', M2))
         else (let (cs', M2) = flatten n cs M1 in (Menu cn (m_list c) # cs', M2)))"
  by pat_completeness auto
termination flatten
proof (relation "measure (\<lambda>(n, cs, M). list_size cs)", goal_cases)
  case (2 n c cs M)
  then show ?case by (cases c) simp
next
  case (3 n c cs M)
  then show ?case by simp
qed simp

text \<open>The entry depends on \<open>s\<close>: it names it and is n when it is, or is a superset of it.\<close>

definition entry_dep :: "symtab \<Rightarrow> menu_node \<Rightarrow> expr option" where
  "entry_dep T n = (case prompt_prop T n of Some p \<Rightarrow> p_vis_expr p | None \<Rightarrow> n_dep n)"

definition not_n :: "symtab \<Rightarrow> expr option \<Rightarrow> expr option" where
  "not_n T e = simplified T (map_option (expr_transform T) (expr_trans_compare e UNEQUAL symbol_no))"

definition superset_dep :: "symtab \<Rightarrow> expr option \<Rightarrow> expr option \<Rightarrow> bool" where
  "superset_dep T basedep dep =
     (case (not_n T dep, copy basedep) of
        (Some e1, Some e2) \<Rightarrow> (case expr_eliminate_eq e1 e2 0 of (_, e2', _) \<Rightarrow> expr_is_yes (Some e2'))
      | (_, e2) \<Rightarrow> expr_is_yes e2)"

definition depends_on :: "symtab \<Rightarrow> symref \<Rightarrow> expr option \<Rightarrow> menu_node \<Rightarrow> bool" where
  "depends_on T s basedep n =
     (case entry_dep T n of
        None \<Rightarrow> False
      | Some e \<Rightarrow> expr_contains_symbol e s \<and>
          (expr_depends_symbol e s \<or> superset_dep T basedep (Some e)))"

definition add_dir_dep :: "symref \<Rightarrow> expr option \<Rightarrow> mstate \<Rightarrow> mstate" where
  "add_dir_dep s dep M = upd s (\<lambda>r. r\<lparr>s_dir_dep := expr_alloc_or (s_dir_dep r) dep\<rparr>) M"

text \<open>The part after both loops: warnings, and the selection of a choice by its visibility.\<close>

definition check_symbol :: "menu_node \<Rightarrow> symref \<Rightarrow> mstate \<Rightarrow> mstate" where
  "check_symbol n s M =
     (if SYMBOL_WARNED \<in> s_flags (tab M s) then M
      else
        (let M = diagnose_if (s_type (tab M s) = S_UNKNOWN) (Menu_warn (n_id n) ''config symbol defined without type'') M;
             M = diagnose_if (sym_is_choice (ms_k M) s \<and> n_prompt n = None) (Menu_warn (n_id n) ''choice must have a prompt'') M;
             M = sym_check_prop s M
         in upd s (\<lambda>r. r\<lparr>s_flags := insert SYMBOL_WARNED (s_flags r)\<rparr>) M))"

definition require_choice :: "menu_node \<Rightarrow> symref \<Rightarrow> mstate \<Rightarrow> mstate" where
  "require_choice n s M =
     (case prompt_prop (tab M) n of
        None \<Rightarrow> M
      | Some p \<Rightarrow>
          (if SYMBOL_OPTIONAL \<in> s_flags (tab M s) then M
           else upd s (\<lambda>r. r\<lparr>s_rev_dep := expr_alloc_or (s_rev_dep r)
                  (expr_alloc_and (p_vis_expr p) (Some (expr_alloc_symbol symbol_mod)))\<rparr>) M))"

definition finish_entry :: "menu_node \<Rightarrow> menu list \<Rightarrow> mstate \<Rightarrow> menu \<times> mstate" where
  "finish_entry n cs M =
     (let (cs', M1) = flatten n cs M
      in (Menu n cs', case n_sym n of None \<Rightarrow> M1 | Some s \<Rightarrow> require_choice n s (check_symbol n s M1)))"

definition begin_entry :: "menu_node \<Rightarrow> menu list \<Rightarrow> mstate \<Rightarrow> menu list \<times> mstate" where
  "begin_entry n cs M =
     (let M1 = (case n_sym n of Some s \<Rightarrow> if sym_is_choice (ms_k M) s then choice_types n s cs M else M | None \<Rightarrow> M)
      in finalize_children (parent_dep n M1) cs M1)"

text \<open>
  \<open>menu_finalize\<close> on an entry and the entries behind it: the finalized entry and the
  entries that still follow it, for an entry without any below it takes the following
  ones that depend on it.
\<close>

function (sequential)
  menu_finalize :: "menu \<Rightarrow> menu list \<Rightarrow> mstate \<Rightarrow> menu \<times> menu list \<times> mstate" and
  finalize_list :: "menu list \<Rightarrow> mstate \<Rightarrow> menu list \<times> mstate" and
  submenu :: "menu_node \<Rightarrow> symref \<Rightarrow> expr option \<Rightarrow> menu list \<Rightarrow> mstate \<Rightarrow> menu list \<times> menu list \<times> mstate"
where
  "menu_finalize (Menu n cs) rest M =
     (if cs \<noteq> [] then
        (case begin_entry n cs M of (cs1, M1) \<Rightarrow>
           case finalize_list cs1 M1 of (cs2, M2) \<Rightarrow>
             case finish_entry n cs2 M2 of (c, M3) \<Rightarrow> (c, rest, M3))
      else
        (case n_sym n of
           None \<Rightarrow> (case finish_entry n [] M of (c, M3) \<Rightarrow> (c, rest, M3))
         | Some s \<Rightarrow>
             (case submenu n s (not_n (tab M) (Option.bind (prompt_prop (tab M) n) p_vis_expr)) rest M of
                (cs1, rest1, M1) \<Rightarrow>
                  case finish_entry n cs1 (add_dir_dep s (n_dep n) M1) of (c, M3) \<Rightarrow> (c, rest1, M3))))"
| "finalize_list [] M = ([], M)"
| "finalize_list (c # cs) M =
     (case menu_finalize c cs M of (c', cs1, M1) \<Rightarrow>
        case finalize_list cs1 M1 of (cs2, M2) \<Rightarrow> (c' # cs2, M2))"
| "submenu n s basedep [] M = ([], [], M)"
| "submenu n s basedep (c # cs) M =
     (if \<not> depends_on (tab M) s basedep (m_node c) then ([], c # cs, M)
      else
        (case menu_finalize c cs M of (c', cs1, M1) \<Rightarrow>
           case submenu n s basedep cs1 (set_outer (Some s) [c'] M1) of (cs2, rest, M2) \<Rightarrow> (c' # cs2, rest, M2)))"
  by pat_completeness auto

lemma finalize_children_size:
  "list_size (fst (finalize_children d cs M)) = list_size cs"
proof (induction cs arbitrary: M)
  case (Cons c cs)
  have "menu_size (fst (finalize_child d c M)) = menu_size c"
    by (cases c) (auto simp: finalize_child_def Let_def split: option.splits prompt_ref.splits)
  with Cons show ?case by (simp add: split_beta)
qed simp

lemma begin_entry_size: "list_size (fst (begin_entry n cs M)) = list_size cs"
  by (simp add: begin_entry_def Let_def finalize_children_size)

text \<open>The entries that remain are never more than before.\<close>

abbreviation "finalize_dom \<equiv> menu_finalize_finalize_list_submenu_dom"

lemma finalize_rest_size:
  "finalize_dom (Inl (c, rest, M)) \<Longrightarrow> list_size (fst (snd (menu_finalize c rest M))) \<le> list_size rest"
  "finalize_dom (Inr (Inl (cs, M))) \<Longrightarrow> True"
  "finalize_dom (Inr (Inr (n, s, d, cs, M))) \<Longrightarrow> list_size (fst (snd (submenu n s d cs M))) \<le> list_size cs"
proof (induction c rest M and cs M and n s d cs M rule: menu_finalize_finalize_list_submenu.pinduct)
  case (1 n cs rest M)
  then show ?case
    by (cases "n_sym n"; cases "cs = []")
      (auto simp: menu_finalize.psimps split_beta)
next
  case (5 n s basedep c cs M)
  obtain c' cs1 M1 where fin: "menu_finalize c cs M = (c', cs1, M1)" by (cases "menu_finalize c cs M")
  show ?case
  proof (cases "depends_on (tab M) s basedep (m_node c)")
    case True
    with 5 fin have "list_size cs1 \<le> list_size cs"
      "list_size (fst (snd (submenu n s basedep cs1 (set_outer (Some s) [c'] M1)))) \<le> list_size cs1" by auto
    with True fin 5(1) show ?thesis
      by (cases "submenu n s basedep cs1 (set_outer (Some s) [c'] M1)") (simp add: submenu.psimps)
  next
    case False
    with 5(1) show ?thesis by (simp add: submenu.psimps)
  qed
qed (simp_all add: submenu.psimps)

definition finalize_measure :: "menu \<times> menu list \<times> mstate + menu list \<times> mstate +
    menu_node \<times> symref \<times> expr option \<times> menu list \<times> mstate \<Rightarrow> nat" where
  "finalize_measure x =
     (case x of Inl (c, rest, M) \<Rightarrow> 2 * (menu_size c + list_size rest)
      | Inr (Inl (cs, M)) \<Rightarrow> 2 * list_size cs + 1
      | Inr (Inr (n, s, d, cs, M)) \<Rightarrow> 2 * list_size cs + 1)"

lemma finalize_rest_less:
  assumes "(c', cs1, M1) = menu_finalize c cs M" "finalize_dom (Inl (c, cs, M))"
  shows "list_size cs1 < menu_size c + list_size cs"
  using finalize_rest_size(1) [OF assms(2)] menu_size_pos [of c]
  by (simp add: assms(1) [symmetric] del: menu_size_pos)

termination menu_finalize
proof (relation "measure finalize_measure", goal_cases)
  case (2 n cs rest M cs1 M1)
  from this(2) begin_entry_size [of n cs M] have "list_size cs1 = list_size cs"
    by (cases "begin_entry n cs M") simp
  then show ?case by (simp add: finalize_measure_def)
next
  case (5 c cs M c' y cs1 M1)
  with finalize_rest_less [of c' cs1 M1 c cs M] show ?case by (auto simp: finalize_measure_def)
next
  case (7 n s basedep c cs M c' y cs1 M1)
  with finalize_rest_less [of c' cs1 M1 c cs M] show ?case by (auto simp: finalize_measure_def)
qed (auto simp: finalize_measure_def)

end
