(* ===== verification/Menu_Final.thy ===== *)
theory Menu_Final
  imports Menu "HOL-Library.Sublist"
begin

text \<open>
  What \<open>menu_finalize\<close> leaves alone and what it establishes: the order of the entries,
  the fixed parts of symbols, and that no entry without a text has entries below it.
\<close>

section \<open>The order of the entries\<close>

definition entry_key :: "menu_node \<Rightarrow> nat \<times> symref option \<times> expr option \<times> string option" where
  "entry_key n = (n_id n, n_sym n, n_visibility n, n_help n)"

text \<open>The entries in the order of the description.\<close>

fun preorder :: "menu \<Rightarrow> (nat \<times> symref option \<times> expr option \<times> string option) list" where
  "preorder (Menu n cs) = entry_key n # concat (map preorder cs)"

abbreviation preorders where "preorders cs \<equiv> concat (map preorder cs)"

lemma entry_key_dep [simp]: "entry_key (n\<lparr>n_dep := d\<rparr>) = entry_key n"
  by (simp add: entry_key_def)

lemma entry_key_prompt [simp]: "entry_key (n\<lparr>n_prompt := d\<rparr>) = entry_key n"
  by (simp add: entry_key_def)

lemma finalize_child_preorder: "preorder (fst (finalize_child d c M)) = preorder c"
  by (cases c) (simp add: finalize_child_def Let_def split: option.split prompt_ref.split)

lemma finalize_children_preorder: "preorders (fst (finalize_children d cs M)) = preorders cs"
  by (induction cs arbitrary: M) (simp_all add: split_beta finalize_child_preorder)

lemma choice_value_key: "entry_key (fst (choice_value s n M)) = entry_key n"
  by (simp add: choice_value_def Let_def split: option.split)

lemma preorder_node: "preorder c = entry_key (m_node c) # preorders (m_list c)"
  by (cases c) simp

lemma flatten_preorder: "preorders (fst (flatten n cs M)) = preorders cs"
proof (induction n cs M rule: flatten.induct)
  case (2 n c cs M)
  obtain cn M1 where cn: "(case n_sym n of Some s \<Rightarrow> choice_value s (m_node c) M | None \<Rightarrow> (m_node c, M)) = (cn, M1)"
    by (cases "case n_sym n of Some s \<Rightarrow> choice_value s (m_node c) M | None \<Rightarrow> (m_node c, M)")
  have key: "entry_key cn = entry_key (m_node c)"
    using cn choice_value_key by (metis fst_conv option.case_eq_if)
  show ?case
  proof (cases "m_list c \<noteq> [] \<and> (case prompt_prop (tab M1) cn of None \<Rightarrow> True | Some p \<Rightarrow> p_text p = None)")
    case True
    with 2(1) [OF cn [symmetric] refl refl True] cn key show ?thesis
      by (simp add: split_beta preorder_node [of c])
  next
    case False
    with 2(2) [OF cn [symmetric] refl refl False] cn key show ?thesis
      by (auto simp: split_beta preorder_node [of c])
  qed
qed simp

lemma finish_entry_preorder: "preorder (fst (finish_entry n cs M)) = entry_key n # preorders cs"
  using flatten_preorder [of n cs M] by (simp add: finish_entry_def split_beta)

lemma begin_entry_preorder: "preorders (fst (begin_entry n cs M)) = preorders cs"
  by (simp add: begin_entry_def Let_def finalize_children_preorder)

lemma finalize_preorder:
  "menu_finalize c rest M = (c', rest', M') \<Longrightarrow> preorder c' @ preorders rest' = preorder c @ preorders rest"
  "finalize_list cs M = (cs', M') \<Longrightarrow> preorders cs' = preorders cs"
  "submenu n s d cs M = (cs', rest', M') \<Longrightarrow> preorders cs' @ preorders rest' = preorders cs"
proof (induction c rest M and cs M and n s d cs M arbitrary: c' rest' M' and cs' M' and cs' rest' M'
    rule: menu_finalize_finalize_list_submenu.induct)
  case (1 n cs rest M)
  show ?case
  proof (cases "cs = []")
    case False
    obtain cs1 M1 where b: "begin_entry n cs M = (cs1, M1)" by force
    obtain cs2 M2 where l: "finalize_list cs1 M1 = (cs2, M2)" by force
    have "preorders cs2 = preorders cs"
      using 1(1) [OF False b [symmetric] l] begin_entry_preorder [of n cs M] b by simp
    with 1(3) False b l finish_entry_preorder [of n cs2 M2] show ?thesis by (auto split: prod.splits)
  next
    case True
    show ?thesis
    proof (cases "n_sym n")
      case None
      with 1(3) True finish_entry_preorder [of n "[]" M] show ?thesis by (auto split: prod.splits)
    next
      case (Some s)
      let ?d = "not_n (tab M) (Option.bind (prompt_prop (tab M) n) p_vis_expr)"
      obtain cs1 rest1 M1 where m: "submenu n s ?d rest M = (cs1, rest1, M1)" by (metis prod_cases3)
      have "preorders cs1 @ preorders rest1 = preorders rest" using 1 True Some m by blast
      with 1(3) True Some m finish_entry_preorder [of n cs1 "add_dir_dep s (n_dep n) M1"]
      show ?thesis by (auto split: prod.splits)
    qed
  qed
next
  case (3 c cs M)
  then show ?case by (auto split: prod.splits)
next
  case (5 n s basedep c cs M)
  obtain c1 cs1 M1 where f: "menu_finalize c cs M = (c1, cs1, M1)" by (metis prod_cases3)
  show ?case
  proof (cases "depends_on (tab M) s basedep (m_node c)")
    case True
    obtain cs2 rest2 M2 where m: "submenu n s basedep cs1 (set_outer (Some s) [c1] M1) = (cs2, rest2, M2)"
      by (metis prod_cases3)
    have "preorder c1 @ preorders cs1 = preorder c @ preorders cs" using 5 True f by blast
    moreover have "preorders cs2 @ preorders rest2 = preorders cs1" using 5(2) [OF _ f [symmetric] refl m] True by simp
    ultimately have "preorder c1 @ preorders cs2 @ preorders rest2 = preorders (c # cs)" by simp
    with 5(3) True f m show ?thesis by auto
  next
    case False
    with 5 show ?thesis by auto
  qed
qed auto

section \<open>What stays\<close>

text \<open>
  A symbol keeps its name, values and known type; flags and properties are only
  added, and of a property only the condition and the list of choice values change.
\<close>

definition prop_key :: "property \<Rightarrow> prop_type \<times> string option \<times> nat option" where
  "prop_key p = (p_type p, p_text p, p_menu p)"

definition grows :: "symbol \<Rightarrow> symbol \<Rightarrow> bool" where
  "grows r r' \<longleftrightarrow> s_name r' = s_name r \<and> s_curr r' = s_curr r \<and> s_def_user r' = s_def_user r \<and>
     (s_type r \<noteq> S_UNKNOWN \<longrightarrow> s_type r' = s_type r) \<and> s_flags r \<subseteq> s_flags r' \<and>
     prefix (map prop_key (s_prop r)) (map prop_key (s_prop r'))"

definition keeps :: "mstate \<Rightarrow> mstate \<Rightarrow> bool" where
  "keeps M M' \<longleftrightarrow> (\<forall>s. grows (tab M s) (tab M' s))"

lemma grows_refl [simp]: "grows r r"
  by (simp add: grows_def)

lemma keeps_refl [simp]: "keeps M M"
  by (simp add: keeps_def)

lemma grows_trans: "grows r1 r2 \<Longrightarrow> grows r2 r3 \<Longrightarrow> grows r1 r3"
  unfolding grows_def using prefix_order.trans by auto

lemma keeps_trans [trans]: "keeps M1 M2 \<Longrightarrow> keeps M2 M3 \<Longrightarrow> keeps M1 M3"
  unfolding keeps_def using grows_trans by blast

named_theorems keeps

lemma keeps_upd: "grows (tab M s) (f (tab M s)) \<Longrightarrow> keeps M (upd s f M)"
  by (simp add: keeps_def upd_def upd_sym_def)

lemma keeps_diagnose [keeps]: "keeps M (diagnose d M)" "keeps M (diagnose_if b d M)" "keeps M (fault M)"
  "keeps M (set_outer p cs M)"
  by (simp_all add: keeps_def diagnose_def diagnose_if_def fault_def set_outer_def)

lemma keeps_fold: "(\<And>x M. keeps M (f x M)) \<Longrightarrow> keeps M (fold f xs M)"
proof (induction xs arbitrary: M)
  case (Cons x xs)
  have "keeps M (fold f xs (f x M))" by (rule keeps_trans [OF Cons.prems Cons.IH [OF Cons.prems]])
  then show ?case by simp
qed simp

lemma map_key_update:
  "prop_key p = prop_key (ps ! i) \<Longrightarrow> map prop_key (ps[i := p]) = map prop_key ps"
  by (metis list_update_id map_update)

lemma keeps_set_vis [keeps]: "keeps M (set_vis s i e M)"
  unfolding set_vis_def by (rule keeps_upd) (simp add: grows_def map_key_update prop_key_def)

lemma keeps_menu_set_type [keeps]: "keeps M (menu_set_type n ty M)"
  by (auto simp: menu_set_type_def intro: keeps keeps_upd simp: grows_def split: option.split)

lemma keeps_add_reverse [keeps]: "keeps M (add_reverse s p d M)"
  by (auto simp: add_reverse_def intro!: keeps keeps_upd simp: grows_def split: option.split)

lemma keeps_finalize_prop [keeps]: "keeps M (finalize_prop m s d i M)"
  unfolding finalize_prop_def Let_def by (auto intro: keeps_trans keeps)

lemma keeps_finalize_child [keeps]: "keeps M (snd (finalize_child d c M))"
  by (auto simp: finalize_child_def Let_def intro: keeps_fold keeps split: option.split prompt_ref.split)

lemma keeps_finalize_children [keeps]: "keeps M (snd (finalize_children d cs M))"
proof (induction cs arbitrary: M)
  case (Cons c cs)
  have "keeps M (snd (finalize_children d cs (snd (finalize_child d c M))))"
    by (rule keeps_trans [OF keeps_finalize_child Cons])
  then show ?case by (simp add: split_beta)
qed simp

lemma keeps_choice_type: "keeps M (choice_type n cs M)"
  by (induction cs) (auto intro: keeps split: option.split)

lemma keeps_choice_types [keeps]: "keeps M (choice_types n s cs M)"
proof -
  have "keeps M (value_type s c M)" for c M
    by (auto simp: value_type_def intro: keeps split: option.split)
  then show ?thesis
    unfolding choice_types_def by (intro keeps_trans [OF _ keeps_fold]) (auto intro: keeps_choice_type)
qed

lemma keeps_begin_entry [keeps]: "keeps M (snd (begin_entry n cs M))"
  unfolding begin_entry_def Let_def
  by (rule keeps_trans [OF _ keeps_finalize_children]) (auto intro: keeps split: option.split)

text \<open>The same facts as steps from the end of a sequence of updates.\<close>

named_theorems keeps_step

lemma keeps_flag: "keeps M (upd v (\<lambda>r. r\<lparr>s_flags := insert fl (s_flags r)\<rparr>) M)"
  by (rule keeps_upd) (auto simp: grows_def)

lemmas keeps_basic_steps [keeps_step] =
  keeps_diagnose [THEN keeps_trans [rotated]] keeps_flag [THEN keeps_trans [rotated]]

lemma keeps_check_prop [keeps]: "keeps M (check_prop s p M)"
  unfolding check_prop_def check_default_def check_reverse_def check_range_def Let_def
  by (auto intro!: keeps_step split: option.split expr.split)

lemma keeps_check_symbol [keeps]: "keeps M (check_symbol n s M)"
proof -
  have "keeps M (sym_check_prop s M)" for M
    unfolding sym_check_prop_def by (rule keeps_fold) (rule keeps)
  note step = keeps_trans [OF _ this]
  show ?thesis
    unfolding check_symbol_def Let_def by (auto intro!: keeps_step step)
qed

lemma keeps_require_choice [keeps]: "keeps M (require_choice n s M)"
  by (auto simp: require_choice_def intro!: keeps_upd simp: grows_def split: option.split)

lemma keeps_add_dir_dep [keeps]: "keeps M (add_dir_dep s d M)"
  unfolding add_dir_dep_def by (rule keeps_upd) (simp add: grows_def)

lemma keeps_check_value_prop: "keeps M (check_value_prop s m p M)"
  unfolding check_value_prop_def Let_def by (auto intro!: keeps_step split: option.split)

lemma map_key_first: "(\<And>p. prop_key (f p) = prop_key p) \<Longrightarrow> map prop_key (update_first P f ps) = map prop_key ps"
  by (induction ps) simp_all

lemma keeps_choice_parts:
  "keeps M (add_to_choice s v M)" "keeps M (add_choice_prop m v s M)" "keeps M (depend_on_choice m v e M)"
proof -
  have key: "map prop_key (map (\<lambda>p. if p_menu p = Some m then p\<lparr>p_vis_expr := g p\<rparr> else p) ps) = map prop_key ps" for g ps
    by (simp add: prop_key_def)
  show "keeps M (add_to_choice s v M)"
    by (auto simp: add_to_choice_def grows_def map_key_first prop_key_def intro!: keeps keeps_upd)
  show "keeps M (add_choice_prop m v s M)"
    unfolding add_choice_prop_def by (rule keeps_upd) (simp add: grows_def)
  show "keeps M (depend_on_choice m v e M)"
    unfolding depend_on_choice_def by (rule keeps_upd) (simp add: grows_def key del: map_map)
qed

lemma keeps_choice_value [keeps]: "keeps M (snd (choice_value s n M))"
proof -
  have fold: "keeps M (fold (check_value_prop s m) ps M)" for m ps M
    by (rule keeps_fold) (rule keeps_check_value_prop)
  show ?thesis
    unfolding choice_value_def Let_def
    by (auto intro!: keeps_step keeps_choice_parts [THEN keeps_trans [rotated]] keeps_trans [OF _ fold] split: option.split)
qed

lemma keeps_flatten [keeps]: "keeps M (snd (flatten n cs M))"
proof (induction n cs M rule: flatten.induct)
  case (2 n c cs M)
  obtain cn M1 where cn: "(case n_sym n of Some s \<Rightarrow> choice_value s (m_node c) M | None \<Rightarrow> (m_node c, M)) = (cn, M1)"
    by (cases "case n_sym n of Some s \<Rightarrow> choice_value s (m_node c) M | None \<Rightarrow> (m_node c, M)")
  have M1: "keeps M M1" using cn keeps_choice_value by (cases "n_sym n") (auto, metis snd_conv)
  show ?case
  proof (cases "m_list c \<noteq> [] \<and> (case prompt_prop (tab M1) cn of None \<Rightarrow> True | Some p \<Rightarrow> p_text p = None)")
    case True
    have "keeps M (snd (flatten n (m_list c @ cs) (set_outer (n_sym n) (m_list c) M1)))"
      by (rule keeps_trans [OF keeps_trans [OF M1 keeps_diagnose(4)] 2(1) [OF cn [symmetric] refl refl True]])
    with cn True show ?thesis by (simp add: split_beta)
  next
    case False
    have "keeps M (snd (flatten n cs M1))"
      by (rule keeps_trans [OF M1 2(2) [OF cn [symmetric] refl refl False]])
    with cn False show ?thesis by (auto simp: split_beta)
  qed
qed simp

lemma keeps_finish_entry [keeps]: "keeps M (snd (finish_entry n cs M))"
  by (auto simp: finish_entry_def split_beta intro: keeps_flatten
      intro!: keeps_trans [OF _ keeps_require_choice] keeps_trans [OF _ keeps_check_symbol] split: option.split)

lemma keeps_finalize:
  "keeps M (snd (snd (menu_finalize c rest M)))"
  "keeps M (snd (finalize_list cs M))"
  "keeps M (snd (snd (submenu n s d cs M)))"
proof (induction c rest M and cs M and n s d cs M rule: menu_finalize_finalize_list_submenu.induct)
  case (1 n cs rest M)
  show ?case
  proof (cases "cs = []")
    case False
    obtain cs1 M1 where b: "begin_entry n cs M = (cs1, M1)" by force
    obtain cs2 M2 where l: "finalize_list cs1 M1 = (cs2, M2)" by force
    have "keeps M (snd (finish_entry n cs2 M2))"
      using keeps_begin_entry [of M n cs] 1(1) [OF False b [symmetric]] b l keeps_finish_entry [of M2 n cs2]
      by (auto intro: keeps_trans)
    with False b l show ?thesis by (simp add: split_beta)
  next
    case True
    show ?thesis
    proof (cases "n_sym n")
      case None
      with True keeps_finish_entry [of M n "[]"] show ?thesis by (simp add: split_beta)
    next
      case (Some s)
      let ?d = "not_n (tab M) (Option.bind (prompt_prop (tab M) n) p_vis_expr)"
      obtain cs1 rest1 M1 where m: "submenu n s ?d rest M = (cs1, rest1, M1)" by (metis prod_cases3)
      have "keeps M M1" using 1(2) True Some m by fastforce
      then have "keeps M (snd (finish_entry n cs1 (add_dir_dep s (n_dep n) M1)))"
        by (rule keeps_trans [OF keeps_trans [OF _ keeps_add_dir_dep] keeps_finish_entry])
      with True Some m show ?thesis by (simp add: split_beta)
    qed
  qed
next
  case (3 c cs M)
  obtain c1 cs1 M1 where f: "menu_finalize c cs M = (c1, cs1, M1)" by (metis prod_cases3)
  with 3(1) 3(2) [OF f [symmetric] refl] have "keeps M (snd (finalize_list cs1 M1))"
    by (auto intro: keeps_trans)
  with f show ?case by (simp add: split_beta)
next
  case (5 n s basedep c cs M)
  obtain c1 cs1 M1 where f: "menu_finalize c cs M = (c1, cs1, M1)" by (metis prod_cases3)
  show ?case
  proof (cases "depends_on (tab M) s basedep (m_node c)")
    case True
    have "keeps M (snd (snd (submenu n s basedep cs1 (set_outer (Some s) [c1] M1))))"
      using 5(1) [OF _] 5(2) [OF _ f [symmetric] refl] True f
      by (auto intro: keeps_trans [OF keeps_trans [OF _ keeps_diagnose(4)]])
    with True f show ?thesis by (simp add: split_beta)
  qed simp
qed simp_all

section \<open>Entries below entries\<close>

definition has_text :: "symtab \<Rightarrow> menu_node \<Rightarrow> bool" where
  "has_text T n = (case prompt_prop T n of None \<Rightarrow> False | Some p \<Rightarrow> p_text p \<noteq> None)"

text \<open>A prompt is a property its symbol has.\<close>

definition prompt_valid :: "symtab \<Rightarrow> menu_node \<Rightarrow> bool" where
  "prompt_valid T n =
     (case n_prompt n of
        Some (Sym_prompt i) \<Rightarrow> (case n_sym n of Some s \<Rightarrow> i < length (s_prop (T s)) | None \<Rightarrow> False)
      | _ \<Rightarrow> True)"

fun valid :: "symtab \<Rightarrow> menu \<Rightarrow> bool" where
  "valid T (Menu n cs) \<longleftrightarrow> prompt_valid T n \<and> list_all (valid T) cs"

text \<open>Only entries with a text have entries below them; the root is not asked.\<close>

fun no_hidden :: "symtab \<Rightarrow> menu \<Rightarrow> bool" where
  "no_hidden T (Menu n cs) \<longleftrightarrow>
     list_all (\<lambda>c. no_hidden T c \<and> (m_list c \<noteq> [] \<longrightarrow> has_text T (m_node c))) cs"

definition good :: "symtab \<Rightarrow> menu \<Rightarrow> bool" where
  "good T c \<longleftrightarrow> valid T c \<and> no_hidden T c"

lemma prompt_valid_same:
  "n_prompt a = n_prompt b \<Longrightarrow> n_sym a = n_sym b \<Longrightarrow> prompt_valid T a = prompt_valid T b"
  unfolding prompt_valid_def by presburger

lemma valid_node: "valid T c \<longleftrightarrow> prompt_valid T (m_node c) \<and> list_all (valid T) (m_list c)"
  by (cases c) simp

lemma no_hidden_node:
  "no_hidden T c \<longleftrightarrow> list_all (\<lambda>c. no_hidden T c \<and> (m_list c \<noteq> [] \<longrightarrow> has_text T (m_node c))) (m_list c)"
  by (cases c) simp

lemma grows_nth:
  assumes "grows r r'" "i < length (s_prop r)"
  shows "i < length (s_prop r') \<and> p_text (s_prop r' ! i) = p_text (s_prop r ! i)"
proof -
  from assms(1) obtain ks where ks: "map prop_key (s_prop r') = map prop_key (s_prop r) @ ks"
    by (auto simp: grows_def prefix_def)
  from arg_cong [OF ks, of length] have len: "length (s_prop r) \<le> length (s_prop r')" by simp
  from arg_cong [OF ks, of "\<lambda>xs. xs ! i"] len assms(2)
  have "prop_key (s_prop r' ! i) = prop_key (s_prop r ! i)" by (simp add: nth_append)
  with len assms(2) show ?thesis by (simp add: prop_key_def)
qed

lemma keeps_prompt:
  assumes "keeps M M'" "prompt_valid (tab M) n"
  shows "prompt_valid (tab M') n \<and> has_text (tab M') n = has_text (tab M) n"
proof -
  have "i < length (s_prop (tab M' s)) \<and> p_text (s_prop (tab M' s) ! i) = p_text (s_prop (tab M s) ! i)"
    if "i < length (s_prop (tab M s))" for i s
    using assms(1) grows_nth that by (auto simp: keeps_def)
  with assms(2) show ?thesis
    by (auto simp: prompt_valid_def has_text_def prompt_prop_def split: option.splits prompt_ref.splits)
qed

lemma keeps_valid: "valid (tab M) c \<Longrightarrow> keeps M M' \<Longrightarrow> valid (tab M') c"
  by (induction c rule: menu.induct) (use keeps_prompt in \<open>auto simp: list_all_iff\<close>)

lemma keeps_good: "good (tab M) c \<Longrightarrow> keeps M M' \<Longrightarrow> good (tab M') c"
proof (induction c rule: menu.induct)
  case (Menu n cs)
  have "good (tab M') c \<and> (m_list c \<noteq> [] \<longrightarrow> has_text (tab M') (m_node c))" if "c \<in> set cs" for c
  proof -
    from Menu.prems(1) that have c: "good (tab M) c" "m_list c \<noteq> [] \<longrightarrow> has_text (tab M) (m_node c)"
      by (auto simp: good_def list_all_iff)
    then have "prompt_valid (tab M) (m_node c)" by (simp add: good_def valid_node)
    with keeps_prompt [OF Menu.prems(2)] c(2) Menu.IH [OF that c(1) Menu.prems(2)] show ?thesis by simp
  qed
  with Menu.prems keeps_prompt show ?case by (auto simp: good_def list_all_iff)
qed

definition placed :: "symtab \<Rightarrow> menu \<Rightarrow> bool" where
  "placed T c \<longleftrightarrow> good T c \<and> (m_list c \<noteq> [] \<longrightarrow> has_text T (m_node c))"

lemma good_list: "good T c \<longleftrightarrow> prompt_valid T (m_node c) \<and> list_all (placed T) (m_list c)"
  by (cases c) (auto simp: good_def placed_def list_all_iff)

lemma keeps_placed: "placed (tab M) c \<Longrightarrow> keeps M M' \<Longrightarrow> placed (tab M') c"
  using keeps_good keeps_prompt unfolding placed_def by (metis good_list)

lemma choice_value_prompt: "n_prompt (fst (choice_value s n M)) = n_prompt n \<and> n_sym (fst (choice_value s n M)) = n_sym n"
  by (simp add: choice_value_def Let_def split: option.split)

lemma flatten_placed:
  "list_all (good (tab M)) cs \<Longrightarrow> flatten n cs M = (cs', M') \<Longrightarrow> list_all (placed (tab M')) cs'"
proof (induction n cs M arbitrary: cs' M' rule: flatten.induct)
  case (2 n c cs M)
  let ?v = "case n_sym n of Some s \<Rightarrow> choice_value s (m_node c) M | None \<Rightarrow> (m_node c, M)"
  obtain cn M1 where cn: "?v = (cn, M1)" by force
  have same: "n_prompt cn = n_prompt (m_node c) \<and> n_sym cn = n_sym (m_node c)"
    using cn choice_value_prompt by (cases "n_sym n") (auto, (metis fst_conv)+)
  have M1: "keeps M M1" using cn keeps_choice_value by (cases "n_sym n") (auto, metis snd_conv)
  have good1: "good (tab M1) d" if "d \<in> set (c # cs)" for d
    using 2(3) that keeps_good M1 by (auto simp: list_all_iff)
  then have pv: "prompt_valid (tab M1) cn"
    using same prompt_valid_same [of cn "m_node c"] by (simp add: good_list)
  show ?case
  proof (cases "m_list c \<noteq> [] \<and> (case prompt_prop (tab M1) cn of None \<Rightarrow> True | Some p \<Rightarrow> p_text p = None)")
    case True
    let ?M = "set_outer (n_sym n) (m_list c) M1"
    obtain cs2 M2 where f: "flatten n (m_list c @ cs) ?M = (cs2, M2)" by force
    have "good (tab ?M) d" if "d \<in> set (m_list c @ cs)" for d
      using that good1 [of d] good1 [of c] good_list [of "tab M1" c]
      by (auto simp: set_outer_def placed_def list_all_iff)
    then have "list_all (placed (tab M2)) cs2"
      using 2(1) [OF cn [symmetric] refl refl True _ f] by (simp add: list_all_iff)
    moreover have "prompt_valid (tab M2) cn"
      using keeps_prompt [OF _ pv] keeps_trans [OF keeps_diagnose(4) [of M1 "n_sym n" "m_list c"]] keeps_flatten [of ?M n] f
      by (metis snd_conv)
    then have "placed (tab M2) (Menu cn [])" by (simp add: placed_def good_def)
    ultimately show ?thesis using 2(4) cn True f by (auto simp: split_beta)
  next
    case False
    obtain cs2 M2 where f: "flatten n cs M1 = (cs2, M2)" by force
    have keep: "keeps M1 M2" using keeps_flatten [of M1 n cs] f by simp
    have "list_all (placed (tab M2)) cs2"
      using 2(2) [OF cn [symmetric] refl refl False _ f] good1 by (simp add: list_all_iff)
    moreover have "good (tab M1) (Menu cn (m_list c))" using good1 pv by (simp add: good_list)
    moreover have "m_list c \<noteq> [] \<longrightarrow> has_text (tab M1) cn"
      using False by (auto simp: has_text_def split: option.splits)
    ultimately have "placed (tab M2) (Menu cn (m_list c))"
      using keeps_placed [OF _ keep, of "Menu cn (m_list c)"] by (simp add: placed_def)
    with \<open>list_all (placed (tab M2)) cs2\<close> show ?thesis using 2(4) cn False f by (auto simp: split_beta)
  qed
qed simp

lemma keeps_all:
  assumes "keeps M M'"
  shows "list_all (valid (tab M)) cs \<Longrightarrow> list_all (valid (tab M')) cs"
    "list_all (good (tab M)) cs \<Longrightarrow> list_all (good (tab M')) cs"
    "prompt_valid (tab M) n \<Longrightarrow> prompt_valid (tab M') n"
  using assms keeps_valid keeps_good keeps_prompt by (auto simp: list_all_iff)

lemma finalize_child_valid:
  assumes "valid (tab M) c"
  shows "valid (tab (snd (finalize_child d c M))) (fst (finalize_child d c M))"
proof -
  have same: "m_list (fst (finalize_child d c M)) = m_list c \<and>
      n_sym (m_node (fst (finalize_child d c M))) = n_sym (m_node c) \<and>
      (n_prompt (m_node (fst (finalize_child d c M))) = n_prompt (m_node c) \<or>
       (\<exists>p. n_prompt (m_node (fst (finalize_child d c M))) = Some (Own_prompt p)))"
    by (simp add: finalize_child_def Let_def split: option.split prompt_ref.split)
  have "valid (tab (snd (finalize_child d c M))) c" by (rule keeps_valid [OF assms keeps_finalize_child])
  with same show ?thesis
    using prompt_valid_same [of "m_node (fst (finalize_child d c M))" "m_node c"]
    by (auto simp: valid_node) (simp add: prompt_valid_def)
qed

lemma finalize_children_valid:
  "list_all (valid (tab M)) cs \<Longrightarrow> list_all (valid (tab (snd (finalize_children d cs M)))) (fst (finalize_children d cs M))"
proof (induction cs arbitrary: M)
  case (Cons c cs)
  obtain c1 M1 where c: "finalize_child d c M = (c1, M1)" by force
  obtain cs1 M2 where cs: "finalize_children d cs M1 = (cs1, M2)" by force
  have k1: "keeps M M1" using keeps_finalize_child [of M d c] c by simp
  have k2: "keeps M1 M2" using keeps_finalize_children [of M1 d cs] cs by simp
  have "list_all (valid (tab M2)) cs1" using Cons.IH [of M1] Cons.prems keeps_all(1) [OF k1] cs by simp
  moreover have "valid (tab M2) c1"
    using finalize_child_valid [of M c d] Cons.prems c keeps_valid k2 by simp
  ultimately show ?case using c cs by simp
qed simp

lemma begin_entry_valid:
  assumes "list_all (valid (tab M)) cs" "begin_entry n cs M = (cs1, M1)"
  shows "list_all (valid (tab M1)) cs1"
proof -
  let ?M = "case n_sym n of Some s \<Rightarrow> if sym_is_choice (ms_k M) s then choice_types n s cs M else M | None \<Rightarrow> M"
  have "keeps M ?M" by (auto intro: keeps split: option.split)
  note children = finalize_children_valid [OF keeps_all(1) [OF this assms(1)], of "parent_dep n ?M"]
  have "finalize_children (parent_dep n ?M) cs ?M = (cs1, M1)"
    using assms(2) by (simp only: begin_entry_def Let_def)
  with children show ?thesis by (simp only: fst_conv snd_conv)
qed

lemma finish_entry_good:
  assumes "list_all (good (tab M)) cs" "prompt_valid (tab M) n" "finish_entry n cs M = (c', M')"
  shows "good (tab M') c'"
proof -
  obtain cs1 M1 where f: "flatten n cs M = (cs1, M1)" by force
  have placed: "list_all (placed (tab M1)) cs1" by (rule flatten_placed [OF assms(1) f])
  have c': "c' = Menu n cs1"
    and M': "M' = (case n_sym n of None \<Rightarrow> M1 | Some s \<Rightarrow> require_choice n s (check_symbol n s M1))"
    using assms(3) f by (simp_all add: finish_entry_def)
  have k: "keeps M1 M'"
    unfolding M' by (auto intro: keeps_trans [OF keeps_check_symbol keeps_require_choice] split: option.split)
  have "prompt_valid (tab M1) n" using keeps_all(3) [OF _ assms(2)] keeps_flatten [of M n cs] f by simp
  with placed have "good (tab M1) c'" by (simp add: good_list c')
  then show ?thesis by (rule keeps_good [OF _ k])
qed

lemma finalize_good:
  "menu_finalize c rest M = (c', rest', M') \<Longrightarrow> valid (tab M) c \<Longrightarrow> list_all (valid (tab M)) rest \<Longrightarrow>
     good (tab M') c' \<and> list_all (valid (tab M')) rest'"
  "finalize_list cs M = (cs', M') \<Longrightarrow> list_all (valid (tab M)) cs \<Longrightarrow> list_all (good (tab M')) cs'"
  "submenu n s d cs M = (cs', rest', M') \<Longrightarrow> list_all (valid (tab M)) cs \<Longrightarrow>
     list_all (good (tab M')) cs' \<and> list_all (valid (tab M')) rest'"
proof (induction c rest M and cs M and n s d cs M arbitrary: c' rest' M' and cs' M' and cs' rest' M'
    rule: menu_finalize_finalize_list_submenu.induct)
  case (1 n cs rest M)
  have pv: "prompt_valid (tab M) n" and cs: "list_all (valid (tab M)) cs" using 1(4) by simp_all
  have keep: "keeps M M'" using keeps_finalize(1) [of M "Menu n cs" rest] 1(3) by simp
  show ?case
  proof (cases "cs = []")
    case False
    obtain cs1 M1 where b: "begin_entry n cs M = (cs1, M1)" by force
    obtain cs2 M2 where l: "finalize_list cs1 M1 = (cs2, M2)" by force
    have k1: "keeps M M1" using keeps_begin_entry [of M n cs] b by simp
    have k2: "keeps M1 M2" using keeps_finalize(2) [of M1 cs1] l by simp
    have "list_all (good (tab M2)) cs2"
      using 1(1) [OF False b [symmetric] l begin_entry_valid [OF cs b]] .
    moreover have "prompt_valid (tab M2) n" by (rule keeps_all(3) [OF keeps_trans [OF k1 k2] pv])
    moreover obtain c3 M3 where f: "finish_entry n cs2 M2 = (c3, M3)" by force
    ultimately have "good (tab M3) c3" by (rule finish_entry_good)
    with 1(3) False b l f 1(5) keeps_all(1) [OF keep] show ?thesis by auto
  next
    case True
    show ?thesis
    proof (cases "n_sym n")
      case None
      obtain c3 M3 where f: "finish_entry n [] M = (c3, M3)" by force
      have "good (tab M3) c3" by (rule finish_entry_good [OF _ pv f]) simp
      with 1(3) True None f 1(5) keeps_all(1) [OF keep] show ?thesis by auto
    next
      case (Some s)
      let ?d = "not_n (tab M) (Option.bind (prompt_prop (tab M) n) p_vis_expr)"
      obtain cs1 rest1 M1 where m: "submenu n s ?d rest M = (cs1, rest1, M1)" by (metis prod_cases3)
      let ?M = "add_dir_dep s (n_dep n) M1"
      have sub: "list_all (good (tab M1)) cs1" "list_all (valid (tab M1)) rest1"
        using 1(2) [OF _ Some m 1(5)] True by auto
      have k1: "keeps M M1" using keeps_finalize(3) [of M n s ?d rest] m by simp
      obtain c3 M3 where f: "finish_entry n cs1 ?M = (c3, M3)" by force
      have "good (tab M3) c3"
        by (rule finish_entry_good [OF keeps_all(2) [OF keeps_add_dir_dep sub(1)]
              keeps_all(3) [OF keeps_trans [OF k1 keeps_add_dir_dep] pv] f])
      moreover have "keeps M1 M3"
        using keeps_trans [OF keeps_add_dir_dep keeps_finish_entry [of ?M n cs1]] f by simp
      ultimately show ?thesis using 1(3) True Some m f keeps_all(1) sub(2) by auto
    qed
  qed
next
  case (3 c cs M)
  obtain c1 cs1 M1 where f: "menu_finalize c cs M = (c1, cs1, M1)" by (metis prod_cases3)
  obtain cs2 M2 where l: "finalize_list cs1 M1 = (cs2, M2)" by force
  have a: "good (tab M1) c1" "list_all (valid (tab M1)) cs1" using 3(1) [OF f] 3(4) by auto
  have "list_all (good (tab M2)) cs2" using 3(2) [OF f [symmetric] refl l a(2)] .
  moreover have "good (tab M2) c1" using keeps_good [OF a(1)] keeps_finalize(2) [of M1 cs1] l by simp
  ultimately show ?case using 3(3) f l by auto
next
  case (5 n s basedep c cs M)
  obtain c1 cs1 M1 where f: "menu_finalize c cs M = (c1, cs1, M1)" by (metis prod_cases3)
  show ?case
  proof (cases "depends_on (tab M) s basedep (m_node c)")
    case True
    let ?M = "set_outer (Some s) [c1] M1"
    obtain cs2 rest2 M2 where m: "submenu n s basedep cs1 ?M = (cs2, rest2, M2)" by (metis prod_cases3)
    have a: "good (tab M1) c1" "list_all (valid (tab M1)) cs1" using 5(1) [OF _ f] 5(4) True by auto
    have "list_all (good (tab M2)) cs2 \<and> list_all (valid (tab M2)) rest2"
      using 5(2) [OF _ f [symmetric] refl m keeps_all(1) [OF keeps_diagnose(4) a(2)]] True by simp
    moreover have "good (tab M2) c1"
      using keeps_good [OF a(1) keeps_trans [OF keeps_diagnose(4) keeps_finalize(3) [of ?M n s basedep cs1]]] m by simp
    ultimately show ?thesis using 5(3) True f m by auto
  next
    case False
    with 5 show ?thesis by auto
  qed
qed auto

section \<open>The value of a propagated condition\<close>

text \<open>Conditions are expressions without lists and ranges, which \<open>expr_copy\<close> copies.\<close>

fun condition :: "expr \<Rightarrow> bool" where
  "condition (Enot e) = condition e"
| "condition (Eand l r) \<longleftrightarrow> condition l \<and> condition r"
| "condition (Eor l r) \<longleftrightarrow> condition l \<and> condition r"
| "condition (Elist l s) = False"
| "condition (Erange a b) = False"
| "condition _ = True"

lemma condition_copy: "condition e \<Longrightarrow> expr_copy e = Some e"
  by (induction e) auto

lemma plain_rewrite_m: "plain_cmps T pl (rewrite_m mods e) = plain_cmps T pl e"
  by (induction e) (auto simp: expr_alloc_symbol_def)

lemma plain_transform: "plain_cmps T pl e \<Longrightarrow> plain_cmps T pl (expr_transform T e)"
proof (induction T e rule: expr_transform.induct)
  case (5 T e)
  have IH: "plain_cmps T pl (expr_transform T e)" using 5 by simp
  show ?case
  proof (cases "expr_transform T e")
    case (Enot a)
    then show ?thesis using 5(2) IH by simp
  next
    case (Ecmp c a b)
    then show ?thesis using IH by (cases c) auto
  next
    case (Eand a b)
    then show ?thesis using 5(3) IH by simp
  next
    case (Eor a b)
    then show ?thesis using 5(4) IH by simp
  next
    case (Esym s)
    then show ?thesis by (simp add: expr_alloc_symbol_def)
  qed (use IH in auto)
qed (auto simp: expr_alloc_symbol_def)

text \<open>m counts as m and \<open>MODULES\<close>.\<close>

definition tri_without_modules :: "kstate \<Rightarrow> symref \<Rightarrow> tristate" where
  "tri_without_modules K s =
     (if s = symbol_mod then EXPR_AND tri_mod (sym_get_tristate_value K (k_modules_sym K))
      else sym_get_tristate_value K s)"

lemma rewrite_m_value:
  assumes "settled K"
  shows "expr_val (sym_get_tristate_value K) (comparison_holds K) (rewrite_m (k_modules_sym K) e) =
    expr_val (tri_without_modules K) (comparison_holds K) e"
  using store.tri_consts(2) [OF assms]
  by (induction e) (auto simp: tri_without_modules_def expr_alloc_symbol_def)

section \<open>Properties\<close>


text \<open>
  An option A, an \<open>if\<close> around option B that depends on A, and option C without a prompt that
  has D depend on it.
\<close>

definition sample_node :: "nat \<Rightarrow> symref option \<Rightarrow> prompt_ref option \<Rightarrow> expr option \<Rightarrow> menu_node" where
  "sample_node i s p d = \<lparr> n_id = i, n_sym = s, n_prompt = p, n_visibility = None, n_dep = d, n_help = None \<rparr>"

definition sample_prop :: "prop_type \<Rightarrow> string option \<Rightarrow> expr option \<Rightarrow> nat \<Rightarrow> property" where
  "sample_prop ty txt e m = \<lparr> p_type = ty, p_text = txt, p_vis_expr = None, p_vis_tri = tri_no, p_expr = e, p_menu = Some m \<rparr>"

definition menu_symbol :: "string \<Rightarrow> property list \<Rightarrow> symbol" where
  "menu_symbol nm ps = (mk_symbol nm S_BOOLEAN CNull tri_no {SYMBOL_OPTIONAL})\<lparr> s_prop := ps \<rparr>"

fun menu_tab :: symtab where
  "menu_tab (Sym n) =
     (if n = 0 then menu_symbol ''A'' [sample_prop P_PROMPT (Some ''a'') None 1, sample_prop P_SELECT None (Some (Esym (Sym 3))) 1]
      else if n = 1 then menu_symbol ''B'' [sample_prop P_PROMPT (Some ''b'') None 3]
      else if n = 2 then menu_symbol ''C'' []
      else if n = 3 then menu_symbol ''D'' [sample_prop P_PROMPT (Some ''d'') None 5]
      else sample_tab (Sym 2))"
| "menu_tab s = sample_tab s"

definition menu_state :: mstate where
  "menu_state = \<lparr> ms_k = sample_store\<lparr> k_tab := menu_tab, k_modules_sym := Sym 4 \<rparr>,
     ms_diags = [], ms_fault = False, ms_outer = (\<lambda>_. None) \<rparr>"

definition menu_root :: menu where
  "menu_root = Menu (sample_node 0 None (Some (Own_prompt (sample_prop P_MENU (Some ''Main'') None 0))) None)
     [Menu (sample_node 1 (Some (Sym 0)) (Some (Sym_prompt 0)) None) [],
      Menu (sample_node 2 None None (Some (Esym (Sym 0))))
        [Menu (sample_node 3 (Some (Sym 1)) (Some (Sym_prompt 0)) None) []],
      Menu (sample_node 4 (Some (Sym 2)) None None) [],
      Menu (sample_node 5 (Some (Sym 3)) (Some (Sym_prompt 0)) (Some (Esym (Sym 2)))) []]"

lemma menu_root_valid: "valid (tab menu_state) menu_root"
  by (simp add: menu_root_def menu_state_def sample_node_def prompt_valid_def menu_symbol_def)


text \<open>
  The condition that an entry or a prompt gets from the entry around it holds, in
  every store whose values are up to date, just as far as the outer condition and its own
  one do, where m counts as n without modules; this is the value \<open>expr_calc_value\<close>
  computes of the simplified expression.
\<close>

theorem propagate_value:
  assumes "settled K" "\<forall>d \<in> set_option outer. condition d \<and> plain_cmps (k_tab K) (plain_const K) d"
    "plain_cmps (k_tab K) (plain_const K) e"
  shows "expr_calc_value K (propagate K outer (Some e)) =
      EXPR_AND (expr_calc_value K outer) (expr_val (tri_without_modules K) (comparison_holds K) e) \<and>
    expr_calc_value K (propagate K outer None) = expr_calc_value K outer"
proof -
  let ?e = "expr_transform (k_tab K) (rewrite_m (k_modules_sym K) e)"
  have simple: "expr_calc_value K (simplified (k_tab K) (Some d)) = expr_calc_value K (Some d)"
    if "plain_cmps (k_tab K) (plain_const K) d" for d
    using store.dups_sound [OF assms(1) that] by (auto simp: simplified_def)
  have plain: "plain_cmps (k_tab K) (plain_const K) ?e"
    by (rule plain_transform) (simp add: plain_rewrite_m assms(3))
  have val: "expr_calc_value K (Some ?e) = expr_val (tri_without_modules K) (comparison_holds K) e"
    using store.transform_sound [OF assms(1)] rewrite_m_value [OF assms(1)] by simp
  show ?thesis
  proof (cases outer)
    case None
    with simple [OF plain] val show ?thesis
      by (simp add: propagate_def copy_def simplified_def EXPR_AND_min)
  next
    case (Some d)
    with assms(2) have d: "copy outer = Some d" "plain_cmps (k_tab K) (plain_const K) d"
      by (auto simp: copy_def condition_copy)
    with Some simple [of "Eand d ?e"] simple [of d] plain val show ?thesis by (simp add: propagate_def)
  qed
qed

theorem propagate_value_witness:
  "expr_calc_value sample_store (propagate sample_store (Some (Esym (Sym 0))) (Some (Enot (Esym symbol_mod)))) = tri_mod"
  using propagate_value [OF sample_settled, of "Some (Esym (Sym 0))" "Enot (Esym symbol_mod)"]
  by (simp add: tri_without_modules_def sym_get_tristate_value_def EXPR_AND_min sample_tab_simps)

end
