(* ===== verification/Menu_Build.thy ===== *)
theory Menu_Build
  imports Menu_Final
begin

text \<open>
  How the parser builds the menu tree (menu.c up to \<open>menu_add_option\<close>): the nodes with
  their pointers \<open>list\<close>, \<open>next\<close> and \<open>parent\<close>, numbered in the order of their
  allocation, and the place \<open>last_entry_ptr\<close> where the next one is linked. The root menu
  is number 0. \<open>tree_of\<close> reads the tree behind the pointers.
\<close>

section \<open>The state of the parser\<close>

datatype slot = List_of nat | Next_of nat

text \<open>
  \<open>b_menu\<close> is \<open>current_menu\<close> (null behind the end of the root menu), \<open>b_entry\<close>
  \<open>current_entry\<close>, \<open>b_modules\<close> \<open>modules_sym\<close> before it has its default.
\<close>

record builder =
  b_state :: mstate
  b_count :: nat
  b_node :: "nat \<Rightarrow> menu_node"
  b_parent :: "nat \<Rightarrow> nat option"
  b_list :: "nat \<Rightarrow> nat option"
  b_next :: "nat \<Rightarrow> nat option"
  b_entry :: nat
  b_menu :: "nat option"
  b_last :: slot
  b_modules :: "symref option"
  b_defconfig :: "symref option"
  b_env :: "symref list"

definition empty_node :: "nat \<Rightarrow> symref option \<Rightarrow> menu_node" where
  "empty_node i s = \<lparr> n_id = i, n_sym = s, n_prompt = None, n_visibility = None, n_dep = None, n_help = None \<rparr>"

definition on_state :: "(mstate \<Rightarrow> mstate) \<Rightarrow> builder \<Rightarrow> builder" where
  "on_state f B = B\<lparr>b_state := f (b_state B)\<rparr>"

definition upd_node :: "nat \<Rightarrow> (menu_node \<Rightarrow> menu_node) \<Rightarrow> builder \<Rightarrow> builder" where
  "upd_node i f B = B\<lparr>b_node := (b_node B)(i := f (b_node B i))\<rparr>"

abbreviation entry_node :: "builder \<Rightarrow> menu_node" where
  "entry_node B \<equiv> b_node B (b_entry B)"

text \<open>\<open>_menu_init\<close>, on the nodes as they are at the start of the program.\<close>

definition menu_init :: "mstate \<Rightarrow> builder" where
  "menu_init M =
     \<lparr> b_state = M, b_count = 1, b_node = (\<lambda>i. empty_node i None), b_parent = (\<lambda>_. None),
       b_list = (\<lambda>_. None), b_next = (\<lambda>_. None), b_entry = 0, b_menu = Some 0, b_last = List_of 0,
       b_modules = None, b_defconfig = None, b_env = [] \<rparr>"

section \<open>Properties of the current entry\<close>

text \<open>The visibilities of the menus around an entry, innermost first, onto a condition.\<close>

function add_visibilities :: "builder \<Rightarrow> nat \<Rightarrow> expr option \<Rightarrow> expr option" where
  "add_visibilities B i e =
     (case b_parent B i of
        None \<Rightarrow> e
      | Some p \<Rightarrow>
          (if i \<le> p then e
           else add_visibilities B p
             (case n_visibility (b_node B p) of
                None \<Rightarrow> e
              | Some v \<Rightarrow> expr_alloc_and e (expr_copy v))))"
  by pat_completeness auto
termination add_visibilities by (relation "measure (\<lambda>(B, i, e). i)") auto

definition new_prop :: "prop_type \<Rightarrow> expr option \<Rightarrow> expr option \<Rightarrow> nat \<Rightarrow> property" where
  "new_prop ty e dep m =
     \<lparr> p_type = ty, p_text = None, p_vis_expr = dep, p_vis_tri = tri_no, p_expr = e, p_menu = Some m \<rparr>"

text \<open>The property at the end of the symbol's list, or the one a menu owns.\<close>

definition add_prop :: "property \<Rightarrow> builder \<Rightarrow> prompt_ref \<times> builder" where
  "add_prop p B =
     (case n_sym (entry_node B) of
        None \<Rightarrow> (Own_prompt p, B)
      | Some s \<Rightarrow>
          (Sym_prompt (length (s_prop (tab (b_state B) s))),
           on_state (upd s (\<lambda>r. r\<lparr>s_prop := s_prop r @ [p]\<rparr>)) B))"

definition menu_add_prop :: "prop_type \<Rightarrow> string option \<Rightarrow> expr option \<Rightarrow> expr option \<Rightarrow> builder \<Rightarrow> builder" where
  "menu_add_prop ty prompt e dep B =
     (let p = new_prop ty e dep (b_entry B) in
      case prompt of
        None \<Rightarrow> snd (add_prop p B)
      | Some txt \<Rightarrow>
          (let blank = (case txt of c # _ \<Rightarrow> c_isspace c | [] \<Rightarrow> False);
               B = on_state (diagnose_if blank (Prop_warn ''leading whitespace ignored'')) B;
               B = on_state (diagnose_if (n_prompt (entry_node B) \<noteq> None \<and> b_entry B \<noteq> 0)
                     (Prop_warn ''prompt redefined'')) B;
               vis = (if ty = P_PROMPT then add_visibilities B (b_entry B) dep else dep)
           in case add_prop (p\<lparr>p_text := Some (dropWhile c_isspace txt), p_vis_expr := vis\<rparr>) B of
                (r, B) \<Rightarrow> upd_node (b_entry B) (\<lambda>n. n\<lparr>n_prompt := Some r\<rparr>) B))"

definition menu_add_prompt :: "prop_type \<Rightarrow> string \<Rightarrow> expr option \<Rightarrow> builder \<Rightarrow> builder" where
  "menu_add_prompt ty prompt dep = menu_add_prop ty (Some prompt) None dep"

definition menu_add_expr :: "prop_type \<Rightarrow> expr option \<Rightarrow> expr option \<Rightarrow> builder \<Rightarrow> builder" where
  "menu_add_expr ty e dep = menu_add_prop ty None e dep"

definition menu_add_symbol :: "prop_type \<Rightarrow> symref \<Rightarrow> expr option \<Rightarrow> builder \<Rightarrow> builder" where
  "menu_add_symbol ty s dep = menu_add_prop ty None (Some (expr_alloc_symbol s)) dep"

definition menu_add_dep :: "expr option \<Rightarrow> builder \<Rightarrow> builder" where
  "menu_add_dep dep B = upd_node (b_entry B) (\<lambda>n. n\<lparr>n_dep := expr_alloc_and (n_dep n) dep\<rparr>) B"

definition menu_add_visibility :: "expr option \<Rightarrow> builder \<Rightarrow> builder" where
  "menu_add_visibility e B =
     upd_node (b_entry B) (\<lambda>n. n\<lparr>n_visibility := expr_alloc_and (n_visibility n) e\<rparr>) B"

section \<open>Options\<close>

datatype option_token = T_OPT_MODULES | T_OPT_DEFCONFIG_LIST | T_OPT_ENV | T_OPT_ALLNOCONFIG_Y

text \<open>\<open>prop_add_env\<close> (symbol.c); \<open>getenv\<close> is the environment.\<close>

definition prop_add_env :: "(string \<Rightarrow> string option) \<Rightarrow> string \<Rightarrow> builder \<Rightarrow> builder" where
  "prop_add_env getenv name B0 =
     (case n_sym (entry_node B0) of
        None \<Rightarrow> on_state fault B0
      | Some s \<Rightarrow>
          (let B = on_state (upd s (\<lambda>r. r\<lparr>s_flags := insert SYMBOL_AUTO (s_flags r)\<rparr>)) B0
           in case sym_get_env_prop (ms_k (b_state B)) s of
                Some p \<Rightarrow>
                  (case prop_get_symbol p of
                     None \<Rightarrow> on_state fault B
                   | Some s2 \<Rightarrow>
                       (let n2 = name_text (tab (b_state B)) s2
                        in on_state (diagnose_if (n2 \<noteq> name)
                             (Menu_warn (b_entry B) (''redefining environment symbol from '' @ n2))) B))
              | None \<Rightarrow>
                  (case sym_lookup (Some name) {SYMBOL_CONST} (ms_k (b_state B)) of
                     (d, K) \<Rightarrow>
                       (let p = \<lparr> p_type = P_ENV, p_text = None, p_vis_expr = None, p_vis_tri = tri_no,
                                  p_expr = Some (expr_alloc_symbol d), p_menu = None \<rparr>;
                            B1 = (on_state (\<lambda>M. upd s (\<lambda>r. r\<lparr>s_prop := s_prop r @ [p]\<rparr>) (M\<lparr>ms_k := K\<rparr>)) B)
                                   \<lparr>b_env := s # b_env B\<rparr>
                        in case getenv name of
                             Some v \<Rightarrow> on_state (\<lambda>M. M\<lparr>ms_k := sym_add_default s v (ms_k M)\<rparr>) B1
                           | None \<Rightarrow> on_state (diagnose (Menu_warn (b_entry B)
                               (''environment variable '' @ name @ '' undefined''))) B1))))"

definition add_flag :: "symflag \<Rightarrow> symref \<Rightarrow> builder \<Rightarrow> builder" where
  "add_flag fl s = on_state (upd s (\<lambda>r. r\<lparr>s_flags := insert fl (s_flags r)\<rparr>))"

definition menu_add_option :: "(string \<Rightarrow> string option) \<Rightarrow> option_token \<Rightarrow> string \<Rightarrow> builder \<Rightarrow> builder" where
  "menu_add_option getenv token arg B =
     (case n_sym (entry_node B) of
        None \<Rightarrow> on_state fault B
      | Some s \<Rightarrow>
          (case token of
             T_OPT_MODULES \<Rightarrow>
               (let B1 = (case b_modules B of None \<Rightarrow> B
                    | Some old \<Rightarrow> on_state (diagnose (Zconf_error (''symbol '' @ quoted (name_text (tab (b_state B)) s) @
                        '' redefines option 'modules' already defined by symbol '' @
                        quoted (name_text (tab (b_state B)) old)))) B)
                in B1\<lparr>b_modules := Some s\<rparr>)
           | T_OPT_DEFCONFIG_LIST \<Rightarrow>
               (case b_defconfig B of
                  None \<Rightarrow> add_flag SYMBOL_AUTO s (B\<lparr>b_defconfig := Some s\<rparr>)
                | Some d \<Rightarrow> add_flag SYMBOL_AUTO d
                    (on_state (diagnose_if (d \<noteq> s) (Zconf_error ''trying to redefine defconfig symbol'')) B))
           | T_OPT_ENV \<Rightarrow> prop_add_env getenv arg B
           | T_OPT_ALLNOCONFIG_Y \<Rightarrow> add_flag SYMBOL_ALLNOCONFIG_Y s B))"

section \<open>Entries and menus\<close>

definition link :: "slot \<Rightarrow> nat \<Rightarrow> builder \<Rightarrow> builder" where
  "link sl i B =
     (case sl of
        List_of m \<Rightarrow> B\<lparr>b_list := (b_list B)(m := Some i)\<rparr>
      | Next_of m \<Rightarrow> B\<lparr>b_next := (b_next B)(m := Some i)\<rparr>)"

text \<open>Only the pointers: a new node at the end of the list of the current menu.\<close>

definition alloc_entry :: "symref option \<Rightarrow> builder \<Rightarrow> builder" where
  "alloc_entry s B =
     (let i = b_count B;
          B = B\<lparr>b_count := i + 1, b_node := (b_node B)(i := empty_node i s),
                b_parent := (b_parent B)(i := b_menu B),
                b_list := (b_list B)(i := None), b_next := (b_next B)(i := None)\<rparr>
      in (link (b_last B) i B)\<lparr>b_last := Next_of i, b_entry := i\<rparr>)"

definition menu_add_entry :: "symref option \<Rightarrow> builder \<Rightarrow> builder" where
  "menu_add_entry s B =
     (case s of
        None \<Rightarrow> alloc_entry s B
      | Some s' \<Rightarrow> menu_add_symbol P_SYMBOL s' None (alloc_entry s B))"

definition menu_add_menu :: "builder \<Rightarrow> builder" where
  "menu_add_menu B = B\<lparr>b_last := List_of (b_entry B), b_menu := Some (b_entry B)\<rparr>"

text \<open>\<open>None\<close>: there is no menu to end.\<close>

definition menu_end_menu :: "builder \<Rightarrow> builder option" where
  "menu_end_menu B =
     (case b_menu B of
        None \<Rightarrow> None
      | Some m \<Rightarrow> Some (B\<lparr>b_last := Next_of m, b_menu := b_parent B m\<rparr>))"

section \<open>The tree behind the pointers\<close>

fun chain :: "nat \<Rightarrow> builder \<Rightarrow> nat option \<Rightarrow> nat list" where
  "chain (Suc n) B (Some i) = i # chain n B (b_next B i)"
| "chain _ B _ = []"

definition children :: "builder \<Rightarrow> nat \<Rightarrow> nat list" where
  "children B m = chain (b_count B) B (b_list B m)"

fun tree_of :: "nat \<Rightarrow> builder \<Rightarrow> nat \<Rightarrow> menu" where
  "tree_of 0 B m = Menu (b_node B m) []"
| "tree_of (Suc n) B m = Menu (b_node B m) (map (tree_of n B) (children B m))"

text \<open>
  What the parser does: it adds entries, opens the entry it has just added as a menu,
  ends menus, and in between adds to the current entry. The option \<open>env\<close>, which also
  allocates symbols, is left out here.
\<close>

inductive builds :: "builder \<Rightarrow> bool" where
  init: "builds (menu_init M)"
| entry: "builds B \<Longrightarrow> b_menu B \<noteq> None \<Longrightarrow> builds (menu_add_entry s B)"
| open_menu: "builds B \<Longrightarrow> b_menu B \<noteq> None \<Longrightarrow> b_last B = Next_of (b_entry B) \<Longrightarrow> builds (menu_add_menu B)"
| end_menu: "builds B \<Longrightarrow> menu_end_menu B = Some B' \<Longrightarrow> builds B'"
| add_prop: "builds B \<Longrightarrow> builds (menu_add_prop ty prompt e dep B)"
| add_dep: "builds B \<Longrightarrow> builds (menu_add_dep d B)"
| add_visibility: "builds B \<Longrightarrow> builds (menu_add_visibility d B)"
| add_option: "builds B \<Longrightarrow> token \<noteq> T_OPT_ENV \<Longrightarrow> builds (menu_add_option getenv token arg B)"
| set_type: "builds B \<Longrightarrow> builds (on_state (menu_set_type (entry_node B) ty) B)"

definition links where
  "links B = (b_count B, b_parent B, b_list B, b_next B, b_entry B, b_menu B, b_last B)"

lemma links_simps [simp]:
  "links (on_state f B) = links B" "links (upd_node i g B) = links B" "links (add_flag fl s B) = links B"
  "links (b_modules_update h B) = links B" "links (b_defconfig_update k B) = links B" "links (b_env_update l B) = links B"
  by (simp_all add: links_def on_state_def upd_node_def add_flag_def)

lemma links_add_prop [simp]: "links (snd (add_prop p B)) = links B"
  by (simp add: add_prop_def split: option.split)

lemma links_menu_add_prop [simp]: "links (menu_add_prop ty prompt e dep B) = links B"
proof (cases prompt)
  case None
  then show ?thesis by (simp add: menu_add_prop_def)
next
  case (Some t)
  then show ?thesis
    by (simp add: menu_add_prop_def Let_def split_beta)
qed

lemma links_ops [simp]:
  "links (menu_add_dep d B) = links B" "links (menu_add_visibility d B) = links B"
  "links (menu_add_option getenv token arg B) = links B"
  by (simp_all add: menu_add_dep_def menu_add_visibility_def menu_add_option_def prop_add_env_def Let_def
      split: option.split option_token.split prod.split)

text \<open>The entries of a menu, in the order they were added.\<close>

definition below :: "builder \<Rightarrow> nat \<Rightarrow> nat list" where
  "below B m = filter (\<lambda>i. b_parent B i = Some m) [1..<b_count B]"

fun linked :: "builder \<Rightarrow> nat option \<Rightarrow> nat list \<Rightarrow> bool" where
  "linked B p [] \<longleftrightarrow> p = None"
| "linked B p (i # js) \<longleftrightarrow> p = Some i \<and> linked B (b_next B i) js"

text \<open>The open menus: each is the last entry of the one around it.\<close>

inductive open_from :: "builder \<Rightarrow> nat option \<Rightarrow> bool" for B where
  "open_from B None"
| "m = 0 \<Longrightarrow> open_from B (Some m)"
| "b_parent B m = Some p \<Longrightarrow> below B p \<noteq> [] \<Longrightarrow> last (below B p) = m \<Longrightarrow> open_from B (Some p) \<Longrightarrow> open_from B (Some m)"

inductive_cases open_from_Some: "open_from B (Some m)"

definition slot_ok :: "builder \<Rightarrow> nat \<Rightarrow> bool" where
  "slot_ok B m \<longleftrightarrow> (if below B m = [] then b_last B = List_of m else b_last B = Next_of (last (below B m)))"

definition tree_inv :: "builder \<Rightarrow> bool" where
  "tree_inv B \<longleftrightarrow> 0 < b_count B \<and> b_entry B = b_count B - 1 \<and> b_parent B 0 = None \<and>
     (\<forall>i < b_count B. 0 < i \<longrightarrow> (\<exists>p < i. b_parent B i = Some p)) \<and>
     (\<forall>i < b_count B. linked B (b_list B i) (below B i)) \<and>
     (\<forall>m. b_menu B = Some m \<longrightarrow> m < b_count B \<and> slot_ok B m) \<and> open_from B (b_menu B)"

lemma same_tree:
  assumes eq: "b_count B' = b_count B" "b_parent B' = b_parent B" "b_next B' = b_next B"
  shows "below B' = below B" "linked B' = linked B" "open_from B' = open_from B"
proof -
  show b: "below B' = below B" by (simp add: below_def fun_eq_iff eq)
  have "linked B' p js = linked B p js" for p js
    by (induction js arbitrary: p) (simp_all add: eq)
  then show "linked B' = linked B" by (simp add: fun_eq_iff)
  have "open_from B' p \<Longrightarrow> open_from B p" for p
    by (induction rule: open_from.induct) (auto simp: eq b intro: open_from.intros)
  moreover have "open_from B p \<Longrightarrow> open_from B' p" for p
    by (induction rule: open_from.induct) (auto simp: eq b intro: open_from.intros)
  ultimately show "open_from B' = open_from B" by (auto simp: fun_eq_iff)
qed

lemma tree_inv_links: "links B' = links B \<Longrightarrow> tree_inv B' = tree_inv B"
  using same_tree [of B' B] by (simp add: links_def tree_inv_def slot_ok_def)

lemma below_less: "i \<in> set (below B m) \<Longrightarrow> 0 < i \<and> i < b_count B \<and> b_parent B i = Some m"
  by (auto simp: below_def)

lemma linked_snoc:
  assumes "linked B p js" "i \<notin> set js" "distinct js"
    and nxt: "\<And>j. j \<in> set js \<Longrightarrow> b_next B' j = (if j = last js then Some i else b_next B j)" "b_next B' i = None"
    and start: "p' = (if js = [] then Some i else p)"
  shows "linked B' p' (js @ [i])"
  using assms
proof (induction js arbitrary: p p')
  case (Cons j js)
  show ?case
  proof (cases "js = []")
    case False
    have "linked B' (b_next B j) (js @ [i])"
    proof (rule Cons.IH)
      fix k assume "k \<in> set js"
      with Cons.prems(4) [of k] Cons.prems(3) False
      show "b_next B' k = (if k = last js then Some i else b_next B k)" by auto
    qed (use Cons.prems False in auto)
    moreover have "b_next B' j = b_next B j" using Cons.prems(3) Cons.prems(4) [of j] False by auto
    ultimately show ?thesis using Cons.prems False by simp
  qed (use Cons.prems in auto)
qed simp

lemma linked_cong:
  "linked B p js \<Longrightarrow> (\<And>j. j \<in> set js \<Longrightarrow> b_next B' j = b_next B j) \<Longrightarrow> linked B' p js"
  by (induction js arbitrary: p) auto

text \<open>A new entry \<open>i\<close> below the open menu \<open>m\<close>.\<close>

lemma alloc_entry_fields:
  assumes "b_menu B = Some m" "b_last B = sl"
  shows "b_count (alloc_entry s B) = Suc (b_count B)"
    "b_parent (alloc_entry s B) = (b_parent B)(b_count B := Some m)"
    "b_entry (alloc_entry s B) = b_count B" "b_menu (alloc_entry s B) = Some m"
    "b_last (alloc_entry s B) = Next_of (b_count B)"
    "b_list (alloc_entry s B) = (case sl of List_of j \<Rightarrow> ((b_list B)(b_count B := None))(j := Some (b_count B))
       | Next_of j \<Rightarrow> (b_list B)(b_count B := None))"
    "b_next (alloc_entry s B) = (case sl of Next_of j \<Rightarrow> ((b_next B)(b_count B := None))(j := Some (b_count B))
       | List_of j \<Rightarrow> (b_next B)(b_count B := None))"
  using assms by (simp_all add: alloc_entry_def Let_def link_def split: slot.split)

lemma below_alloc:
  assumes "b_menu B = Some m" "0 < b_count B"
  shows "below (alloc_entry s B) p = below B p @ (if p = m then [b_count B] else [])"
proof -
  have "[1..<b_count (alloc_entry s B)] = [1..<b_count B] @ [b_count B]"
    using assms(2) by (simp add: alloc_entry_fields(1) [OF assms(1) refl] upt_Suc)
  then show ?thesis
    using assms by (auto simp: below_def alloc_entry_fields(2) [OF assms(1) refl] intro!: filter_cong)
qed

lemma open_from_alloc:
  assumes menu: "b_menu B = Some m" and count: "0 < b_count B" "m < b_count B"
    and parents: "\<forall>i < b_count B. 0 < i \<longrightarrow> (\<exists>p < i. b_parent B i = Some p)" and root: "b_parent B 0 = None"
  shows "open_from B x \<Longrightarrow> (\<And>j. x = Some j \<Longrightarrow> j \<le> m) \<Longrightarrow> open_from (alloc_entry s B) x"
proof (induction rule: open_from.induct)
  case (3 j p)
  have j: "j \<le> m" "j < b_count B" using 3(6) [of j] count(2) by auto
  then have p: "p < j" using parents root 3(1) by (cases "j = 0") auto
  have "below (alloc_entry s B) p = below B p" using below_alloc [OF menu count(1)] p j by auto
  moreover have "b_parent (alloc_entry s B) j = Some p"
    using 3(1) j by (simp add: alloc_entry_fields(2) [OF menu refl])
  moreover have "open_from (alloc_entry s B) (Some p)" using p j by (intro 3(5)) auto
  ultimately show ?case using 3(2,3) by (metis open_from.intros(3))
qed (auto intro: open_from.intros)

lemma tree_inv_alloc:
  assumes inv: "tree_inv B" and menu: "b_menu B = Some m"
  shows "tree_inv (alloc_entry s B)"
proof -
  let ?B = "alloc_entry s B" and ?n = "b_count B"
  have count: "0 < ?n" and m: "m < ?n" and slot: "slot_ok B m" and root: "b_parent B 0 = None"
    and parents: "\<forall>i < ?n. 0 < i \<longrightarrow> (\<exists>p < i. b_parent B i = Some p)"
    and linked: "\<forall>i < ?n. linked B (b_list B i) (below B i)" and opened: "open_from B (Some m)"
    using inv menu by (auto simp: tree_inv_def)
  note fields = alloc_entry_fields [OF menu refl]
  have less: "j < ?n" if "j \<in> set (below B i)" for i j using below_less that by blast
  have disj: "i = k" if "j \<in> set (below B i)" "j \<in> set (below B k)" for i j k
    using below_less [OF that(1)] below_less [OF that(2)] by simp
  have "linked ?B (b_list ?B i) (below ?B i)" if "i < Suc ?n" for i
  proof (cases "i = ?n")
    case True
    then have "below B i = []" using below_less [of _ B ?n] parents by (fastforce simp: below_def filter_empty_conv)
    moreover have "b_list ?B ?n = None"
      using slot m by (auto simp: fields slot_ok_def split: slot.split if_splits)
    ultimately show ?thesis using True m by (simp add: below_alloc [OF menu count])
  next
    case False
    then have i: "i < ?n" using that by simp
    show ?thesis
    proof (cases "i = m")
      case True
      have "linked ?B (b_list ?B m) (below B m @ [?n])"
      proof (rule linked_snoc [of B "b_list B m"])
        show "linked B (b_list B m) (below B m)" using linked m by blast
        show "b_next ?B ?n = None" "b_list ?B m = (if below B m = [] then Some ?n else b_list B m)"
          using slot m less [of "last (below B m)" m]
          by (auto simp: fields slot_ok_def split: slot.splits if_splits)
        show "b_next ?B j = (if j = last (below B m) then Some ?n else b_next B j)" if "j \<in> set (below B m)" for j
          using slot that less [OF that] by (auto simp: fields slot_ok_def split: slot.splits if_splits)
      qed (use less in \<open>auto simp: below_def\<close>)
      with True show ?thesis by (simp add: below_alloc [OF menu count])
    next
      case other: False
      have "linked ?B (b_list B i) (below B i)"
      proof (rule linked_cong [of B])
        show "linked B (b_list B i) (below B i)" using linked i by blast
        show "b_next ?B j = b_next B j" if "j \<in> set (below B i)" for j
          using slot that less [OF that] other disj [OF that, of m] last_in_set [of "below B m"]
          by (auto simp: fields slot_ok_def split: slot.splits if_splits)
      qed
      moreover have "b_list ?B i = b_list B i"
        using slot other False by (auto simp: fields slot_ok_def split: slot.splits if_splits)
      ultimately show ?thesis using other by (simp add: below_alloc [OF menu count])
    qed
  qed
  moreover have "open_from ?B (Some m)"
    using open_from_alloc [OF menu count m parents root opened] by simp
  moreover have "slot_ok ?B m" by (simp add: slot_ok_def below_alloc [OF menu count] fields)
  moreover have "\<exists>p < i. b_parent ?B i = Some p" if "i < Suc ?n" "0 < i" for i
    using parents that m by (cases "i = ?n") (auto simp: fields)
  ultimately show ?thesis using count m root by (auto simp: tree_inv_def fields)
qed

lemma builds_inv: "builds B \<Longrightarrow> tree_inv B"
proof (induction rule: builds.induct)
  case (init M)
  show ?case by (auto simp: tree_inv_def menu_init_def slot_ok_def below_def intro: open_from.intros)
next
  case (entry B s)
  then obtain m where "b_menu B = Some m" by auto
  with entry tree_inv_alloc [of B m s]
  show ?case
    by (auto simp: menu_add_entry_def menu_add_symbol_def tree_inv_links [OF links_menu_add_prop] split: option.split)
next
  case (open_menu B)
  let ?B = "menu_add_menu B"
  have fields: "b_parent ?B = b_parent B" "b_list ?B = b_list B" "b_next ?B = b_next B" "b_count ?B = b_count B"
    "b_entry ?B = b_entry B" "b_menu ?B = Some (b_entry B)" "b_last ?B = List_of (b_entry B)"
    by (simp_all add: menu_add_menu_def)
  note eq = same_tree [OF fields(4,1,3)] fields
  have inv: "tree_inv B" by (rule open_menu.IH)
  let ?e = "b_entry B"
  have e: "?e = b_count B - 1" "?e < b_count B" using inv by (auto simp: tree_inv_def)
  have none: "below B ?e = []"
    using inv e by (fastforce simp: tree_inv_def below_def filter_empty_conv)
  obtain m where Some: "b_menu B = Some m" using open_menu.hyps by auto
  with inv open_menu.hyps(3) have m: "below B m \<noteq> []" "last (below B m) = ?e" "open_from B (Some m)"
    by (auto simp: tree_inv_def slot_ok_def split: if_splits)
  from this have "b_parent B ?e = Some m" using below_less last_in_set by metis
  with m have "open_from B (Some ?e)" by (metis open_from.intros(3))
  with inv e none show ?case by (simp add: tree_inv_def slot_ok_def eq)
next
  case (end_menu B B')
  then obtain m where m: "b_menu B = Some m" and B': "B' = B\<lparr>b_last := Next_of m, b_menu := b_parent B m\<rparr>"
    by (auto simp: menu_end_menu_def split: option.splits)
  have eq: "below B' = below B" "linked B' = linked B" "open_from B' = open_from B"
    by (rule same_tree; simp add: B')+
  have inv: "tree_inv B" by (rule end_menu.IH)
  with m have opened: "open_from B (Some m)" "m < b_count B" and parents: "b_parent B 0 = None"
      "\<forall>i < b_count B. 0 < i \<longrightarrow> (\<exists>p < i. b_parent B i = Some p)"
    by (auto simp: tree_inv_def)
  have "open_from B (b_parent B m) \<and> (\<forall>p. b_parent B m = Some p \<longrightarrow>
      p < b_count B \<and> below B p \<noteq> [] \<and> last (below B p) = m)"
  proof (rule open_from_Some [OF opened(1)])
    assume "m = 0"
    with parents(1) show ?thesis by (simp add: open_from.intros)
  next
    fix p
    assume p: "b_parent B m = Some p" "below B p \<noteq> []" "last (below B p) = m" "open_from B (Some p)"
    with parents opened(2) have "p < b_count B" by (cases "m = 0") force+
    with p show ?thesis by auto
  qed
  with inv show ?case by (auto simp: tree_inv_def eq slot_ok_def) (auto simp: B')
next
  case (add_prop B ty prompt e dep)
  then show ?case using tree_inv_links [OF links_menu_add_prop] by blast
next
  case (add_dep B d)
  then show ?case using tree_inv_links [OF links_ops(1)] by blast
next
  case (add_visibility B d)
  then show ?case using tree_inv_links [OF links_ops(2)] by blast
next
  case (add_option B token getenv arg)
  then show ?case using tree_inv_links [OF links_ops(3)] by blast
next
  case (set_type B ty)
  then show ?case using tree_inv_links [OF links_simps(1)] by blast
qed

section \<open>Prompts\<close>

text \<open>The prompts of all nodes are properties their symbols have.\<close>

definition prompts_valid :: "builder \<Rightarrow> bool" where
  "prompts_valid B \<longleftrightarrow> (\<forall>i. prompt_valid (tab (b_state B)) (b_node B i))"

lemma prompts_on_state:
  "prompts_valid B \<Longrightarrow> (\<And>M. keeps M (f M)) \<Longrightarrow> prompts_valid (on_state f B)"
  using keeps_all(3) by (fastforce simp: prompts_valid_def on_state_def)

lemma prompts_node:
  assumes "prompts_valid B" "\<And>n. n_prompt (f n) = n_prompt n \<and> n_sym (f n) = n_sym n"
  shows "prompts_valid (upd_node i f B)"
  using assms prompt_valid_same [of "f (b_node B i)" "b_node B i"]
  by (auto simp: prompts_valid_def upd_node_def)

lemma prompts_add_prop:
  assumes "prompts_valid B"
  shows "prompts_valid (snd (add_prop p B))"
    "prompts_valid (upd_node (b_entry B) (\<lambda>n. n\<lparr>n_prompt := Some (fst (add_prop p B))\<rparr>) (snd (add_prop p B)))"
proof -
  have keep: "keeps M (upd s (\<lambda>r. r\<lparr>s_prop := s_prop r @ [p]\<rparr>) M)" for s M
    by (rule keeps_upd) (simp add: grows_def)
  show one: "prompts_valid (snd (add_prop p B))"
    using assms prompts_on_state keep by (auto simp: add_prop_def split: option.split)
  show "prompts_valid (upd_node (b_entry B) (\<lambda>n. n\<lparr>n_prompt := Some (fst (add_prop p B))\<rparr>) (snd (add_prop p B)))"
  proof (cases "n_sym (entry_node B)")
    case None
    with one show ?thesis by (auto simp: add_prop_def prompts_valid_def upd_node_def prompt_valid_def)
  next
    case (Some s)
    with one show ?thesis
      by (auto simp: add_prop_def prompts_valid_def upd_node_def on_state_def)
        (simp add: prompt_valid_def upd_def upd_sym_def)
  qed
qed

lemma prompts_menu_add_prop: "prompts_valid B \<Longrightarrow> prompts_valid (menu_add_prop ty prompt e dep B)"
proof (cases prompt)
  case None
  assume "prompts_valid B"
  with None show ?thesis by (simp add: menu_add_prop_def prompts_add_prop)
next
  case (Some t)
  assume B: "prompts_valid B"
  let ?f = "diagnose_if (case t of c # _ \<Rightarrow> c_isspace c | [] \<Rightarrow> False) (Prop_warn ''leading whitespace ignored'')"
  let ?B = "on_state ?f B"
  let ?C = "on_state (diagnose_if (n_prompt (entry_node ?B) \<noteq> None \<and> b_entry ?B \<noteq> 0) (Prop_warn ''prompt redefined'')) ?B"
  have C: "prompts_valid ?C"
    by (intro prompts_on_state keeps_diagnose B)
  have entry: "b_entry (snd (add_prop p B')) = b_entry B'" for p B'
    using links_add_prop [of p B'] by (simp add: links_def)
  have same: "b_entry (on_state f B') = b_entry B'" for f B'
    by (simp add: on_state_def)
  show ?thesis
    using prompts_add_prop(2) [OF C]
    unfolding Some menu_add_prop_def Let_def option.case split_beta entry same by blast
qed

lemma link_same [simp]: "b_state (link sl i B) = b_state B" "b_node (link sl i B) = b_node B"
  by (cases sl; simp add: link_def)+

lemma prompts_alloc: "prompts_valid B \<Longrightarrow> prompts_valid (alloc_entry s B)"
  by (simp add: prompts_valid_def alloc_entry_def Let_def) (simp add: empty_node_def prompt_valid_def)

lemma prompts_option:
  assumes "prompts_valid B" "token \<noteq> T_OPT_ENV"
  shows "prompts_valid (menu_add_option getenv token arg B)"
proof -
  have flag: "prompts_valid (add_flag fl s C)" if "prompts_valid C" for fl s C
    unfolding add_flag_def by (rule prompts_on_state [OF that keeps_flag])
  have diag: "prompts_valid (on_state (diagnose_if b d) C)" "prompts_valid (on_state (diagnose d) C)"
      "prompts_valid (on_state fault C)" if "prompts_valid C" for b d C
    using prompts_on_state [OF that] keeps_diagnose by auto
  have field: "prompts_valid (C\<lparr>b_modules := x\<rparr>) = prompts_valid C" "prompts_valid (C\<lparr>b_defconfig := x\<rparr>) = prompts_valid C" for C x
    by (simp_all add: prompts_valid_def)
  show ?thesis
    using assms by (auto simp: menu_add_option_def field Let_def intro!: flag diag split: option.split option_token.split)
qed

lemma builds_prompts: "builds B \<Longrightarrow> prompts_valid B"
proof (induction rule: builds.induct)
  case (init M)
  show ?case by (simp add: prompts_valid_def menu_init_def empty_node_def prompt_valid_def)
next
  case (entry B s)
  then show ?case
    by (auto simp: menu_add_entry_def menu_add_symbol_def intro: prompts_alloc prompts_menu_add_prop split: option.split)
next
  case (open_menu B)
  then show ?case by (simp add: prompts_valid_def menu_add_menu_def)
next
  case (end_menu B B')
  then show ?case by (auto simp: prompts_valid_def menu_end_menu_def split: option.splits)
next
  case (set_type B ty)
  then show ?case using prompts_on_state keeps_menu_set_type by blast
next
  case (add_dep B d)
  then show ?case unfolding menu_add_dep_def by (intro prompts_node) auto
next
  case (add_visibility B d)
  then show ?case unfolding menu_add_visibility_def by (intro prompts_node) auto
qed (auto intro: prompts_menu_add_prop prompts_option)

section \<open>The tree\<close>

lemma chain_linked: "linked B p js \<Longrightarrow> length js \<le> n \<Longrightarrow> chain n B p = js"
proof (induction js arbitrary: p n)
  case (Cons j js)
  then show ?case by (cases n) auto
qed (cases n; simp)

lemma builds_children:
  assumes "builds B" "m < b_count B"
  shows "children B m = below B m"
proof -
  have "length (below B m) \<le> length [1..<b_count B]" unfolding below_def by (rule length_filter_le)
  then show ?thesis
    using builds_inv [OF assms(1)] assms(2) unfolding children_def
    by (intro chain_linked) (auto simp: tree_inv_def)
qed

lemma tree_of_valid: "prompts_valid B \<Longrightarrow> valid (tab (b_state B)) (tree_of n B m)"
  by (induction n arbitrary: m) (simp_all add: prompts_valid_def list_all_iff)


text \<open>Option A with a prompt, then an \<open>if\<close> with B below it, which depends on A, then C.\<close>

definition build_a :: builder where
  "build_a = menu_add_prompt P_PROMPT ''a'' None (menu_add_entry (Some (Sym 0)) (menu_init menu_state))"

definition build_if :: builder where
  "build_if = menu_add_menu (menu_add_entry None build_a)"

definition build_b :: builder where
  "build_b = menu_add_dep (Some (Esym (Sym 0))) (menu_add_entry (Some (Sym 1)) build_if)"

definition sample_build :: builder where
  "sample_build = menu_add_entry (Some (Sym 2)) (the (menu_end_menu build_b))"

lemma links_entry:
  assumes "links B = (n, P, L, N, e, Some m, sl)"
  shows "links (menu_add_entry s B) =
    (Suc n, P(n := Some m), (case sl of List_of j \<Rightarrow> (L(n := None))(j := Some n) | Next_of j \<Rightarrow> L(n := None)),
     (case sl of Next_of j \<Rightarrow> (N(n := None))(j := Some n) | List_of j \<Rightarrow> N(n := None)), n, Some m, Next_of n)"
proof -
  have "links (menu_add_entry s B) = links (alloc_entry s B)"
    by (simp add: menu_add_entry_def menu_add_symbol_def split: option.split)
  moreover have "b_menu B = Some m" using assms by (simp add: links_def)
  ultimately show ?thesis using assms alloc_entry_fields [of B m sl s] by (simp add: links_def split: slot.split)
qed

lemma links_menus:
  assumes "links B = (n, P, L, N, e, m, sl)"
  shows "links (menu_add_menu B) = (n, P, L, N, e, Some e, List_of e)"
    "m = Some k \<Longrightarrow> links (the (menu_end_menu B)) = (n, P, L, N, e, P k, Next_of k)"
  using assms by (simp_all add: links_def menu_add_menu_def menu_end_menu_def)

lemma sample_links:
  "\<exists>L N. links build_a = (2, [1 \<mapsto> 0], L, N, 1, Some 0, Next_of 1)"
  "\<exists>L N. links (menu_add_entry None build_a) = (3, [1 \<mapsto> 0, 2 \<mapsto> 0], L, N, 2, Some 0, Next_of 2)"
  "\<exists>L N. links build_b = (4, [1 \<mapsto> 0, 2 \<mapsto> 0, 3 \<mapsto> 2], L, N, 3, Some 2, Next_of 3)"
  "\<exists>L N. links sample_build = (5, [1 \<mapsto> 0, 2 \<mapsto> 0, 3 \<mapsto> 2, 4 \<mapsto> 0], L, N, 4, Some 0, Next_of 4)"
proof -
  have "links (menu_init menu_state) = (1, Map.empty, Map.empty, Map.empty, 0, Some 0, List_of 0)"
    by (simp add: links_def menu_init_def)
  from links_entry [OF this] show a: "\<exists>L N. links build_a = (2, [1 \<mapsto> 0], L, N, 1, Some 0, Next_of 1)"
    by (simp add: build_a_def menu_add_prompt_def)
  then show b: "\<exists>L N. links (menu_add_entry None build_a) = (3, [1 \<mapsto> 0, 2 \<mapsto> 0], L, N, 2, Some 0, Next_of 2)"
    using links_entry by fastforce
  then have "\<exists>L N. links build_if = (3, [1 \<mapsto> 0, 2 \<mapsto> 0], L, N, 2, Some 2, List_of 2)"
    unfolding build_if_def using links_menus(1) by fast
  then show c: "\<exists>L N. links build_b = (4, [1 \<mapsto> 0, 2 \<mapsto> 0, 3 \<mapsto> 2], L, N, 3, Some 2, Next_of 3)"
    unfolding build_b_def using links_entry by fastforce
  then have "\<exists>L N. links (the (menu_end_menu build_b)) = (4, [1 \<mapsto> 0, 2 \<mapsto> 0, 3 \<mapsto> 2], L, N, 3, Some 0, Next_of 2)"
    using links_menus(2) [of build_b] by fastforce
  then show "\<exists>L N. links sample_build = (5, [1 \<mapsto> 0, 2 \<mapsto> 0, 3 \<mapsto> 2, 4 \<mapsto> 0], L, N, 4, Some 0, Next_of 4)"
    unfolding sample_build_def using links_entry by fastforce
qed

lemma sample_build_builds: "builds sample_build"
proof -
  have "b_menu (menu_init menu_state) \<noteq> None" by (simp add: menu_init_def)
  then have a: "builds build_a"
    unfolding build_a_def menu_add_prompt_def by (intro builds.add_prop builds.entry builds.init)
  have "b_menu build_a \<noteq> None" "b_menu (menu_add_entry None build_a) \<noteq> None"
    "b_last (menu_add_entry None build_a) = Next_of (b_entry (menu_add_entry None build_a))"
    using sample_links(1,2) by (auto simp: links_def)
  then have "builds build_if" unfolding build_if_def using a by (intro builds.open_menu builds.entry)
  moreover have "b_menu build_if \<noteq> None" by (simp add: build_if_def menu_add_menu_def)
  ultimately have b: "builds build_b" unfolding build_b_def by (intro builds.add_dep builds.entry)
  have m: "b_menu build_b = Some 2" "b_parent build_b 2 = Some 0" using sample_links(3) by (auto simp: links_def)
  then have "builds (the (menu_end_menu build_b))"
    using b by (auto simp: menu_end_menu_def intro: builds.end_menu)
  moreover have "b_menu (the (menu_end_menu build_b)) \<noteq> None" using m by (simp add: menu_end_menu_def)
  ultimately show ?thesis
    unfolding sample_build_def by (intro builds.entry)
qed


end
