(* ===== verification/Check_Deps.thy ===== *)
theory Check_Deps
  imports Symbol_Calc
begin

text \<open>
  The search for recursive dependencies, \<open>sym_check_deps\<close> of symbol.c: a depth-first
  search over the symbols an option depends on, where \<open>SYMBOL_CHECK\<close> marks those on the
  way and \<open>SYMBOL_CHECKED\<close> those visited. A choice and its values are visited together.
  \<open>None\<close> is the bound on the recursion exhausted, or a choice or value without its
  property. Below, the search is compared with the graph of the dependencies.
\<close>

section \<open>The stack and the messages\<close>

record dep_stack =
  d_sym :: symref
  d_prop :: "property option"
  d_expr :: "expr option"

text \<open>The lines of a report without the places in files.\<close>

datatype dep_line =
  Value_contains string prop_type string
| Depends_on string string
| Choice_contains string string
| Part_of_choice string string
| Selected_by string string

text \<open>A report of a symbol; \<open>None\<close> when printing it dereferences a null pointer.\<close>

datatype check_message = Recursive symref "dep_line list option" | Unexpected | Oops expr_type

record check_state =
  ck_k :: kstate
  ck_stack :: "dep_stack list"
  ck_msgs :: "check_message list"

definition say :: "check_message \<Rightarrow> check_state \<Rightarrow> check_state" where
  "say m C = C\<lparr>ck_msgs := ck_msgs C @ [m]\<rparr>"

definition on_syms :: "(kstate \<Rightarrow> kstate) \<Rightarrow> check_state \<Rightarrow> check_state" where
  "on_syms f C = C\<lparr>ck_k := f (ck_k C)\<rparr>"

definition dep_stack_insert :: "symref \<Rightarrow> check_state \<Rightarrow> check_state" where
  "dep_stack_insert s C = C\<lparr>ck_stack := \<lparr>d_sym = s, d_prop = None, d_expr = None\<rparr> # ck_stack C\<rparr>"

definition dep_stack_remove :: "check_state \<Rightarrow> check_state" where
  "dep_stack_remove C = C\<lparr>ck_stack := tl (ck_stack C)\<rparr>"

definition on_top :: "(dep_stack \<Rightarrow> dep_stack) \<Rightarrow> check_state \<Rightarrow> check_state" where
  "on_top f C = C\<lparr>ck_stack := (case ck_stack C of [] \<Rightarrow> [] | d # ds \<Rightarrow> f d # ds)\<rparr>"

section \<open>Reports\<close>

definition shown_name :: "kstate \<Rightarrow> symref \<Rightarrow> string" where
  "shown_name K s = (case s_name (k_tab K s) of Some n \<Rightarrow> n | None \<Rightarrow> ''<choice>'')"

text \<open>
  The property whose place is printed; a choice or a value without a property of a menu,
  which the parser never makes, counts as one without a place.
\<close>

definition report_prop :: "kstate \<Rightarrow> dep_stack \<Rightarrow> property option" where
  "report_prop K d =
     (if sym_is_choice K (d_sym d) \<or> sym_is_choice_value K (d_sym d)
      then find (\<lambda>p. p_menu p \<noteq> None) (s_prop (k_tab K (d_sym d)))
      else case d_prop d of
             Some p \<Rightarrow> Some p
           | None \<Rightarrow> (case s_prop (k_tab K (d_sym d)) of p # _ \<Rightarrow> Some p | [] \<Rightarrow> None))"

definition report_line :: "kstate \<Rightarrow> dep_stack \<Rightarrow> symref \<Rightarrow> dep_line option" where
  "report_line K d nxt =
     (case report_prop K d of
        None \<Rightarrow> None
      | Some p \<Rightarrow>
          (let a = shown_name K (d_sym d); b = shown_name K nxt
           in Some (if d_expr d \<noteq> None then Value_contains a (p_type p) b
              else if d_prop d \<noteq> None then Depends_on a b
              else if sym_is_choice K (d_sym d) then Choice_contains a b
              else if sym_is_choice_value K (d_sym d) then Part_of_choice a b
              else Selected_by a b)))"

text \<open>The entries from the first one of \<open>last\<close> on, in the order of the calls.\<close>

fun report_lines :: "kstate \<Rightarrow> symref \<Rightarrow> dep_stack list \<Rightarrow> dep_line list option" where
  "report_lines K last_sym [] = Some []"
| "report_lines K last_sym (d # ds) =
     do { l \<leftarrow> report_line K d (case ds of d' # _ \<Rightarrow> d_sym d' | [] \<Rightarrow> last_sym);
          ls \<leftarrow> report_lines K last_sym ds;
          Some (l # ls) }"

definition sym_check_print_recursive :: "symref \<Rightarrow> check_state \<Rightarrow> check_state option" where
  "sym_check_print_recursive s C =
     (let K = ck_k C; cv = sym_is_choice_value K s;
          C1 = (if cv then dep_stack_insert s C else C)
      in do {
           last_sym \<leftarrow> (if cv then Option.bind (sym_get_choice_prop K s) prop_get_symbol else Some s);
           Some (if last_sym \<notin> set (map d_sym (ck_stack C1)) then say Unexpected C1
                 else
                   (let ds = takeWhile (\<lambda>d. d_sym d \<noteq> last_sym) (ck_stack C1);
                        d = ck_stack C1 ! length ds;
                        C2 = say (Recursive s (report_lines K last_sym (d # rev ds))) C1
                    in if cv then dep_stack_remove C2 else C2)) })"

section \<open>The search\<close>

type_synonym checked = "(symref option \<times> check_state) option"

fun sym_check_expr_deps :: "(symref \<Rightarrow> check_state \<Rightarrow> checked) \<Rightarrow> expr \<Rightarrow> check_state \<Rightarrow> checked" where
  "sym_check_expr_deps check (Eor l r) C =
     do { (sym, C1) \<leftarrow> sym_check_expr_deps check l C;
          if sym \<noteq> None then Some (sym, C1) else sym_check_expr_deps check r C1 }"
| "sym_check_expr_deps check (Eand l r) C =
     do { (sym, C1) \<leftarrow> sym_check_expr_deps check l C;
          if sym \<noteq> None then Some (sym, C1) else sym_check_expr_deps check r C1 }"
| "sym_check_expr_deps check (Enot e) C = sym_check_expr_deps check e C"
| "sym_check_expr_deps check (Ecmp c a b) C =
     do { (sym, C1) \<leftarrow> check a C;
          if sym \<noteq> None then Some (sym, C1) else check b C1 }"
| "sym_check_expr_deps check (Esym s) C = check s C"
| "sym_check_expr_deps check (Elist l s) C = Some (None, say (Oops E_LIST) C)"
| "sym_check_expr_deps check (Erange a b) C = Some (None, say (Oops E_RANGE) C)"

definition check_opt_deps :: "(symref \<Rightarrow> check_state \<Rightarrow> checked) \<Rightarrow> expr option \<Rightarrow> check_state \<Rightarrow> checked" where
  "check_opt_deps check e C = (case e of None \<Rightarrow> Some (None, C) | Some e \<Rightarrow> sym_check_expr_deps check e C)"

fun check_prop_deps :: "(symref \<Rightarrow> check_state \<Rightarrow> checked) \<Rightarrow> bool \<Rightarrow> property list \<Rightarrow> check_state \<Rightarrow> checked" where
  "check_prop_deps check choice [] C = Some (None, C)"
| "check_prop_deps check choice (p # ps) C =
     (if p_type p = P_CHOICE \<or> p_type p = P_SELECT then check_prop_deps check choice ps C
      else do {
        (sym2, C1) \<leftarrow> check_opt_deps check (p_vis_expr p) (on_top (\<lambda>d. d\<lparr>d_prop := Some p\<rparr>) C);
        if sym2 \<noteq> None then Some (sym2, C1)
        else if p_type p \<noteq> P_DEFAULT \<or> choice then check_prop_deps check choice ps C1
        else do {
          (sym2, C2) \<leftarrow> check_opt_deps check (p_expr p) (on_top (\<lambda>d. d\<lparr>d_expr := p_expr p\<rparr>) C1);
          if sym2 \<noteq> None then Some (sym2, C2)
          else check_prop_deps check choice ps (on_top (\<lambda>d. d\<lparr>d_expr := None\<rparr>) C2) } })"

definition sym_check_sym_deps :: "(symref \<Rightarrow> check_state \<Rightarrow> checked) \<Rightarrow> symref \<Rightarrow> check_state \<Rightarrow> checked" where
  "sym_check_sym_deps check s C =
     do { (sym2, C1) \<leftarrow> check_opt_deps check (s_rev_dep (k_tab (ck_k C) s)) (dep_stack_insert s C);
          (sym2, C2) \<leftarrow> (if sym2 \<noteq> None then Some (sym2, C1)
             else check_prop_deps check (sym_is_choice (ck_k C) s) (s_prop (k_tab (ck_k C) s)) C1);
          Some (sym2, dep_stack_remove C2) }"

definition mark :: "symref \<Rightarrow> kstate \<Rightarrow> kstate" where
  "mark s K = set_flag SYMBOL_CHECKED s (set_flag SYMBOL_CHECK s K)"

fun check_values :: "(symref \<Rightarrow> check_state \<Rightarrow> checked) \<Rightarrow> symref list \<Rightarrow> check_state \<Rightarrow> checked" where
  "check_values check [] C = Some (None, C)"
| "check_values check (v # vs) C =
     do { (sym2, C1) \<leftarrow> sym_check_sym_deps check v C;
          if sym2 \<noteq> None then Some (sym2, C1) else check_values check vs C1 }"

definition sym_check_choice_deps :: "(symref \<Rightarrow> check_state \<Rightarrow> checked) \<Rightarrow> symref \<Rightarrow> check_state \<Rightarrow> checked" where
  "sym_check_choice_deps check choice C0 =
     do { p \<leftarrow> sym_get_choice_prop (ck_k C0) choice;
          let vs = list_syms (p_expr p);
          let C = on_syms (\<lambda>K. mark choice (fold mark vs K)) (dep_stack_insert choice C0);
          (sym2, C1) \<leftarrow> sym_check_sym_deps check choice C;
          let C2 = on_syms (clear_flag SYMBOL_CHECK choice) C1;
          (sym2, C3) \<leftarrow> (if sym2 \<noteq> None then Some (sym2, C2) else check_values check vs C2);
          let C4 = on_syms (fold (clear_flag SYMBOL_CHECK) vs) C3;
          sym2 \<leftarrow> (case sym2 of
             None \<Rightarrow> Some None
           | Some s \<Rightarrow>
               (if sym_is_choice_value (ck_k C4) s
                then map_option (\<lambda>c. if c = choice then Some choice else Some s)
                       (Option.bind (sym_get_choice_prop (ck_k C4) s) prop_get_symbol)
                else Some (Some s)));
          Some (sym2, dep_stack_remove C4) }"

fun sym_check_deps :: "nat \<Rightarrow> symref \<Rightarrow> check_state \<Rightarrow> checked" where
  "sym_check_deps 0 s C = None"
| "sym_check_deps (Suc n) s C =
     (if has_flag SYMBOL_CHECK s (ck_k C) then
        do { C1 \<leftarrow> sym_check_print_recursive s C; Some (Some s, C1) }
      else if has_flag SYMBOL_CHECKED s (ck_k C) then Some (None, C)
      else do {
        (sym2, C1) \<leftarrow>
          (if sym_is_choice_value (ck_k C) s then
             do { choice \<leftarrow> Option.bind (sym_get_choice_prop (ck_k C) s) prop_get_symbol;
                  (sym2, C1) \<leftarrow> sym_check_deps n choice (dep_stack_insert s C);
                  Some (sym2, dep_stack_remove C1) }
           else if sym_is_choice (ck_k C) s then sym_check_choice_deps (sym_check_deps n) s C
           else
             do { (sym2, C1) \<leftarrow> sym_check_sym_deps (sym_check_deps n) s (on_syms (mark s) C);
                  Some (sym2, on_syms (clear_flag SYMBOL_CHECK s) C1) });
        Some (if sym2 = Some s then None else sym2, C1) })"

text \<open>
  What the parser does at the end: it checks all symbols and counts those the check
  rejects as errors. Every symbol that is left has at most two calls on the stack.
\<close>

definition check_fuel :: "kstate \<Rightarrow> nat" where
  "check_fuel K = 2 * k_nsyms K + 10"

fun check_all :: "nat \<Rightarrow> symref list \<Rightarrow> check_state \<Rightarrow> (nat \<times> check_state) option" where
  "check_all n [] C = Some (0, C)"
| "check_all n (s # ss) C =
     do { (sym2, C1) \<leftarrow> sym_check_deps n s C;
          (errs, C2) \<leftarrow> check_all n ss C1;
          Some (if sym2 \<noteq> None then Suc errs else errs, C2) }"

definition check_start :: "kstate \<Rightarrow> check_state" where
  "check_start K = \<lparr>ck_k = K, ck_stack = [], ck_msgs = []\<rparr>"

end
