(* ===== verification/Check_Graph.thy ===== *)
theory Check_Graph
  imports Check_Deps
begin

text \<open>
  What the search for recursive dependencies finds. The graph is that of the symbols an
  option's conditions and defaults name, with a node for a choice and one for all its
  values together: the values depend on their choice, whose own value does not depend on
  them. The search of \<open>symbol.c\<close> treats both as one where it starts from the choice.
\<close>

section \<open>The graph\<close>

definition owner :: "kstate \<Rightarrow> symref \<Rightarrow> symref option" where
  "owner K v = Option.bind (sym_get_choice_prop K v) prop_get_symbol"

definition choice_syms :: "kstate \<Rightarrow> symref \<Rightarrow> symref list" where
  "choice_syms K c = (case sym_get_choice_prop K c of None \<Rightarrow> [] | Some p \<Rightarrow> list_syms (p_expr p))"

fun expr_syms :: "expr \<Rightarrow> symref set" where
  "expr_syms (Eor l r) = expr_syms l \<union> expr_syms r"
| "expr_syms (Eand l r) = expr_syms l \<union> expr_syms r"
| "expr_syms (Enot e) = expr_syms e"
| "expr_syms (Ecmp c a b) = {a, b}"
| "expr_syms (Esym s) = {s}"
| "expr_syms _ = {}"

definition opt_syms :: "expr option \<Rightarrow> symref set" where
  "opt_syms e = (case e of None \<Rightarrow> {} | Some e \<Rightarrow> expr_syms e)"

text \<open>The symbols a symbol depends on: selections, conditions, and defaults but of a choice.\<close>

definition prop_syms :: "bool \<Rightarrow> property \<Rightarrow> symref set" where
  "prop_syms choice p =
     (if p_type p = P_CHOICE \<or> p_type p = P_SELECT then {}
      else opt_syms (p_vis_expr p) \<union> (if p_type p = P_DEFAULT \<and> \<not> choice then opt_syms (p_expr p) else {}))"

definition deps :: "kstate \<Rightarrow> symref \<Rightarrow> symref set" where
  "deps K s = opt_syms (s_rev_dep (k_tab K s)) \<union>
     (\<Union>p \<in> set (s_prop (k_tab K s)). prop_syms (sym_is_choice K s) p)"

text \<open>A symbol with its choice as one, and the node of a symbol: of a value, that of all values.\<close>

definition group :: "kstate \<Rightarrow> symref \<Rightarrow> symref" where
  "group K s = (if sym_is_choice_value K s then the (owner K s) else s)"

definition node :: "kstate \<Rightarrow> symref \<Rightarrow> symref \<times> bool" where
  "node K s = (group K s, sym_is_choice_value K s)"

definition group_graph :: "kstate \<Rightarrow> (symref \<times> symref) set" where
  "group_graph K = {(group K s, group K t) | s t. t \<in> deps K s}"

definition graph :: "kstate \<Rightarrow> ((symref \<times> bool) \<times> (symref \<times> bool)) set" where
  "graph K = {(node K s, node K t) | s t. t \<in> deps K s \<or> (sym_is_choice_value K s \<and> owner K s = Some t)}"

text \<open>
  A store the search works on: choices and values belong together, and only
  allocated or constant symbols are named.
\<close>

definition known :: "kstate \<Rightarrow> symref set" where
  "known K = {symbol_yes, symbol_mod, symbol_no, symbol_empty} \<union> set (all_symbols K)"

definition deps_wf :: "kstate \<Rightarrow> bool" where
  "deps_wf K \<longleftrightarrow>
     (\<forall>s. s \<in> known K \<longrightarrow> deps K s \<subseteq> known K) \<and>
     (\<forall>v. sym_is_choice_value K v \<longrightarrow> \<not> sym_is_choice K v \<and>
        (\<exists>c. owner K v = Some c \<and> sym_is_choice K c \<and> v \<in> set (choice_syms K c))) \<and>
     (\<forall>c. sym_is_choice K c \<longrightarrow> sym_get_choice_prop K c \<noteq> None \<and> c \<in> known K \<and>
        (\<forall>v \<in> set (choice_syms K c). v \<in> known K \<and> sym_is_choice_value K v \<and> owner K v = Some c))"

section \<open>Marks\<close>

definition unmarked :: "kstate \<Rightarrow> kstate" where
  "unmarked K = K\<lparr>k_tab := (\<lambda>s. (k_tab K s)\<lparr>s_flags := s_flags (k_tab K s) - {SYMBOL_CHECK, SYMBOL_CHECKED}\<rparr>)\<rparr>"

definition gray :: "check_state \<Rightarrow> symref set" where
  "gray C = {s. has_flag SYMBOL_CHECK s (ck_k C)}"

definition seen :: "check_state \<Rightarrow> symref set" where
  "seen C = {s. has_flag SYMBOL_CHECKED s (ck_k C)}"

lemma unmarked_static:
  assumes "unmarked K' = unmarked K"
  shows "sym_is_choice K' = sym_is_choice K" "sym_is_choice_value K' = sym_is_choice_value K"
    "sym_get_choice_prop K' = sym_get_choice_prop K" "s_prop (k_tab K' s) = s_prop (k_tab K s)"
    "s_rev_dep (k_tab K' s) = s_rev_dep (k_tab K s)"
proof -
  have eq: "(k_tab K' s)\<lparr>s_flags := s_flags (k_tab K' s) - {SYMBOL_CHECK, SYMBOL_CHECKED}\<rparr> =
      (k_tab K s)\<lparr>s_flags := s_flags (k_tab K s) - {SYMBOL_CHECK, SYMBOL_CHECKED}\<rparr>" for s
    using arg_cong [OF assms, of k_tab] by (simp add: unmarked_def fun_eq_iff)
  have flags: "s_flags (k_tab K' s) - {SYMBOL_CHECK, SYMBOL_CHECKED} = s_flags (k_tab K s) - {SYMBOL_CHECK, SYMBOL_CHECKED}" for s
    using arg_cong [OF eq [of s], of s_flags] by simp
  show "s_rev_dep (k_tab K' s) = s_rev_dep (k_tab K s)" using arg_cong [OF eq [of s], of s_rev_dep] by simp
  have "fl \<in> s_flags (k_tab K' s) \<longleftrightarrow> fl \<in> s_flags (k_tab K s)" if "fl \<noteq> SYMBOL_CHECK" "fl \<noteq> SYMBOL_CHECKED" for fl s
    using flags [of s] that by blast
  then show "sym_is_choice K' = sym_is_choice K" "sym_is_choice_value K' = sym_is_choice_value K"
    by (simp_all add: fun_eq_iff sym_is_choice_def sym_is_choice_value_def has_flag_def)
  have "s_prop (k_tab K' s) = s_prop (k_tab K s)" for s using arg_cong [OF eq [of s], of s_prop] by simp
  then show "s_prop (k_tab K' s) = s_prop (k_tab K s)" "sym_get_choice_prop K' = sym_get_choice_prop K"
    by (simp_all add: fun_eq_iff sym_get_choice_prop_def)
qed

lemma unmarked_graph:
  assumes "unmarked K' = unmarked K"
  shows "owner K' = owner K" "choice_syms K' = choice_syms K" "deps K' = deps K"
  using unmarked_static [OF assms]
  by (simp_all add: fun_eq_iff owner_def choice_syms_def deps_def)

lemma unmarked_flag [simp]:
  assumes "fl \<in> {SYMBOL_CHECK, SYMBOL_CHECKED}"
  shows "unmarked (set_flag fl s K) = unmarked K" "unmarked (clear_flag fl s K) = unmarked K"
proof -
  have same: "unmarked (upd_sym s (\<lambda>r. r\<lparr>s_flags := h (s_flags r)\<rparr>) K) = unmarked K"
    if "\<And>A. h A - {SYMBOL_CHECK, SYMBOL_CHECKED} = A - {SYMBOL_CHECK, SYMBOL_CHECKED}" for h
    unfolding unmarked_def upd_sym_def by (intro kstate.equality) (auto simp: that)
  show "unmarked (set_flag fl s K) = unmarked K" "unmarked (clear_flag fl s K) = unmarked K"
    unfolding set_flag_def clear_flag_def by (rule same; use assms in auto)+
qed

lemma unmarked_fold:
  "(\<And>s K. unmarked (f s K) = unmarked K) \<Longrightarrow> unmarked (fold f ss K) = unmarked K"
  by (induction ss arbitrary: K) simp_all

lemma marks:
  "gray (on_syms (mark s) C) = insert s (gray C)" "seen (on_syms (mark s) C) = insert s (seen C)"
  "gray (on_syms (clear_flag SYMBOL_CHECK s) C) = gray C - {s}"
  "seen (on_syms (clear_flag SYMBOL_CHECK s) C) = seen C"
  by (auto simp: gray_def seen_def on_syms_def mark_def set_flag_def clear_flag_def upd_sym_def has_flag_def)

lemma on_syms_simps [simp]: "on_syms id C = C" "on_syms (f \<circ> g) C = on_syms f (on_syms g C)"
  by (simp_all add: on_syms_def)

lemma marks_fold:
  "gray (on_syms (fold mark ss) C) = set ss \<union> gray C" "seen (on_syms (fold mark ss) C) = set ss \<union> seen C"
  "gray (on_syms (fold (clear_flag SYMBOL_CHECK) ss) C) = gray C - set ss"
  "seen (on_syms (fold (clear_flag SYMBOL_CHECK) ss) C) = seen C"
  by (induction ss arbitrary: C) (auto simp: marks)

section \<open>What a call finds\<close>

text \<open>
  Between calls: marks agree within a choice, and what is marked is on the stack.
\<close>

definition agree :: "kstate \<Rightarrow> symref set \<Rightarrow> symref set \<Rightarrow> bool" where
  "agree K G S \<longleftrightarrow> (\<forall>v c. sym_is_choice_value K v \<and> owner K v = Some c \<longrightarrow>
     (v \<in> S \<longleftrightarrow> c \<in> S) \<and> (c \<in> G \<longrightarrow> v \<in> G) \<and>
     (\<forall>w. sym_is_choice_value K w \<and> owner K w = Some c \<longrightarrow> v \<in> G \<longrightarrow> w \<in> G))"

definition inv :: "kstate \<Rightarrow> check_state \<Rightarrow> bool" where
  "inv K C \<longleftrightarrow> unmarked (ck_k C) = unmarked K \<and> gray C \<subseteq> seen C \<and> agree K (gray C) (seen C) \<and>
     (\<forall>s \<in> gray C. group K s \<in> set (map d_sym (ck_stack C)))"

definition leads :: "kstate \<Rightarrow> check_state \<Rightarrow> symref set \<Rightarrow> bool" where
  "leads K C T \<longleftrightarrow> (\<forall>g \<in> gray C. \<forall>t \<in> T. (group K g, group K t) \<in> (group_graph K)\<^sup>+)"

definition black :: "kstate \<Rightarrow> check_state \<Rightarrow> (symref \<times> bool) set" where
  "black K C = node K ` (seen C - gray C)"

definition closed :: "kstate \<Rightarrow> (symref \<times> bool) set \<Rightarrow> bool" where
  "closed K B \<longleftrightarrow> graph K `` B \<subseteq> B \<and> acyclic (graph K \<inter> B \<times> B)"

definition sound :: "kstate \<Rightarrow> check_message \<Rightarrow> bool" where
  "sound K m = (case m of
     Recursive s _ \<Rightarrow> s \<in> known K \<and> (group K s, group K s) \<in> (group_graph K)\<^sup>+
   | Unexpected \<Rightarrow> False
   | Oops _ \<Rightarrow> True)"

definition quiet :: "check_message list \<Rightarrow> bool" where
  "quiet ms \<longleftrightarrow> (\<forall>m \<in> set ms. case m of Oops _ \<Rightarrow> True | _ \<Rightarrow> False)"

lemma quiet_append [simp]: "quiet (ms @ ms') \<longleftrightarrow> quiet ms \<and> quiet ms'" "quiet []"
  by (auto simp: quiet_def)

text \<open>The symbols \<open>T\<close> were checked, with the result \<open>r\<close>.\<close>

definition found :: "kstate \<Rightarrow> symref set \<Rightarrow> check_state \<Rightarrow> symref option \<Rightarrow> check_state \<Rightarrow> bool" where
  "found K T C r C' \<longleftrightarrow> inv K C' \<and> gray C' = gray C \<and> seen C \<subseteq> seen C' \<and>
     map d_sym (ck_stack C') = map d_sym (ck_stack C) \<and> (\<forall>t. r = Some t \<longrightarrow> t \<in> gray C) \<and>
     (\<exists>ms. ck_msgs C' = ck_msgs C @ ms \<and> (\<forall>m \<in> set ms. sound K m) \<and>
        (quiet ms \<longrightarrow> r = None \<and> T \<inter> gray C = {} \<and> T \<subseteq> seen C' \<and>
           (closed K (black K C) \<longrightarrow> closed K (black K C'))))"

definition left :: "kstate \<Rightarrow> check_state \<Rightarrow> nat" where
  "left K C = card (known K - seen C)"

definition contract :: "kstate \<Rightarrow> nat \<Rightarrow> (symref \<Rightarrow> check_state \<Rightarrow> checked) \<Rightarrow> bool" where
  "contract K k f \<longleftrightarrow> (\<forall>s C. inv K C \<longrightarrow> s \<in> known K \<longrightarrow> leads K C {s} \<longrightarrow> left K C \<le> k \<longrightarrow>
     (\<exists>r C'. f s C = Some (r, C') \<and> found K {s} C r C'))"

definition view :: "check_state \<Rightarrow> kstate \<times> symref list \<times> check_message list" where
  "view C = (ck_k C, map d_sym (ck_stack C), ck_msgs C)"

lemma same_view:
  assumes "view C1 = view C"
  shows "inv K C1 = inv K C" "gray C1 = gray C" "seen C1 = seen C" "black K C1 = black K C" "leads K C1 = leads K C"
    "left K C1 = left K C" "ck_k C1 = ck_k C"
proof -
  show k: "ck_k C1 = ck_k C" using assms by (simp add: view_def)
  show g: "gray C1 = gray C" and s: "seen C1 = seen C" by (simp_all add: gray_def seen_def k)
  show "inv K C1 = inv K C" using assms unfolding inv_def g s by (simp add: view_def)
  show "black K C1 = black K C" "leads K C1 = leads K C" "left K C1 = left K C"
    by (simp_all add: black_def leads_def left_def g s fun_eq_iff)
qed

lemma found_view:
  assumes "view C1 = view C" "view C1' = view C'"
  shows "found K T C1 r C1' = found K T C r C'"
  unfolding found_def same_view [OF assms(1)] same_view [OF assms(2)] using assms by (simp add: view_def)

lemma view_on_top [simp]:
  "view (on_top (\<lambda>d. d\<lparr>d_prop := p\<rparr>) C) = view C" "view (on_top (\<lambda>d. d\<lparr>d_expr := e\<rparr>) C) = view C"
  by (auto simp: view_def on_top_def split: list.split)

lemma found_none: "inv K C \<Longrightarrow> found K {} C None C"
  by (simp add: found_def)

lemma say_same [simp]: "gray (say m C) = gray C" "seen (say m C) = seen C" "inv K (say m C) = inv K C"
  by (simp_all add: gray_def seen_def inv_def say_def)

lemma found_say: "inv K C \<Longrightarrow> \<not> quiet [m] \<Longrightarrow> sound K m \<Longrightarrow> \<forall>t. r = Some t \<longrightarrow> t \<in> gray C \<Longrightarrow> found K T C r (say m C)"
  by (simp add: found_def) (simp add: say_def)

lemma found_oops: "inv K C \<Longrightarrow> found K {} C None (say (Oops t) C)"
  by (simp add: found_def black_def sound_def) (simp add: say_def sound_def)

lemma found_some: "found K T C (Some t) C1 \<Longrightarrow> found K (T \<union> T') C (Some t) C1"
  by (auto simp: found_def)

lemma found_bind:
  assumes "found K T C None C1" "found K T' C1 r C2"
  shows "found K (T \<union> T') C r C2"
proof -
  obtain ms where 1: "ck_msgs C1 = ck_msgs C @ ms" "\<forall>m \<in> set ms. sound K m"
    "quiet ms \<longrightarrow> T \<inter> gray C = {} \<and> T \<subseteq> seen C1 \<and> (closed K (black K C) \<longrightarrow> closed K (black K C1))"
    using assms(1) by (auto simp: found_def)
  obtain ms' where 2: "ck_msgs C2 = ck_msgs C1 @ ms'" "\<forall>m \<in> set ms'. sound K m"
    "quiet ms' \<longrightarrow> r = None \<and> T' \<inter> gray C1 = {} \<and> T' \<subseteq> seen C2 \<and> (closed K (black K C1) \<longrightarrow> closed K (black K C2))"
    using assms(2) by (auto simp: found_def)
  have "ck_msgs C2 = ck_msgs C @ ms @ ms'" "\<forall>m \<in> set (ms @ ms'). sound K m" using 1 2 by auto
  moreover have "gray C1 = gray C" "seen C1 \<subseteq> seen C2" using assms by (auto simp: found_def)
  then have "quiet (ms @ ms') \<longrightarrow> r = None \<and> (T \<union> T') \<inter> gray C = {} \<and> T \<union> T' \<subseteq> seen C2 \<and>
      (closed K (black K C) \<longrightarrow> closed K (black K C2))"
    using 1(3) 2(3) by auto
  ultimately show ?thesis using assms by (auto simp: found_def)
qed

lemma found_pre:
  assumes "found K T C r C1"
  shows "inv K C1" "leads K C1 = leads K C" "finite (known K) \<Longrightarrow> left K C1 \<le> left K C"
  using assms by (auto simp: found_def leads_def left_def fun_eq_iff intro: card_mono)

lemma finite_known [simp]: "finite (known K)"
  by (simp add: known_def)

lemma leads_Un [simp]: "leads K C (T \<union> T') \<longleftrightarrow> leads K C T \<and> leads K C T'"
  by (auto simp: leads_def)

section \<open>Conditions\<close>

lemma check_seq:
  assumes first: "\<exists>r C1. f C = Some (r, C1) \<and> found K T C r C1"
    and second: "\<And>C1. found K T C None C1 \<Longrightarrow> \<exists>r C2. g C1 = Some (r, C2) \<and> found K T' C1 r C2"
  shows "\<exists>r C2. Option.bind (f C) (\<lambda>(sym, C1). if sym \<noteq> None then Some (sym, C1) else g C1) = Some (r, C2) \<and>
    found K (T \<union> T') C r C2"
proof -
  obtain r C1 where 1: "f C = Some (r, C1)" "found K T C r C1" using first by blast
  show ?thesis
  proof (cases r)
    case None
    with 1 second obtain r' C2 where "g C1 = Some (r', C2)" "found K T' C1 r' C2" by blast
    with 1 None found_bind show ?thesis by fastforce
  next
    case (Some t)
    with 1 found_some show ?thesis by fastforce
  qed
qed

lemma check_expr:
  assumes f: "contract K k f"
  shows "inv K C \<Longrightarrow> expr_syms e \<subseteq> known K \<Longrightarrow> leads K C (expr_syms e) \<Longrightarrow> left K C \<le> k \<Longrightarrow>
    \<exists>r C'. sym_check_expr_deps f e C = Some (r, C') \<and> found K (expr_syms e) C r C'"
proof (induction e arbitrary: C)
  case (Esym s)
  then show ?case using f by (simp add: contract_def)
next
  case (Eand l r)
  show ?case
    unfolding sym_check_expr_deps.simps expr_syms.simps
  proof (rule check_seq)
    show "\<exists>r C1. sym_check_expr_deps f l C = Some (r, C1) \<and> found K (expr_syms l) C r C1"
      using Eand by simp
    show "\<exists>s C2. sym_check_expr_deps f r C1 = Some (s, C2) \<and> found K (expr_syms r) C1 s C2"
      if "found K (expr_syms l) C None C1" for C1
      using Eand.prems found_pre [OF that] by (intro Eand.IH) auto
  qed
next
  case (Eor l r)
  show ?case
    unfolding sym_check_expr_deps.simps expr_syms.simps
  proof (rule check_seq)
    show "\<exists>r C1. sym_check_expr_deps f l C = Some (r, C1) \<and> found K (expr_syms l) C r C1"
      using Eor by simp
    show "\<exists>s C2. sym_check_expr_deps f r C1 = Some (s, C2) \<and> found K (expr_syms r) C1 s C2"
      if "found K (expr_syms l) C None C1" for C1
      using Eor.prems found_pre [OF that] by (intro Eor.IH) auto
  qed
next
  case (Ecmp c a b)
  have "\<exists>r C'. sym_check_expr_deps f (Ecmp c a b) C = Some (r, C') \<and> found K ({a} \<union> {b}) C r C'"
    unfolding sym_check_expr_deps.simps
  proof (rule check_seq)
    have sub: "leads K C {a}" "leads K C {b}" using Ecmp.prems(3) by (auto simp: leads_def)
    show "\<exists>r C1. f a C = Some (r, C1) \<and> found K {a} C r C1"
      using Ecmp sub f by (simp add: contract_def)
    show "\<exists>r C2. f b C1 = Some (r, C2) \<and> found K {b} C1 r C2" if "found K {a} C None C1" for C1
      using Ecmp.prems f found_pre [OF that] sub by (simp add: contract_def)
  qed
  then show ?case by (simp add: insert_commute)
qed (auto intro: found_oops)

lemma check_opt:
  assumes "contract K k f" "inv K C" "opt_syms e \<subseteq> known K" "leads K C (opt_syms e)" "left K C \<le> k"
  shows "\<exists>r C'. check_opt_deps f e C = Some (r, C') \<and> found K (opt_syms e) C r C'"
  using assms check_expr by (cases e) (auto simp: check_opt_deps_def opt_syms_def intro: found_none)

lemma found_top:
  "found K T (on_top (\<lambda>d. d\<lparr>d_prop := p\<rparr>) C) r C' = found K T C r C'"
  "found K T (on_top (\<lambda>d. d\<lparr>d_expr := e\<rparr>) C) r C' = found K T C r C'"
  by (rule found_view; simp)+

lemma pre_top:
  "inv K (on_top (\<lambda>d. d\<lparr>d_prop := p\<rparr>) C) = inv K C" "leads K (on_top (\<lambda>d. d\<lparr>d_prop := p\<rparr>) C) = leads K C"
  "left K (on_top (\<lambda>d. d\<lparr>d_prop := p\<rparr>) C) = left K C"
  "inv K (on_top (\<lambda>d. d\<lparr>d_expr := e\<rparr>) C) = inv K C" "leads K (on_top (\<lambda>d. d\<lparr>d_expr := e\<rparr>) C) = leads K C"
  "left K (on_top (\<lambda>d. d\<lparr>d_expr := e\<rparr>) C) = left K C"
  by (rule same_view; simp)+

lemma check_props:
  assumes f: "contract K k f"
  shows "inv K C \<Longrightarrow> (\<Union>p \<in> set ps. prop_syms b p) \<subseteq> known K \<Longrightarrow> leads K C (\<Union>p \<in> set ps. prop_syms b p) \<Longrightarrow>
    left K C \<le> k \<Longrightarrow>
    \<exists>r C'. check_prop_deps f b ps C = Some (r, C') \<and> found K (\<Union>p \<in> set ps. prop_syms b p) C r C'"
proof (induction ps arbitrary: C)
  case Nil
  then show ?case by (simp add: found_none)
next
  case (Cons p ps)
  let ?R = "\<Union>p \<in> set ps. prop_syms b p" and ?V = "opt_syms (p_vis_expr p)" and ?E = "opt_syms (p_expr p)"
  have rest: "\<exists>r C2. check_prop_deps f b ps C1 = Some (r, C2) \<and> found K ?R C1 r C2"
    if "inv K C1" "leads K C1 = leads K C" "left K C1 \<le> k" for C1
    using Cons.prems that by (intro Cons.IH) auto
  show ?case
  proof (cases "p_type p = P_CHOICE \<or> p_type p = P_SELECT")
    case True
    with rest Cons.prems show ?thesis by (simp add: prop_syms_def)
  next
    case False
    have "\<exists>r C1. check_opt_deps f (p_vis_expr p) (on_top (\<lambda>d. d\<lparr>d_prop := Some p\<rparr>) C) = Some (r, C1) \<and> found K ?V C r C1"
      using check_opt [OF f, of "on_top (\<lambda>d. d\<lparr>d_prop := Some p\<rparr>) C" "p_vis_expr p"] Cons.prems False
      by (auto simp: found_top pre_top prop_syms_def)
    note vis = check_seq [where f = "\<lambda>C. check_opt_deps f (p_vis_expr p) (on_top (\<lambda>d. d\<lparr>d_prop := Some p\<rparr>) C)", OF this]
    show ?thesis
    proof (cases "p_type p \<noteq> P_DEFAULT \<or> b")
      case True
      have "\<exists>r C2. check_prop_deps f b ps C1 = Some (r, C2) \<and> found K ?R C1 r C2" if "found K ?V C None C1" for C1
        using rest found_pre [OF that] Cons.prems(4) by force
      from vis [OF this] have "\<exists>r C2. check_prop_deps f b (p # ps) C = Some (r, C2) \<and> found K (?V \<union> ?R) C r C2"
        unfolding check_prop_deps.simps using True False by (simp cong: prod.case_cong if_cong)
      moreover have "prop_syms b p = ?V" using True False by (auto simp: prop_syms_def)
      ultimately show ?thesis by simp
    next
      case default: False
      let ?g = "\<lambda>C1. Option.bind (check_opt_deps f (p_expr p) (on_top (\<lambda>d. d\<lparr>d_expr := p_expr p\<rparr>) C1))
        (\<lambda>(sym2, C2). if sym2 \<noteq> None then Some (sym2, C2) else check_prop_deps f b ps (on_top (\<lambda>d. d\<lparr>d_expr := None\<rparr>) C2))"
      have "\<exists>r C2. ?g C1 = Some (r, C2) \<and> found K (?E \<union> ?R) C1 r C2" if C1: "found K ?V C None C1" for C1
      proof (rule check_seq [where f = "\<lambda>C1. check_opt_deps f (p_expr p) (on_top (\<lambda>d. d\<lparr>d_expr := p_expr p\<rparr>) C1)"])
        have E: "?E \<subseteq> known K" "leads K C ?E" using Cons.prems False default by (auto simp: prop_syms_def)
        show "\<exists>r C2. check_opt_deps f (p_expr p) (on_top (\<lambda>d. d\<lparr>d_expr := p_expr p\<rparr>) C1) = Some (r, C2) \<and> found K ?E C1 r C2"
          using check_opt [OF f, of "on_top (\<lambda>d. d\<lparr>d_expr := p_expr p\<rparr>) C1" "p_expr p"] E Cons.prems(4) found_pre [OF C1]
          by (auto simp: found_top pre_top)
        show "\<exists>r C3. check_prop_deps f b ps (on_top (\<lambda>d. d\<lparr>d_expr := None\<rparr>) C2) = Some (r, C3) \<and> found K ?R C2 r C3"
          if "found K ?E C1 None C2" for C2
          using rest [of "on_top (\<lambda>d. d\<lparr>d_expr := None\<rparr>) C2"] found_pre [OF C1] found_pre [OF that] Cons.prems(4)
          by (auto simp: found_top pre_top)
      qed
      from vis [OF this] have "\<exists>r C2. check_prop_deps f b (p # ps) C = Some (r, C2) \<and> found K (?V \<union> (?E \<union> ?R)) C r C2"
        unfolding check_prop_deps.simps using False default by (simp cong: prod.case_cong if_cong)
      moreover have "prop_syms b p = ?V \<union> ?E" using False default by (auto simp: prop_syms_def)
      ultimately show ?thesis by (simp add: Un_assoc)
    qed
  qed
qed

section \<open>A symbol\<close>

lemma view_insert:
  "map d_sym (ck_stack C1) = s # map d_sym (ck_stack C) \<Longrightarrow> view (dep_stack_insert s (dep_stack_remove C1)) = view C1"
  by (simp add: view_def dep_stack_insert_def dep_stack_remove_def map_tl)

lemma stack_same [simp]:
  "gray (dep_stack_insert s C) = gray C" "seen (dep_stack_insert s C) = seen C" "ck_k (dep_stack_insert s C) = ck_k C"
  "gray (dep_stack_remove C) = gray C" "seen (dep_stack_remove C) = seen C" "ck_k (dep_stack_remove C) = ck_k C"
  "ck_msgs (dep_stack_insert s C) = ck_msgs C" "ck_msgs (dep_stack_remove C) = ck_msgs C"
  by (simp_all add: gray_def seen_def dep_stack_insert_def dep_stack_remove_def)

lemma pre_insert [simp]:
  "leads K (dep_stack_insert s C) = leads K C" "left K (dep_stack_insert s C) = left K C"
  "black K (dep_stack_insert s C) = black K C" "black K (dep_stack_remove C) = black K C"
  by (simp_all add: leads_def left_def black_def fun_eq_iff)

lemma check_sym:
  assumes f: "contract K k f" and inv: "inv K (dep_stack_insert s C)" and s: "deps K s \<subseteq> known K"
    and leads: "leads K C (deps K s)" and k: "left K C \<le> k"
  shows "\<exists>r C'. sym_check_sym_deps f s C = Some (r, C') \<and>
    found K (deps K s) (dep_stack_insert s C) r (dep_stack_insert s C') \<and> map d_sym (ck_stack C') = map d_sym (ck_stack C)"
proof -
  have static: "s_rev_dep (k_tab (ck_k C) s) = s_rev_dep (k_tab K s)" "sym_is_choice (ck_k C) s = sym_is_choice K s"
    "s_prop (k_tab (ck_k C) s) = s_prop (k_tab K s)"
    using inv unmarked_static [of "ck_k C" K] by (auto simp: inv_def)
  let ?D = "dep_stack_insert s C"
  have "\<exists>r C2. Option.bind (check_opt_deps f (s_rev_dep (k_tab K s)) ?D) (\<lambda>(sym2, C1).
      if sym2 \<noteq> None then Some (sym2, C1) else check_prop_deps f (sym_is_choice K s) (s_prop (k_tab K s)) C1) = Some (r, C2) \<and>
    found K (deps K s) ?D r C2"
    unfolding deps_def
  proof (rule check_seq)
    show "\<exists>r C1. check_opt_deps f (s_rev_dep (k_tab K s)) ?D = Some (r, C1) \<and> found K (opt_syms (s_rev_dep (k_tab K s))) ?D r C1"
      using s leads k inv by (intro check_opt [OF f]) (auto simp: deps_def)
    show "\<exists>r C2. check_prop_deps f (sym_is_choice K s) (s_prop (k_tab K s)) C1 = Some (r, C2) \<and>
        found K (\<Union>p \<in> set (s_prop (k_tab K s)). prop_syms (sym_is_choice K s) p) C1 r C2"
      if "found K (opt_syms (s_rev_dep (k_tab K s))) ?D None C1" for C1
      using s leads k found_pre [OF that] by (intro check_props [OF f]) (auto simp: deps_def)
  qed
  then obtain r C2 where run: "Option.bind (check_opt_deps f (s_rev_dep (k_tab K s)) ?D) (\<lambda>(sym2, C1).
      if sym2 \<noteq> None then Some (sym2, C1) else check_prop_deps f (sym_is_choice K s) (s_prop (k_tab K s)) C1) = Some (r, C2)"
    and C2: "found K (deps K s) ?D r C2" by blast
  have stack: "map d_sym (ck_stack C2) = s # map d_sym (ck_stack C)"
    using C2 by (auto simp: found_def dep_stack_insert_def)
  have "sym_check_sym_deps f s C = Some (r, dep_stack_remove C2)"
  proof -
    have "sym_check_sym_deps f s C = Option.bind (Option.bind (check_opt_deps f (s_rev_dep (k_tab K s)) ?D) (\<lambda>(sym2, C1).
      if sym2 \<noteq> None then Some (sym2, C1) else check_prop_deps f (sym_is_choice K s) (s_prop (k_tab K s)) C1))
      (\<lambda>(sym2, C2). Some (sym2, dep_stack_remove C2))"
      unfolding sym_check_sym_deps_def static
      by (cases "check_opt_deps f (s_rev_dep (k_tab K s)) ?D") (auto split: prod.split)
    then show ?thesis unfolding run by simp
  qed
  moreover have "found K (deps K s) ?D r (dep_stack_insert s (dep_stack_remove C2))"
    using C2 found_view [OF refl view_insert [OF stack], of K "deps K s" ?D r] by simp
  moreover have "map d_sym (ck_stack (dep_stack_remove C2)) = map d_sym (ck_stack C)"
    using stack by (simp add: dep_stack_remove_def map_tl)
  ultimately show ?thesis by blast
qed

section \<open>Nodes that are done\<close>

lemma closed_insert:
  assumes B: "closed K B" and n: "graph K `` {n} \<subseteq> B"
  shows "closed K (insert n B)"
proof (cases "n \<in> B")
  case True
  with B show ?thesis by (simp add: insert_absorb)
next
  case False
  let ?r = "graph K \<inter> insert n B \<times> insert n B"
  have img: "graph K `` B \<subseteq> B" and acyc: "acyclic (graph K \<inter> B \<times> B)" using B by (auto simp: closed_def)
  have path: "y \<in> B \<and> (x = n \<or> (x, y) \<in> (graph K \<inter> B \<times> B)\<^sup>+)" if "(x, y) \<in> ?r\<^sup>+" for x y
    using that
  proof (induction rule: trancl_induct)
    case (base y)
    with img n show ?case by auto
  next
    case (step y z)
    then have "(y, z) \<in> graph K \<inter> B \<times> B" using img by auto
    with step.IH show ?case by (auto intro: trancl_into_trancl)
  qed
  have "(x, x) \<notin> ?r\<^sup>+" for x using path [of x x] False acyc unfolding acyclic_def by blast
  then show ?thesis using img n unfolding closed_def by (auto simp: acyclic_def)
qed

lemma graph_plain:
  assumes wf: "deps_wf K" and "\<not> sym_is_choice_value K s" "(node K s, m) \<in> graph K"
  shows "\<exists>t \<in> deps K s. m = node K t"
  using assms(2,3) by (auto simp: graph_def node_def group_def split: if_splits)

lemma graph_values:
  assumes wf: "deps_wf K" and "((c, True), m) \<in> graph K"
  shows "m = node K c \<and> \<not> sym_is_choice_value K c \<or> (\<exists>v \<in> set (choice_syms K c). \<exists>t \<in> deps K v. m = node K t)"
proof -
  from assms(2) obtain v t where v: "(c, True) = node K v" and t: "t \<in> deps K v \<or> (sym_is_choice_value K v \<and> owner K v = Some t)"
    and m: "m = node K t" unfolding graph_def by blast
  have val: "sym_is_choice_value K v" using v by (simp add: node_def)
  with wf obtain c' where c': "owner K v = Some c'" "sym_is_choice K c'" "v \<in> set (choice_syms K c')"
    by (auto simp: deps_wf_def)
  then have "c' = c" using v val by (simp add: node_def group_def)
  with c' t m wf val show ?thesis by (auto simp: deps_wf_def)
qed

lemma group_graph_deps: "t \<in> deps K s \<Longrightarrow> (group K s, group K t) \<in> group_graph K"
  by (auto simp: group_graph_def)

lemma leads_new:
  assumes "leads K C {s}" "gray C' \<subseteq> X \<union> gray C" "\<forall>x \<in> X. group K x = group K s"
  shows "leads K C' (deps K s)"
  unfolding leads_def
proof (intro ballI)
  fix g t assume g: "g \<in> gray C'" and t: "t \<in> deps K s"
  then have e: "(group K s, group K t) \<in> group_graph K" by (intro group_graph_deps)
  show "(group K g, group K t) \<in> (group_graph K)\<^sup>+"
  proof (cases "g \<in> X")
    case True
    with assms(3) e show ?thesis by auto
  next
    case False
    with assms g have "(group K g, group K s) \<in> (group_graph K)\<^sup>+" by (auto simp: leads_def)
    with e show ?thesis by (rule trancl_into_trancl [rotated])
  qed
qed

lemma left_less:
  assumes "s \<in> known K" "s \<notin> seen C" "seen C \<subseteq> seen C'" "s \<in> seen C'"
  shows "left K C' < left K C"
  unfolding left_def using assms by (intro psubset_card_mono) auto

section \<open>A call on a new symbol\<close>

lemma inv_unmarked: "inv K C \<Longrightarrow> unmarked (ck_k C) = unmarked K"
  by (simp add: inv_def)

lemma mark_static [simp]:
  "unmarked (ck_k (on_syms (mark s) C)) = unmarked (ck_k C)"
  "unmarked (ck_k (on_syms (clear_flag SYMBOL_CHECK s) C)) = unmarked (ck_k C)"
  "unmarked (ck_k (on_syms (fold mark ss) C)) = unmarked (ck_k C)"
  "unmarked (ck_k (on_syms (fold (clear_flag SYMBOL_CHECK) ss) C)) = unmarked (ck_k C)"
  "ck_stack (on_syms f C) = ck_stack C" "ck_msgs (on_syms f C) = ck_msgs C"
  by (simp_all add: on_syms_def mark_def unmarked_fold)

lemma insert_stack [simp]: "ck_stack (dep_stack_insert s C) = \<lparr>d_sym = s, d_prop = None, d_expr = None\<rparr> # ck_stack C"
  by (simp add: dep_stack_insert_def)

text \<open>Marking and unmarking keep the marks of a choice and its values together.\<close>

lemma owned:
  assumes "deps_wf K" "sym_is_choice_value K v" "owner K v = Some c"
  shows "sym_is_choice K c" "\<not> sym_is_choice_value K c" "\<not> sym_is_choice K v" "v \<in> set (choice_syms K c)"
proof -
  show "sym_is_choice K c" "\<not> sym_is_choice K v" "v \<in> set (choice_syms K c)" using assms by (auto simp: deps_wf_def)
  then show "\<not> sym_is_choice_value K c" using assms(1) unfolding deps_wf_def by blast
qed

lemma agree_plain:
  assumes wf: "deps_wf K" and s: "\<not> sym_is_choice_value K s" "\<not> sym_is_choice K s"
  shows "agree K (insert s G) (insert s S) = agree K G S" "agree K (G - {s}) S = agree K G S"
proof -
  have "v \<noteq> s \<and> c \<noteq> s" if "sym_is_choice_value K v" "owner K v = Some c" for v c
    using owned [OF wf that] s that by auto
  then show "agree K (insert s G) (insert s S) = agree K G S" "agree K (G - {s}) S = agree K G S"
    unfolding agree_def by blast+
qed

lemma agree_choice:
  assumes wf: "deps_wf K" and c: "sym_is_choice K c" and G: "agree K G S"
  shows "agree K (insert c (set (choice_syms K c) \<union> G)) (insert c (set (choice_syms K c) \<union> S))"
    "agree K (G - {c}) S" "c \<notin> G \<Longrightarrow> agree K (G - set (choice_syms K c)) S"
proof -
  have key: "(v \<in> set (choice_syms K c) \<longleftrightarrow> c' = c) \<and> v \<noteq> c \<and> c' \<notin> set (choice_syms K c)"
    if "sym_is_choice_value K v" "owner K v = Some c'" for v c'
  proof -
    note own = owned [OF wf that]
    have "x \<in> set (choice_syms K c) \<Longrightarrow> sym_is_choice_value K x \<and> owner K x = Some c" for x
      using wf c by (simp add: deps_wf_def)
    with own that c show ?thesis by (metis option.inject)
  qed
  show "agree K (insert c (set (choice_syms K c) \<union> G)) (insert c (set (choice_syms K c) \<union> S))"
    unfolding agree_def
  proof (intro allI impI conjI, goal_cases)
    case (1 v c')
    with key [of v c'] G show ?case unfolding agree_def by blast
  next
    case (2 v c')
    with key [of v c'] G show ?case unfolding agree_def by blast
  next
    case (3 v c' w)
    with key [of v c'] key [of w c'] G show ?case unfolding agree_def by blast
  qed
  show "agree K (G - {c}) S" using G key unfolding agree_def by blast
  show "agree K (G - set (choice_syms K c)) S" if "c \<notin> G"
    unfolding agree_def
  proof (intro allI impI conjI, goal_cases)
    case (1 v c')
    with G show ?case unfolding agree_def by blast
  next
    case (2 v c')
    with key [of v c'] G that show ?case unfolding agree_def by blast
  next
    case (3 v c' w)
    with key [of v c'] key [of w c'] G show ?case unfolding agree_def by blast
  qed
qed

lemma check_plain:
  assumes wf: "deps_wf K" and inv: "inv K C" and s: "s \<in> known K" "s \<notin> seen C" and leads: "leads K C {s}"
    and plain: "\<not> sym_is_choice_value K s" "\<not> sym_is_choice K s" and f: "contract K k f" and k: "left K C \<le> Suc k"
  shows "\<exists>r C'. sym_check_sym_deps f s (on_syms (mark s) C) = Some (r, C') \<and>
    found K {s} C (if r = Some s then None else r) (on_syms (clear_flag SYMBOL_CHECK s) C')"
proof -
  let ?C = "on_syms (mark s) C"
  have g: "s \<notin> gray C" using inv s by (auto simp: inv_def)
  have "inv K (dep_stack_insert s ?C)"
    using inv plain(1) by (simp add: inv_def marks agree_plain [OF wf plain] group_def [of K s]) auto
  moreover have "leads K ?C (deps K s)" using leads by (rule leads_new [of _ _ _ _ "{s}"]) (auto simp: marks)
  moreover have "left K ?C < left K C" by (rule left_less [OF s]) (auto simp: marks)
  then have "left K ?C \<le> k" using k by simp
  moreover have "deps K s \<subseteq> known K" using wf s by (auto simp: deps_wf_def)
  ultimately obtain r C' where run: "sym_check_sym_deps f s ?C = Some (r, C')"
    and C': "found K (deps K s) (dep_stack_insert s ?C) r (dep_stack_insert s C')"
    and stack: "map d_sym (ck_stack C') = map d_sym (ck_stack C)"
    using check_sym [OF f, of s ?C] by auto
  let ?C' = "on_syms (clear_flag SYMBOL_CHECK s) C'"
  have gray: "gray C' = insert s (gray C)" and seen: "insert s (seen C) \<subseteq> seen C'"
    using C' by (auto simp: found_def marks)
  have inv': "inv K (dep_stack_insert s C')" using C' by (simp add: found_def)
  have "insert s (seen C) - insert s (gray C) = seen C - gray C" using s by auto
  then have black1: "black K ?C = black K C" by (simp add: black_def marks)
  have black2: "black K ?C' = insert (node K s) (black K C')" using seen gray g by (auto simp: black_def marks)
  have "group K x \<in> set (map d_sym (ck_stack ?C'))" if "x \<in> gray C" for x
    using inv stack that by (simp add: inv_def del: list.set_map)
  moreover have "gray C' - {s} = gray C" using g gray by auto
  ultimately have "inv K ?C'"
    using inv' agree_plain(2) [OF wf plain, of "gray C'" "seen C'"]
    by (auto simp: inv_def marks simp del: list.set_map)
  moreover have "\<forall>t. (if r = Some s then None else r) = Some t \<longrightarrow> t \<in> gray C"
    using C' by (auto simp: found_def marks)
  moreover obtain ms where ms: "ck_msgs C' = ck_msgs C @ ms" "\<forall>m \<in> set ms. sound K m"
    "quiet ms \<longrightarrow> r = None \<and> deps K s \<inter> gray ?C = {} \<and> deps K s \<subseteq> seen C' \<and>
      (closed K (black K ?C) \<longrightarrow> closed K (black K C'))"
    using C' by (auto simp: found_def)
  moreover have "closed K (black K ?C')" if "quiet ms" "closed K (black K C)"
    unfolding black2
  proof (rule closed_insert)
    show "closed K (black K C')" using that ms(3) black1 by simp
    show "graph K `` {node K s} \<subseteq> black K C'"
    proof
      fix m assume "m \<in> graph K `` {node K s}"
      then have "(node K s, m) \<in> graph K" by simp
      from graph_plain [OF wf plain(1) this] obtain t where t: "t \<in> deps K s" "m = node K t" by blast
      with ms(3) that(1) gray have "t \<in> seen C' - gray C'" by (auto simp: marks)
      with t(2) show "m \<in> black K C'" by (simp add: black_def)
    qed
  qed
  ultimately have "found K {s} C (if r = Some s then None else r) ?C'"
    unfolding found_def using gray g seen stack by (auto simp: marks)
  with run show ?thesis by blast
qed

lemma check_value_list:
  assumes f: "contract K k f"
  shows "inv K C \<Longrightarrow> \<forall>v \<in> set vs. deps K v \<subseteq> known K \<and> leads K C (deps K v) \<and> inv K (dep_stack_insert v C) \<Longrightarrow>
    left K C \<le> k \<Longrightarrow>
    \<exists>r C'. check_values f vs C = Some (r, C') \<and> found K (\<Union>v \<in> set vs. deps K v) C r C'"
proof (induction vs arbitrary: C)
  case Nil
  then show ?case by (simp add: found_none)
next
  case (Cons v vs)
  have more: "inv K D \<Longrightarrow> inv K (dep_stack_insert w D)" for w D by (auto simp: inv_def)
  obtain r C1 where run: "sym_check_sym_deps f v C = Some (r, C1)"
    and C1: "found K (deps K v) (dep_stack_insert v C) r (dep_stack_insert v C1)"
      "map d_sym (ck_stack C1) = map d_sym (ck_stack C)"
    using check_sym [OF f, of v C] Cons.prems by auto
  have "inv K C1" using C1 Cons.prems(1) by (auto simp: found_def inv_def simp del: list.set_map)
  then have C1: "found K (deps K v) C r C1" using C1 by (auto simp: found_def)
  show ?case
  proof (cases r)
    case None
    have "\<exists>r C'. check_values f vs C1 = Some (r, C') \<and> found K (\<Union>v \<in> set vs. deps K v) C1 r C'"
      using Cons.prems found_pre [OF C1] by (intro Cons.IH) (auto intro: more)
    with run None C1 found_bind show ?thesis by fastforce
  next
    case (Some t)
    with run C1 found_some show ?thesis by fastforce
  qed
qed

lemma graph_done:
  assumes "\<And>m. (n, m) \<in> graph K \<Longrightarrow> \<exists>t \<in> seen C - gray C. m = node K t"
  shows "graph K `` {n} \<subseteq> black K C"
proof
  fix m assume "m \<in> graph K `` {n}"
  then have "(n, m) \<in> graph K" by simp
  from assms [OF this] show "m \<in> black K C" by (auto simp: black_def)
qed

section \<open>A call on a new choice\<close>

definition mark_choice :: "kstate \<Rightarrow> symref \<Rightarrow> check_state \<Rightarrow> check_state" where
  "mark_choice K c C = on_syms (mark c) (on_syms (fold mark (choice_syms K c)) (dep_stack_insert c C))"

lemma mark_choice:
  "gray (mark_choice K c C) = insert c (set (choice_syms K c) \<union> gray C)"
  "seen (mark_choice K c C) = insert c (set (choice_syms K c) \<union> seen C)"
  "map d_sym (ck_stack (mark_choice K c C)) = c # map d_sym (ck_stack C)" "ck_msgs (mark_choice K c C) = ck_msgs C"
  by (simp_all add: mark_choice_def marks marks_fold)

lemma choice_members:
  assumes "deps_wf K" "sym_is_choice K c"
  shows "v \<in> set (choice_syms K c) \<Longrightarrow> sym_is_choice_value K v \<and> owner K v = Some c \<and> v \<in> known K"
    "\<not> sym_is_choice_value K c" "c \<in> known K" "group K c = c" "v \<in> set (choice_syms K c) \<Longrightarrow> group K v = c"
proof -
  show v: "v \<in> set (choice_syms K c) \<Longrightarrow> sym_is_choice_value K v \<and> owner K v = Some c \<and> v \<in> known K" "c \<in> known K" for v
    using assms by (auto simp: deps_wf_def)
  show "\<not> sym_is_choice_value K c" using assms unfolding deps_wf_def by blast
  then show "group K c = c" by (simp add: group_def)
  show "v \<in> set (choice_syms K c) \<Longrightarrow> group K v = c" using v by (simp add: group_def)
qed

lemma inv_mark_choice:
  assumes wf: "deps_wf K" and inv: "inv K C" and c: "sym_is_choice K c"
  shows "inv K (mark_choice K c C)" "inv K (dep_stack_insert x (mark_choice K c C))"
proof -
  have "unmarked (ck_k (mark_choice K c C)) = unmarked K" using inv by (simp add: mark_choice_def inv_def)
  moreover have "agree K (gray (mark_choice K c C)) (seen (mark_choice K c C))"
    using agree_choice(1) [OF wf c] inv by (simp add: mark_choice inv_def)
  ultimately show "inv K (mark_choice K c C)" "inv K (dep_stack_insert x (mark_choice K c C))"
    using inv choice_members(4,5) [OF wf c] unfolding inv_def by (auto simp: mark_choice simp del: list.set_map)
qed

lemma choice_search:
  assumes wf: "deps_wf K" and inv: "inv K C" and c: "sym_is_choice K c" "c \<notin> seen C" and leads: "leads K C {c}"
    and f: "contract K k f" and k: "left K C \<le> Suc k"
  obtains r1 E r D ms where "sym_check_sym_deps f c (mark_choice K c C) = Some (r1, E)"
    "(if r1 \<noteq> None then Some (r1, on_syms (clear_flag SYMBOL_CHECK c) E)
     else check_values f (choice_syms K c) (on_syms (clear_flag SYMBOL_CHECK c) E)) = Some (r, D)"
    "inv K D" "gray D = set (choice_syms K c) \<union> gray C" "insert c (set (choice_syms K c) \<union> seen C) \<subseteq> seen D"
    "map d_sym (ck_stack D) = c # map d_sym (ck_stack C)"
    "(\<forall>t. r = Some t \<longrightarrow> t \<in> insert c (set (choice_syms K c) \<union> gray C))"
    "ck_msgs D = ck_msgs C @ ms" "(\<forall>m \<in> set ms. sound K m)"
    "(quiet ms \<longrightarrow> r = None \<and> (\<Union>v \<in> set (choice_syms K c). deps K v) \<subseteq> seen D - gray D \<and>
       (closed K (black K C) \<longrightarrow> closed K (black K D)))"
proof -
  let ?D1 = "mark_choice K c C" and ?vs = "set (choice_syms K c)"
  note members = choice_members [OF wf c(1)]
  have fresh: "?vs \<inter> seen C = {}" "c \<notin> gray C" "?vs \<inter> gray C = {}" "c \<notin> ?vs"
    using inv c(2) members(1,2) unfolding inv_def agree_def by blast+
  have known: "deps K s \<subseteq> known K" if "s \<in> insert c ?vs" for s
    using wf members(1,3) that by (auto simp: deps_wf_def)
  have lead: "leads K ?D1 (deps K s)" if "s \<in> insert c ?vs" for s
  proof (rule leads_new)
    show "leads K C {s}" using leads that members(4,5) by (auto simp: leads_def)
    show "gray ?D1 \<subseteq> insert c ?vs \<union> gray C" by (auto simp: mark_choice)
    show "\<forall>x \<in> insert c ?vs. group K x = group K s" using that members(4,5) by auto
  qed
  have "left K ?D1 < left K C" by (rule left_less [OF members(3) c(2)]) (auto simp: mark_choice)
  then have k1: "left K ?D1 \<le> k" using k by simp
  have "black K ?D1 = black K C" using c(2) fresh(1) by (auto simp: black_def mark_choice intro!: arg_cong [of _ _ "image (node K)"])
  obtain r1 E where run1: "sym_check_sym_deps f c ?D1 = Some (r1, E)"
    and E: "found K (deps K c) (dep_stack_insert c ?D1) r1 (dep_stack_insert c E)"
      "map d_sym (ck_stack E) = map d_sym (ck_stack ?D1)"
    using check_sym [OF f inv_mark_choice(2) [OF wf inv c(1)] known lead k1, of c] by blast
  have gE: "gray E = insert c (?vs \<union> gray C)" and sE: "insert c (?vs \<union> seen C) \<subseteq> seen E"
    using E(1) by (auto simp: found_def mark_choice)
  have iE: "inv K (dep_stack_insert c E)" using E(1) by (simp add: found_def)
  obtain ms1 where ms1: "ck_msgs E = ck_msgs C @ ms1" "\<forall>m \<in> set ms1. sound K m"
    "quiet ms1 \<longrightarrow> r1 = None \<and> deps K c \<inter> gray ?D1 = {} \<and> deps K c \<subseteq> seen E \<and>
      (closed K (black K ?D1) \<longrightarrow> closed K (black K E))"
    using E(1) by (auto simp: found_def mark_choice)
  let ?D2 = "on_syms (clear_flag SYMBOL_CHECK c) E"
  have g2: "gray ?D2 = ?vs \<union> gray C" and s2: "seen ?D2 = seen E" using gE fresh by (auto simp: marks)
  have stack2: "map d_sym (ck_stack ?D2) = c # map d_sym (ck_stack C)" using E(2) by (simp add: mark_choice)
  have i2: "inv K ?D2"
  proof -
    have "agree K (gray ?D2) (seen ?D2)"
      using agree_choice(2) [OF wf c(1), of "gray E" "seen E"] iE by (simp add: inv_def marks)
    moreover have "group K x \<in> set (map d_sym (ck_stack ?D2))" if "x \<in> gray ?D2" for x
      using that g2 stack2 members(5) inv by (auto simp: inv_def simp del: list.set_map)
    ultimately show ?thesis using iE by (auto simp: inv_def marks)
  qed
  show ?thesis
  proof (cases r1)
    case (Some t)
    with run1 have "\<not> quiet ms1" using ms1(3) by auto
    moreover have "t \<in> insert c (?vs \<union> gray C)" using E(1) Some by (auto simp: found_def mark_choice)
    ultimately show ?thesis
      using that [of r1 E r1 ?D2 ms1] run1 Some i2 g2 s2 sE stack2 ms1 by simp
  next
    case None
    have pre: "\<forall>v \<in> ?vs. deps K v \<subseteq> known K \<and> leads K ?D2 (deps K v) \<and> inv K (dep_stack_insert v ?D2)"
    proof
      fix v assume "v \<in> ?vs"
      then show "deps K v \<subseteq> known K \<and> leads K ?D2 (deps K v) \<and> inv K (dep_stack_insert v ?D2)"
        using known [of v] lead [of v] i2 by (auto simp: leads_def g2 mark_choice inv_def)
    qed
    have "seen ?D1 \<subseteq> seen ?D2" using sE by (simp add: s2 mark_choice)
    then have "left K ?D2 \<le> left K ?D1" by (auto simp: left_def intro: card_mono)
    with k1 have "left K ?D2 \<le> k" by simp
    from check_value_list [OF f i2 pre this] obtain r D where run2: "check_values f (choice_syms K c) ?D2 = Some (r, D)"
      and D: "found K (\<Union>v \<in> ?vs. deps K v) ?D2 r D" by blast
    obtain ms2 where ms2: "ck_msgs D = ck_msgs ?D2 @ ms2" "\<forall>m \<in> set ms2. sound K m"
      "quiet ms2 \<longrightarrow> r = None \<and> (\<Union>v \<in> ?vs. deps K v) \<inter> gray ?D2 = {} \<and> (\<Union>v \<in> ?vs. deps K v) \<subseteq> seen D \<and>
        (closed K (black K ?D2) \<longrightarrow> closed K (black K D))"
      using D unfolding found_def by blast
    have b2: "black K ?D2 = insert (node K c) (black K E)"
      using fresh(2,4) gE sE g2 by (auto simp: black_def s2)
    have "closed K (black K ?D2)" if "quiet ms1" "closed K (black K C)"
      unfolding b2
    proof (rule closed_insert)
      show "closed K (black K E)" using that ms1(3) \<open>black K ?D1 = black K C\<close> by simp
      have "deps K c \<subseteq> seen E - gray E" using ms1(3) that(1) gE by (auto simp: mark_choice)
      then show "graph K `` {node K c} \<subseteq> black K E"
        using graph_plain [OF wf members(2)] by (intro graph_done) blast
    qed
    with ms1 ms2 have "quiet (ms1 @ ms2) \<longrightarrow> r = None \<and> (\<Union>v \<in> ?vs. deps K v) \<subseteq> seen D - gray D \<and>
       (closed K (black K C) \<longrightarrow> closed K (black K D))"
      using D by (auto simp: found_def)
    moreover have "ck_msgs D = ck_msgs C @ ms1 @ ms2" "\<forall>m \<in> set (ms1 @ ms2). sound K m" using ms1 ms2 by auto
    moreover have "inv K D" "gray D = ?vs \<union> gray C" "insert c (?vs \<union> seen C) \<subseteq> seen D"
        "map d_sym (ck_stack D) = c # map d_sym (ck_stack C)" "\<forall>t. r = Some t \<longrightarrow> t \<in> insert c (?vs \<union> gray C)"
      using D g2 s2 sE stack2 by (auto simp: found_def)
    ultimately show ?thesis using that [of r1 E r D "ms1 @ ms2"] run1 None run2 by simp
  qed
qed

lemma check_choice:
  assumes wf: "deps_wf K" and inv: "inv K C" and c: "sym_is_choice K c" "c \<notin> seen C" and leads: "leads K C {c}"
    and f: "contract K k f" and k: "left K C \<le> Suc k"
  shows "\<exists>r C'. sym_check_choice_deps f c C = Some (r, C') \<and> found K {c} C (if r = Some c then None else r) C'"
proof -
  let ?vs = "set (choice_syms K c)"
  note members = choice_members [OF wf c(1)]
  obtain r1 E r D ms where run: "sym_check_sym_deps f c (mark_choice K c C) = Some (r1, E)"
    "(if r1 \<noteq> None then Some (r1, on_syms (clear_flag SYMBOL_CHECK c) E)
     else check_values f (choice_syms K c) (on_syms (clear_flag SYMBOL_CHECK c) E)) = Some (r, D)"
    and D: "inv K D" "gray D = ?vs \<union> gray C" "insert c (?vs \<union> seen C) \<subseteq> seen D"
      "map d_sym (ck_stack D) = c # map d_sym (ck_stack C)" "\<forall>t. r = Some t \<longrightarrow> t \<in> insert c (?vs \<union> gray C)"
    and ms: "ck_msgs D = ck_msgs C @ ms" "\<forall>m \<in> set ms. sound K m"
      "quiet ms \<longrightarrow> r = None \<and> (\<Union>v \<in> ?vs. deps K v) \<subseteq> seen D - gray D \<and> (closed K (black K C) \<longrightarrow> closed K (black K D))"
    by (rule choice_search [OF wf inv c leads f k])
  let ?D4 = "on_syms (fold (clear_flag SYMBOL_CHECK) (choice_syms K c)) D" and ?D = "dep_stack_remove (on_syms (fold (clear_flag SYMBOL_CHECK) (choice_syms K c)) D)"
  have fresh: "?vs \<inter> seen C = {}" "c \<notin> gray C" "?vs \<inter> gray C = {}" "c \<notin> ?vs"
    using inv c(2) members(1,2) unfolding inv_def agree_def by blast+
  have g: "gray ?D = gray C" "seen ?D = seen D" using D(2) fresh by (auto simp: marks_fold)
  have stack: "map d_sym (ck_stack ?D) = map d_sym (ck_stack C)" using D(4) by (simp add: dep_stack_remove_def map_tl)
  have "agree K (gray D - ?vs) (seen D)"
    using D(1,2) fresh by (intro agree_choice(3) [OF wf c(1)]) (auto simp: inv_def)
  moreover have "gray D - ?vs = gray C" using D(2) fresh by auto
  ultimately have "agree K (gray ?D) (seen ?D)" using g by simp
  moreover have "unmarked (ck_k ?D) = unmarked K" using D(1) by (simp add: inv_def)
  ultimately have inv': "inv K ?D"
    using inv stack g D(1,2) by (auto simp: inv_def simp del: list.set_map)
  define r' where "r' = (case r of None \<Rightarrow> None | Some s \<Rightarrow>
    if sym_is_choice_value K s \<and> owner K s = Some c then Some c else Some s)"
  have static: "sym_get_choice_prop (ck_k ?D4) = sym_get_choice_prop K" "sym_is_choice_value (ck_k ?D4) = sym_is_choice_value K"
    using D(1) unmarked_static [of "ck_k ?D4" K] by (auto simp: inv_def)
  obtain p where p: "sym_get_choice_prop K c = Some p" "list_syms (p_expr p) = choice_syms K c"
    using wf c(1) by (auto simp: deps_wf_def choice_syms_def)
  have "(case r of None \<Rightarrow> Some None
      | Some s \<Rightarrow> (if sym_is_choice_value (ck_k ?D4) s
          then map_option (\<lambda>d. if d = c then Some c else Some s)
                 (Option.bind (sym_get_choice_prop (ck_k ?D4) s) prop_get_symbol)
          else Some (Some s))) = Some r'"
    using wf unfolding static r'_def by (auto simp: deps_wf_def owner_def split: option.split)
  moreover have "on_syms (\<lambda>K. mark c (fold mark (list_syms (p_expr p)) K)) (dep_stack_insert c C) = mark_choice K c C"
    by (simp add: mark_choice_def p on_syms_def)
  moreover have "sym_get_choice_prop (ck_k C) c = Some p"
    using inv p(1) unmarked_static(3) by (metis inv_unmarked)
  ultimately have "sym_check_choice_deps f c C = Some (r', ?D)"
    using run by (auto simp: sym_check_choice_deps_def Let_def p cong: option.case_cong if_cong)
  moreover have "found K {c} C (if r' = Some c then None else r') ?D"
  proof -
    have "closed K (black K ?D)" if "quiet ms" "closed K (black K C)"
    proof (cases "?vs = {}")
      case True
      then have "black K ?D = black K D" using g D(2) by (simp add: black_def)
      with ms(3) that show ?thesis by simp
    next
      case False
      have "node K v = (c, True)" if "v \<in> ?vs" for v using members(1,5) [OF that] by (simp add: node_def)
      then have "node K ` ?vs = (\<lambda>_. (c, True)) ` ?vs" by (intro image_cong refl)
      then have "node K ` ?vs = {(c, True)}" using False by (simp add: image_constant_conv)
      moreover have "seen D - gray C = (seen D - gray D) \<union> ?vs" using D(2,3) fresh by auto
      ultimately have "black K ?D = insert (c, True) (black K D)"
        by (simp add: black_def g image_Un del: stack_same)
      moreover have "closed K (insert (c, True) (black K D))"
      proof (rule closed_insert)
        show "closed K (black K D)" using ms(3) that by simp
        have "c \<in> seen D - gray D" using D(2,3) fresh by auto
        moreover have "t \<in> seen D - gray D" if "v \<in> ?vs" "t \<in> deps K v" for v t
          using ms(3) \<open>quiet ms\<close> that by blast
        ultimately show "graph K `` {(c, True)} \<subseteq> black K D"
          using graph_values [OF wf] by (intro graph_done) blast
      qed
      ultimately show ?thesis by simp
    qed
    moreover have "r = Some t \<Longrightarrow> r' \<noteq> Some c \<Longrightarrow> t \<in> gray C \<and> r' = Some t" for t
      using D(5) members(1) by (auto simp: r'_def split: if_splits)
    moreover have "r = None \<Longrightarrow> r' = None" by (simp add: r'_def)
    moreover have "ck_msgs ?D = ck_msgs C @ ms" using ms(1) by simp
    ultimately show ?thesis
      unfolding found_def using inv' g stack D(3) fresh ms(2,3) by (cases r) auto
  qed
  ultimately show ?thesis by blast
qed

section \<open>The search\<close>

lemma check_gray:
  assumes inv: "inv K C" and s: "s \<in> gray C" and wf: "deps_wf K" and leads: "leads K C {s}" and k: "s \<in> known K"
  shows "\<exists>C'. sym_check_print_recursive s C = Some C' \<and> found K {s} C (Some s) C'"
proof -
  have static: "sym_get_choice_prop (ck_k C) = sym_get_choice_prop K" "sym_is_choice_value (ck_k C) = sym_is_choice_value K"
    using inv unmarked_static [of "ck_k C" K] by (auto simp: inv_def)
  have top: "group K s \<in> set (map d_sym (ck_stack C))" using inv s unfolding inv_def by blast
  have cyc: "(group K s, group K s) \<in> (group_graph K)\<^sup>+" using leads s by (simp add: leads_def)
  have pop: "dep_stack_remove (say m (dep_stack_insert s C)) = say m C" for m
    by (simp add: dep_stack_remove_def say_def dep_stack_insert_def)
  have "\<exists>m. sym_check_print_recursive s C = Some (say (Recursive s m) C)"
  proof (cases "sym_is_choice_value K s")
    case True
    with wf have "Option.bind (sym_get_choice_prop K s) prop_get_symbol = Some (group K s)"
      by (auto simp: deps_wf_def owner_def group_def)
    with True top show ?thesis
      by (auto simp: sym_check_print_recursive_def static Let_def pop simp del: list.set_map insert_stack)
        (auto simp: dep_stack_insert_def)
  next
    case False
    with top show ?thesis
      by (auto simp: sym_check_print_recursive_def static Let_def group_def)
  qed
  then obtain m where "sym_check_print_recursive s C = Some (say (Recursive s m) C)" by blast
  with found_say [OF inv, of "Recursive s m" "Some s" "{s}"] cyc s k show ?thesis by (simp add: sound_def quiet_def)
qed

lemma check_deps:
  assumes wf: "deps_wf K"
  shows "inv K C \<Longrightarrow> s \<in> known K \<Longrightarrow> leads K C {s} \<Longrightarrow>
    2 * left K C + (if sym_is_choice_value K s \<and> s \<notin> seen C then 1 else 0) < n \<Longrightarrow>
    \<exists>r C'. sym_check_deps n s C = Some (r, C') \<and> found K {s} C r C'"
proof (induction n arbitrary: s C)
  case (Suc n)
  have flags: "has_flag SYMBOL_CHECK s (ck_k C) \<longleftrightarrow> s \<in> gray C" "has_flag SYMBOL_CHECKED s (ck_k C) \<longleftrightarrow> s \<in> seen C"
    by (simp_all add: gray_def seen_def)
  have static: "sym_get_choice_prop (ck_k C) = sym_get_choice_prop K" "sym_is_choice_value (ck_k C) = sym_is_choice_value K"
    "sym_is_choice (ck_k C) = sym_is_choice K"
    using Suc.prems(1) unmarked_static [of "ck_k C" K] by (auto simp: inv_def)
  consider "s \<in> gray C" | "s \<in> seen C" "s \<notin> gray C" | "s \<notin> seen C" "s \<notin> gray C" "sym_is_choice_value K s"
    | "s \<notin> seen C" "s \<notin> gray C" "\<not> sym_is_choice_value K s" by blast
  then show ?case
  proof cases
    case 1
    with check_gray [OF Suc.prems(1) 1 wf Suc.prems(3,2)] show ?thesis by (auto simp: flags)
  next
    case 2
    with Suc.prems(1) have "found K {s} C None C" by (simp add: found_def)
    with 2 show ?thesis by (simp add: flags)
  next
    case 3
    then obtain c where c: "owner K s = Some c" "sym_is_choice K c" using wf by (auto simp: deps_wf_def)
    note members = choice_members [OF wf c(2)]
    have same: "s \<in> set (choice_syms K c)" "group K c = group K s" using owned(4) [OF wf 3(3) c(1)] members(4,5) by auto
    have agree: "agree K (gray C) (seen C)" using Suc.prems(1) by (simp add: inv_def)
    then have "c \<notin> seen C" using 3 c(1) by (auto simp: agree_def)
    let ?C = "dep_stack_insert s C"
    have "\<exists>r C'. sym_check_deps n c ?C = Some (r, C') \<and> found K {c} ?C r C'"
    proof (rule Suc.IH)
      show "inv K ?C" using Suc.prems(1) by (auto simp: inv_def)
      show "leads K ?C {c}" using Suc.prems(3) same(2) by (simp add: leads_def)
      show "2 * left K ?C + (if sym_is_choice_value K c \<and> c \<notin> seen ?C then 1 else 0) < n"
        using Suc.prems(4) 3 members(2) by simp
    qed (rule members(3))
    then obtain r C1 where run: "sym_check_deps n c ?C = Some (r, C1)" and C1: "found K {c} ?C r C1" by blast
    have stack: "map d_sym (ck_stack (dep_stack_remove C1)) = map d_sym (ck_stack C)"
      using C1 by (auto simp: found_def dep_stack_remove_def map_tl)
    have "inv K (dep_stack_remove C1)"
      using C1 Suc.prems(1) stack by (auto simp: found_def inv_def simp del: list.set_map)
    moreover have "c \<in> seen C1 \<Longrightarrow> s \<in> seen C1" using C1 c(1) 3(3) by (auto simp: found_def inv_def agree_def)
    ultimately have "found K {s} C r (dep_stack_remove C1)"
      using C1 stack 3(2) unfolding found_def by auto
    moreover have "r \<noteq> Some s" using C1 3(2) by (auto simp: found_def)
    moreover have "Option.bind (sym_get_choice_prop K s) prop_get_symbol = Some c" using c(1) by (simp add: owner_def)
    ultimately show ?thesis using 3 run by (auto simp: flags static)
  next
    case 4
    define k where "k = left K C - 1"
    have "0 < left K C" unfolding left_def using 4(1) Suc.prems(2) by (simp add: card_gt_0_iff) blast
    then have k: "left K C \<le> Suc k" "2 * k + 1 < n" using Suc.prems(4) 4 by (auto simp: k_def)
    have f: "contract K k (sym_check_deps n)"
      unfolding contract_def
    proof (intro allI impI)
      fix t D assume "inv K D" "t \<in> known K" "leads K D {t}" "left K D \<le> k"
      with k(2) show "\<exists>r C'. sym_check_deps n t D = Some (r, C') \<and> found K {t} D r C'" by (intro Suc.IH) auto
    qed
    show ?thesis
    proof (cases "sym_is_choice K s")
      case True
      from check_choice [OF wf Suc.prems(1) True 4(1) Suc.prems(3) f k(1)] True 4
      show ?thesis by (auto simp: flags static)
    next
      case False
      from check_plain [OF wf Suc.prems(1,2) 4(1) Suc.prems(3) 4(3) False f k(1)] False 4
      show ?thesis by (auto simp: flags static)
    qed
  qed
qed simp

lemma check_all_found:
  assumes wf: "deps_wf K" and n: "2 * card (known K) + 1 < n"
  shows "inv K C \<Longrightarrow> gray C = {} \<Longrightarrow> set ss \<subseteq> known K \<Longrightarrow>
    \<exists>C'. check_all n ss C = Some (0, C') \<and> found K (set ss) C None C'"
proof (induction ss arbitrary: C)
  case Nil
  then show ?case by (auto intro: found_none simp: found_none)
next
  case (Cons s ss)
  have "left K C \<le> card (known K)" by (auto simp: left_def intro: card_mono)
  then have "2 * left K C + (if sym_is_choice_value K s \<and> s \<notin> seen C then 1 else 0) < n" using n by auto
  moreover have "leads K C {s}" using Cons.prems(2) by (simp add: leads_def)
  ultimately obtain r C1 where run: "sym_check_deps n s C = Some (r, C1)" and C1: "found K {s} C r C1"
    using check_deps [OF wf Cons.prems(1), of s n] Cons.prems(3) by auto
  have "r = None" using C1 Cons.prems(2) by (cases r) (auto simp: found_def)
  moreover obtain C' where "check_all n ss C1 = Some (0, C')" "found K (set ss) C1 None C'"
    using Cons.IH [of C1] C1 Cons.prems by (auto simp: found_def)
  ultimately show ?case using run C1 found_bind [of K "{s}" C C1 "set ss" None C'] by auto
qed

definition unvisited :: "kstate \<Rightarrow> bool" where
  "unvisited K \<longleftrightarrow> (\<forall>s. \<not> has_flag SYMBOL_CHECK s K \<and> \<not> has_flag SYMBOL_CHECKED s K)"

lemma check_fuel_enough: "2 * card (known K) + 1 < check_fuel K"
proof -
  have "card (known K) \<le> card {symbol_yes, symbol_mod, symbol_no, symbol_empty} + card (set (all_symbols K))"
    unfolding known_def by (rule card_Un_le)
  also have "\<dots> \<le> 4 + k_nsyms K"
    using card_length [of "all_symbols K"] by (simp add: all_symbols_def)
  finally show ?thesis by (simp add: check_fuel_def)
qed

lemma check_run:
  assumes "deps_wf K" "unvisited K" "set ss \<subseteq> known K"
  obtains C where "check_all (check_fuel K) ss (check_start K) = Some (0, C)" "found K (set ss) (check_start K) None C"
    "gray (check_start K) = {}" "closed K (black K (check_start K))"
proof -
  have "gray (check_start K) = {}" "seen (check_start K) = {}" "ck_k (check_start K) = K"
    using assms(2) by (auto simp: gray_def seen_def check_start_def unvisited_def)
  moreover from this have "inv K (check_start K)" "closed K (black K (check_start K))"
    by (auto simp: inv_def agree_def black_def closed_def acyclic_def)
  ultimately show ?thesis
    using check_all_found [OF assms(1) check_fuel_enough, of "check_start K" ss] assms(3) that by blast
qed

lemma closed_path:
  assumes path: "(x, y) \<in> (graph K)\<^sup>+" and B: "graph K `` B \<subseteq> B" "x \<in> B"
  shows "y \<in> B \<and> (x, y) \<in> (graph K \<inter> B \<times> B)\<^sup>+"
  using path
proof (induction rule: trancl_induct)
  case (base y)
  with B show ?case by (auto intro: r_into_trancl)
next
  case (step y z)
  with B have "(y, z) \<in> graph K \<inter> B \<times> B" by auto
  with step.IH show ?case by (auto intro: trancl_into_trancl)
qed

lemma closed_acyclic: "closed K B \<Longrightarrow> x \<in> B \<Longrightarrow> (x, x) \<notin> (graph K)\<^sup>+"
  using closed_path [of x x K B] unfolding closed_def acyclic_def by blast

section \<open>Properties\<close>

text \<open>
  C25: The search for recursive dependencies ends, removes its marks, and never rejects a
  symbol: whatever it reports, the parser counts no error and accepts the configuration
  file, for the call that put a symbol on the way drops the result for this symbol.
\<close>

theorem check_never_rejects:
  assumes "deps_wf K" "unvisited K" "set ss \<subseteq> known K"
  shows "\<exists>C. check_all (check_fuel K) ss (check_start K) = Some (0, C) \<and> (\<forall>s. \<not> has_flag SYMBOL_CHECK s (ck_k C))"
proof -
  obtain C where "check_all (check_fuel K) ss (check_start K) = Some (0, C)" "found K (set ss) (check_start K) None C"
    "gray (check_start K) = {}"
    using check_run [OF assms] by blast
  then show ?thesis by (auto simp: found_def gray_def)
qed

text \<open>
  C24: What the search reports is right: when no recursion is reported, no checked
  symbol is on a cycle of the dependency graph; a symbol that is reported is on a
  cycle of the graph in which a choice and its values are one; and without choices
  a recursion is reported just when there is one.
\<close>

theorem check_finds_cycles:
  assumes "deps_wf K" "unvisited K" "set ss \<subseteq> known K" "check_all (check_fuel K) ss (check_start K) = Some (e, C)"
  shows "(quiet (ck_msgs C) \<longrightarrow> (\<forall>s \<in> set ss. (node K s, node K s) \<notin> (graph K)\<^sup>+)) \<and>
    (\<forall>s ls. Recursive s ls \<in> set (ck_msgs C) \<longrightarrow> (group K s, group K s) \<in> (group_graph K)\<^sup>+) \<and>
    ((\<forall>s. \<not> sym_is_choice_value K s) \<and> set ss = known K \<longrightarrow>
       (quiet (ck_msgs C) \<longleftrightarrow> (\<forall>s \<in> known K. (s, s) \<notin> (group_graph K)\<^sup>+)))"
proof -
  obtain C' where C': "check_all (check_fuel K) ss (check_start K) = Some (0, C')" "found K (set ss) (check_start K) None C'"
    "gray (check_start K) = {}" "closed K (black K (check_start K))"
    using check_run [OF assms(1-3)] by blast
  with assms(4) have "C' = C" by simp
  note C = C' [unfolded this]
  have sound: "\<forall>m \<in> set (ck_msgs C). sound K m" and quiet: "quiet (ck_msgs C) \<longrightarrow> set ss \<subseteq> seen C \<and> closed K (black K C)"
    and gray: "gray C = {}" using C(2-4) by (auto simp: found_def check_start_def)
  have acyc: "quiet (ck_msgs C) \<longrightarrow> (\<forall>s \<in> set ss. (node K s, node K s) \<notin> (graph K)\<^sup>+)"
  proof (intro impI ballI)
    fix s assume "quiet (ck_msgs C)" "s \<in> set ss"
    then have "node K s \<in> black K C" "closed K (black K C)" using quiet gray by (auto simp: black_def)
    then show "(node K s, node K s) \<notin> (graph K)\<^sup>+" using closed_acyclic by blast
  qed
  have cyc: "Recursive s ls \<in> set (ck_msgs C) \<Longrightarrow> s \<in> known K \<and> (group K s, group K s) \<in> (group_graph K)\<^sup>+" for s ls
    using sound by (auto simp: sound_def)
  have "quiet (ck_msgs C) \<longleftrightarrow> (\<forall>s \<in> known K. (s, s) \<notin> (group_graph K)\<^sup>+)"
    if plain: "\<forall>s. \<not> sym_is_choice_value K s" and all: "set ss = known K"
  proof
    have path: "(s, t) \<in> (group_graph K)\<^sup>+ \<Longrightarrow> ((s, False), (t, False)) \<in> (graph K)\<^sup>+" for s t
    proof (induction rule: trancl_induct)
      case (base t)
      with plain show ?case by (auto simp: group_graph_def graph_def node_def group_def)
    next
      case (step t u)
      then have "((t, False), (u, False)) \<in> graph K"
        using plain by (auto simp: group_graph_def graph_def node_def group_def)
      with step.IH show ?case by (rule trancl_into_trancl)
    qed
    show "\<forall>s \<in> known K. (s, s) \<notin> (group_graph K)\<^sup>+" if "quiet (ck_msgs C)"
      using acyc that path all plain by (fastforce simp: node_def group_def)
    show "quiet (ck_msgs C)" if none: "\<forall>s \<in> known K. (s, s) \<notin> (group_graph K)\<^sup>+"
      unfolding quiet_def
    proof
      fix m assume m: "m \<in> set (ck_msgs C)"
      show "case m of Oops _ \<Rightarrow> True | _ \<Rightarrow> False"
      proof (cases m)
        case (Recursive s ls)
        with m cyc have "s \<in> known K" "(group K s, group K s) \<in> (group_graph K)\<^sup>+" by blast+
        with none plain show ?thesis by (simp add: group_def)
      qed (use sound m in \<open>auto simp: sound_def\<close>)
    qed
  qed
  with acyc cyc show ?thesis by blast
qed

text \<open>
  A depends on B and selects it, while B has no entry of its own: the report of the
  recursion reads the place of B's first property, which is null.
\<close>

definition plain_symbol :: "string option \<Rightarrow> property list \<Rightarrow> expr option \<Rightarrow> symbol" where
  "plain_symbol name ps rdep =
     \<lparr> s_name = name, s_type = S_BOOLEAN, s_curr = \<lparr>sv_val = CNull, sv_tri = tri_no\<rparr>,
       s_def_user = \<lparr>sv_val = CNull, sv_tri = tri_no\<rparr>, s_def_auto = \<lparr>sv_val = CNull, sv_tri = tri_no\<rparr>,
       s_visible = tri_no, s_flags = {}, s_prop = ps, s_dir_dep = None, s_dir_tri = tri_no,
       s_rev_dep = rdep, s_rev_tri = tri_no, s_implied = None, s_impl_tri = tri_no \<rparr>"

definition selecting_store :: kstate where
  "selecting_store =
     \<lparr> k_tab = (\<lambda>s. if s = Sym 0 then plain_symbol (Some ''A'')
            [\<lparr>p_type = P_PROMPT, p_text = Some ''a'', p_vis_expr = Some (Esym (Sym 1)), p_vis_tri = tri_no,
              p_expr = None, p_menu = Some 1\<rparr>,
             \<lparr>p_type = P_SELECT, p_text = None, p_vis_expr = Some (Esym (Sym 1)), p_vis_tri = tri_no,
              p_expr = Some (Esym (Sym 1)), p_menu = Some 1\<rparr>] None
          else if s = Sym 1 then plain_symbol (Some ''B'') [] (Some (Eand (Esym (Sym 0)) (Esym (Sym 1))))
          else plain_symbol None [] None),
       k_nsyms = 2, k_hash = (\<lambda>_. []), k_modules_sym = symbol_no, k_modules_val = tri_no,
       k_menu_changed = {}, k_changes = 0 \<rparr>"

lemma selecting_store_wf: "deps_wf selecting_store" "unvisited selecting_store"
proof -
  have flags: "s_flags (k_tab selecting_store s) = {}" for s by (simp add: selecting_store_def plain_symbol_def)
  then show "unvisited selecting_store" by (simp add: unvisited_def has_flag_def)
  have none: "\<not> sym_is_choice_value selecting_store s" "\<not> sym_is_choice selecting_store s" for s
    by (simp_all add: sym_is_choice_value_def sym_is_choice_def has_flag_def flags)
  have "deps selecting_store s \<subseteq> {Sym 0, Sym 1}" for s
    by (auto simp: deps_def selecting_store_def plain_symbol_def opt_syms_def prop_syms_def)
  moreover have "{Sym 0, Sym 1} \<subseteq> known selecting_store"
    by (auto simp: known_def all_symbols_def selecting_store_def)
  ultimately show "deps_wf selecting_store" unfolding deps_wf_def using none by blast
qed

lemma selecting_run:
  "map_option (\<lambda>(e, C). (e, ck_msgs C)) (check_all (check_fuel selecting_store) [Sym 0, Sym 1] (check_start selecting_store)) =
     Some (0, [Recursive (Sym 0) None])"
  by code_simp

theorem check_never_rejects_witness:
  "\<exists>C. check_all (check_fuel selecting_store) [Sym 0, Sym 1] (check_start selecting_store) = Some (0, C) \<and>
     ck_msgs C = [Recursive (Sym 0) None] \<and> (\<forall>s. \<not> has_flag SYMBOL_CHECK s (ck_k C))"
proof -
  have "set [Sym 0, Sym 1] \<subseteq> known selecting_store"
    by (auto simp: known_def all_symbols_def selecting_store_def)
  from check_never_rejects [OF selecting_store_wf this] selecting_run show ?thesis by auto
qed

theorem check_finds_cycles_witness: "(Sym 0, Sym 0) \<in> (group_graph selecting_store)\<^sup>+"
proof -
  have known: "set [Sym 0, Sym 1] \<subseteq> known selecting_store"
    by (auto simp: known_def all_symbols_def selecting_store_def)
  obtain e C where run: "check_all (check_fuel selecting_store) [Sym 0, Sym 1] (check_start selecting_store) = Some (e, C)"
    "ck_msgs C = [Recursive (Sym 0) None]" using selecting_run by auto
  have "(group selecting_store (Sym 0), group selecting_store (Sym 0)) \<in> (group_graph selecting_store)\<^sup>+"
    using check_finds_cycles [OF selecting_store_wf known run(1)] run(2) by auto
  then show ?thesis
    by (simp add: group_def sym_is_choice_value_def has_flag_def selecting_store_def plain_symbol_def)
qed

text \<open>
  Choice C has a value V that depends on X, and X depends on C. The search that starts from
  C marks it as visited before it comes to V and reports nothing; the one that starts
  from X meets X again below V.
\<close>

definition choice_symbol :: "symref \<Rightarrow> symbol" where
  "choice_symbol s =
     (let prompt = \<lparr>p_type = P_PROMPT, p_text = Some ''a'', p_vis_expr = None, p_vis_tri = tri_no, p_expr = None, p_menu = Some 1\<rparr>
      in if s = Sym 0 then (plain_symbol None [prompt\<lparr>p_type := P_CHOICE, p_expr := Some (Elist None (Sym 1))\<rparr>, prompt] None)
           \<lparr>s_flags := {SYMBOL_CHOICE}\<rparr>
         else if s = Sym 1 then (plain_symbol (Some ''V'')
           [prompt\<lparr>p_vis_expr := Some (Eand (Esym (Sym 0)) (Esym (Sym 2)))\<rparr>, prompt\<lparr>p_type := P_CHOICE, p_expr := Some (Esym (Sym 0))\<rparr>] None)
           \<lparr>s_flags := {SYMBOL_CHOICEVAL}\<rparr>
         else if s = Sym 2 then plain_symbol (Some ''X'') [prompt\<lparr>p_vis_expr := Some (Esym (Sym 0))\<rparr>] None
         else plain_symbol None [] None)"

definition choice_store :: kstate where
  "choice_store = selecting_store\<lparr>k_nsyms := 3, k_tab := choice_symbol\<rparr>"

definition reports :: "kstate \<Rightarrow> symref list \<Rightarrow> check_message list option" where
  "reports K ss = map_option (ck_msgs \<circ> snd) (check_all (check_fuel K) ss (check_start K))"

lemma order_matters:
  "reports choice_store [Sym 0, Sym 1, Sym 2] = Some []"
  "reports choice_store [Sym 2, Sym 1, Sym 0] = Some [Recursive (Sym 2)
     (Some [Depends_on ''X'' ''<choice>'', Choice_contains ''<choice>'' ''V'', Depends_on ''V'' ''X''])]"
  by code_simp+

end
