(* ===== verification/Expr_Print.thy ===== *)
theory Expr_Print
  imports Expr_Eval
begin

text \<open>
  Printing of expressions (end of expr.c), and the growable strings of util.c it fills.
  \<open>expr_print\<close> calls the printer of its caller for every token; the result is the list
  of these calls, with the symbol, if any, and the text; a text that is a null pointer is
  \<open>None\<close>. Then the tokens are compared with the grammar of expressions of zconf.y.
\<close>

section \<open>Brackets and tokens\<close>

text \<open>The chain of cases that fall through: whether a type binds more tightly, 1, or not.\<close>

definition is_order :: "expr_type \<Rightarrow> bool" where
  "is_order t \<longleftrightarrow> t = E_COMP LEQ \<or> t = E_COMP LTH \<or> t = E_COMP GEQ \<or> t = E_COMP GTH"

definition is_equality :: "expr_type \<Rightarrow> bool" where
  "is_equality t \<longleftrightarrow> t = E_COMP EQUAL \<or> t = E_COMP UNEQUAL"

definition expr_compare_type :: "expr_type \<Rightarrow> expr_type \<Rightarrow> int" where
  "expr_compare_type t1 t2 =
     (if t1 = t2 then 0
      else if is_order t1 \<and> is_equality t2 then 1
      else if (is_order t1 \<or> is_equality t1) \<and> t2 = E_NOT then 1
      else if (is_order t1 \<or> is_equality t1 \<or> t1 = E_NOT) \<and> t2 = E_AND then 1
      else if (is_order t1 \<or> is_equality t1 \<or> t1 = E_NOT \<or> t1 = E_AND) \<and> t2 = E_OR then 1
      else if (is_order t1 \<or> is_equality t1 \<or> t1 = E_NOT \<or> t1 = E_AND \<or> t1 = E_OR) \<and> t2 = E_LIST then 1
      else if (is_order t1 \<or> is_equality t1 \<or> t1 = E_NOT \<or> t1 = E_AND \<or> t1 = E_OR \<or> t1 = E_LIST) \<and> t2 = E_NONE then 1
      else -1)"

type_synonym call = "symref option \<times> string option"

definition txt_call :: "string \<Rightarrow> call" where
  "txt_call s = (None, Some s)"

definition left_call :: "symtab \<Rightarrow> symref \<Rightarrow> call" where
  "left_call T s = (case s_name (T s) of Some n \<Rightarrow> (Some s, Some n) | None \<Rightarrow> txt_call ''<choice>'')"

definition right_call :: "symtab \<Rightarrow> symref \<Rightarrow> call" where
  "right_call T s = (Some s, s_name (T s))"

fun comp_text :: "comp_type \<Rightarrow> string" where
  "comp_text EQUAL = ''=''"
| "comp_text UNEQUAL = ''!=''"
| "comp_text LTH = ''<''"
| "comp_text LEQ = ''<=''"
| "comp_text GTH = ''>''"
| "comp_text GEQ = ''>=''"

definition bracket :: "bool \<Rightarrow> call list \<Rightarrow> call list" where
  "bracket b cs = (if b then txt_call ''('' # cs @ [txt_call '')''] else cs)"

fun print_node :: "symtab \<Rightarrow> expr_type \<Rightarrow> expr \<Rightarrow> call list" where
  "print_node T prevtoken (Esym s) = bracket (expr_compare_type prevtoken E_SYMBOL > 0) [left_call T s]"
| "print_node T prevtoken (Enot e) = bracket (expr_compare_type prevtoken E_NOT > 0)
     (txt_call ''!'' # print_node T E_NOT e)"
| "print_node T prevtoken (Ecmp c a b) = bracket (expr_compare_type prevtoken (E_COMP c) > 0)
     [left_call T a, txt_call (comp_text c), right_call T b]"
| "print_node T prevtoken (Eor l r) = bracket (expr_compare_type prevtoken E_OR > 0)
     (print_node T E_OR l @ txt_call '' || '' # print_node T E_OR r)"
| "print_node T prevtoken (Eand l r) = bracket (expr_compare_type prevtoken E_AND > 0)
     (print_node T E_AND l @ txt_call '' && '' # print_node T E_AND r)"
| "print_node T prevtoken (Elist l s) = bracket (expr_compare_type prevtoken E_LIST > 0)
     (right_call T s # (case l of None \<Rightarrow> [] | Some e \<Rightarrow> txt_call '' ^ '' # print_node T E_LIST e))"
| "print_node T prevtoken (Erange a b) = bracket (expr_compare_type prevtoken E_RANGE > 0)
     [txt_call ''['', right_call T a, txt_call '' '', right_call T b, txt_call '']'']"

definition expr_print :: "symtab \<Rightarrow> expr option \<Rightarrow> expr_type \<Rightarrow> call list" where
  "expr_print T e prevtoken = (case e of None \<Rightarrow> [txt_call ''y''] | Some e \<Rightarrow> print_node T prevtoken e)"

text \<open>
  \<open>expr_print_revdep\<close>: one line for every operand of the outermost \<open>||\<close> with the value
  \<open>pr_type\<close>, and the title, when there still is one, before the first.
\<close>

fun expr_print_revdep :: "kstate \<Rightarrow> expr \<Rightarrow> tristate \<Rightarrow> string option \<Rightarrow> call list \<times> string option" where
  "expr_print_revdep K (Eor l r) pr_type title =
     (let (cs1, t1) = expr_print_revdep K l pr_type title;
          (cs2, t2) = expr_print_revdep K r pr_type t1
      in (cs1 @ cs2, t2))"
| "expr_print_revdep K e pr_type title =
     (if expr_calc_value K (Some e) = pr_type
      then ((case title of Some t \<Rightarrow> [txt_call t] | None \<Rightarrow> []) @
            txt_call ''  - '' # expr_print (k_tab K) (Some e) E_NONE @ [txt_call ''\<newline>''], None)
      else ([], title))"

section \<open>Growable strings\<close>

text \<open>\<open>struct gstr\<close>: the text and the width of a line; 0 is no limit. \<open>len\<close> is the room.\<close>

record gstr =
  gs_s :: string
  gs_len :: nat
  gs_max_width :: nat

definition str_new :: gstr where
  "str_new = \<lparr>gs_s = [], gs_len = 64, gs_max_width = 0\<rparr>"

definition str_append :: "string option \<Rightarrow> gstr \<Rightarrow> gstr" where
  "str_append s gs =
     (case s of
        None \<Rightarrow> gs
      | Some s \<Rightarrow>
          (let l = length (gs_s gs) + length s + 1
           in gs\<lparr>gs_len := (if l > gs_len gs then l else gs_len gs), gs_s := gs_s gs @ s\<rparr>))"

text \<open>What is longer than the buffer of 10000 characters is cut off.\<close>

definition str_printf :: "string \<Rightarrow> gstr \<Rightarrow> gstr" where
  "str_printf s = str_append (Some (take 9999 s))"

text \<open>The characters from the last newline on, this included, or all.\<close>

definition last_line_length :: "string \<Rightarrow> nat" where
  "last_line_length s =
     (if CHR ''\<newline>'' \<in> set s then Suc (length (takeWhile (\<lambda>c. c \<noteq> CHR ''\<newline>'') (rev s))) else length s)"

text \<open>\<open>expr_print_gstr_helper\<close>; \<open>None\<close> is the null pointer the code takes the length of.\<close>

definition expr_print_gstr_helper :: "kstate \<Rightarrow> gstr \<Rightarrow> call \<Rightarrow> gstr option" where
  "expr_print_gstr_helper K gs c =
     (let (sym, str) = c; sym_str = map_option (sym_get_string_value K) sym
      in if gs_max_width gs \<noteq> 0 \<and> str = None then None
         else
           (let extra = length (the str) + (case sym_str of Some v \<Rightarrow> 4 + length v | None \<Rightarrow> 0);
                gs = (if gs_max_width gs \<noteq> 0 \<and> last_line_length (gs_s gs) + extra > gs_max_width gs
                      then str_append (Some [CHR 0x5C, CHR 0x0A]) gs else gs);
                gs = str_append str gs
            in Some (case sym of
                 Some s \<Rightarrow> (if s_type (k_tab K s) \<noteq> S_UNKNOWN
                   then str_printf ('' [='' @ sym_get_string_value K s @ '']'') gs else gs)
               | None \<Rightarrow> gs)))"

fun print_calls :: "kstate \<Rightarrow> call list \<Rightarrow> gstr \<Rightarrow> gstr option" where
  "print_calls K [] gs = Some gs"
| "print_calls K (c # cs) gs = do { gs1 \<leftarrow> expr_print_gstr_helper K gs c; print_calls K cs gs1 }"

definition expr_gstr_print :: "kstate \<Rightarrow> expr option \<Rightarrow> gstr \<Rightarrow> gstr option" where
  "expr_gstr_print K e = print_calls K (expr_print (k_tab K) e E_NONE)"

definition expr_gstr_print_revdep :: "kstate \<Rightarrow> expr \<Rightarrow> gstr \<Rightarrow> tristate \<Rightarrow> string \<Rightarrow> gstr option" where
  "expr_gstr_print_revdep K e gs pr_type title =
     print_calls K (fst (expr_print_revdep K e pr_type (Some title))) gs"

section \<open>The grammar\<close>

text \<open>
  Expressions as zconf.y reads them, on the tokens of the printer: what a token list
  begins with, and what is left of it. \<open>||\<close> and \<open>&&\<close> associate to the left, and \<open>!\<close> binds
  most tightly; the tails continue an expression as long as there is an operator.
\<close>

fun begins :: "call \<Rightarrow> call list \<Rightarrow> bool" where
  "begins c (d # ds) \<longleftrightarrow> d = c"
| "begins c [] \<longleftrightarrow> False"

inductive
  parse_or :: "call list \<Rightarrow> expr \<Rightarrow> call list \<Rightarrow> bool" and
  or_tail :: "expr \<Rightarrow> call list \<Rightarrow> expr \<Rightarrow> call list \<Rightarrow> bool" and
  parse_and :: "call list \<Rightarrow> expr \<Rightarrow> call list \<Rightarrow> bool" and
  and_tail :: "expr \<Rightarrow> call list \<Rightarrow> expr \<Rightarrow> call list \<Rightarrow> bool" and
  parse_not :: "call list \<Rightarrow> expr \<Rightarrow> call list \<Rightarrow> bool"
where
  "parse_and ts e us \<Longrightarrow> or_tail e us f vs \<Longrightarrow> parse_or ts f vs"
| "parse_and ts e us \<Longrightarrow> or_tail (Eor d e) us f vs \<Longrightarrow> or_tail d (txt_call '' || '' # ts) f vs"
| "\<not> begins (txt_call '' || '') ts \<Longrightarrow> or_tail d ts d ts"
| "parse_not ts e us \<Longrightarrow> and_tail e us f vs \<Longrightarrow> parse_and ts f vs"
| "parse_not ts e us \<Longrightarrow> and_tail (Eand d e) us f vs \<Longrightarrow> and_tail d (txt_call '' && '' # ts) f vs"
| "\<not> begins (txt_call '' && '') ts \<Longrightarrow> and_tail d ts d ts"
| "parse_not ts e us \<Longrightarrow> parse_not (txt_call ''!'' # ts) (Enot e) us"
| "parse_or ts e (txt_call '')'' # us) \<Longrightarrow> parse_not (txt_call ''('' # ts) e us"
| "parse_not ((Some a, n) # txt_call (comp_text c) # (Some b, m) # us) (Ecmp c a b) us"
| "\<forall>c. \<not> begins (txt_call (comp_text c)) us \<Longrightarrow> parse_not ((Some s, n) # us) (Esym s) us"

lemma comp_text_inj [simp]: "comp_text c = comp_text d \<longleftrightarrow> c = d"
  by (cases c; cases d; simp)

lemma txt_call_simps [simp]: "txt_call s = txt_call t \<longleftrightarrow> s = t" "txt_call s \<noteq> (Some x, n)" "(Some x, n) \<noteq> txt_call s"
  by (auto simp: txt_call_def)

inductive_simps parse_or_iff: "parse_or ts f vs"
inductive_simps parse_and_iff: "parse_and ts f vs"
inductive_simps or_tail_op: "or_tail d (txt_call '' || '' # ts) f vs"
inductive_simps and_tail_op: "and_tail d (txt_call '' && '' # ts) f vs"
inductive_simps or_tail_iff: "or_tail d ts f vs"
inductive_simps and_tail_iff: "and_tail d ts f vs"
inductive_simps parse_not_op: "parse_not (txt_call s # ts) f vs"
inductive_simps parse_not_sym: "parse_not ((Some s, n) # ts) f vs"

text \<open>The grammar is deterministic.\<close>

lemma parse_unique:
  "parse_or ts e us \<Longrightarrow> parse_or ts e' us' \<Longrightarrow> e' = e \<and> us' = us"
  "or_tail d ts e us \<Longrightarrow> or_tail d ts e' us' \<Longrightarrow> e' = e \<and> us' = us"
  "parse_and ts e us \<Longrightarrow> parse_and ts e' us' \<Longrightarrow> e' = e \<and> us' = us"
  "and_tail d ts e us \<Longrightarrow> and_tail d ts e' us' \<Longrightarrow> e' = e \<and> us' = us"
  "parse_not ts e us \<Longrightarrow> parse_not ts e' us' \<Longrightarrow> e' = e \<and> us' = us"
proof (induction arbitrary: e' us' and e' us' and e' us' and e' us' and e' us' rule: parse_or_or_tail_parse_and_and_tail_parse_not.inducts)
  case (1 ts e us f vs)
  from 1(5) obtain e2 us2 where e2: "parse_and ts e2 us2" "or_tail e2 us2 e' us'" by (auto simp: parse_or_iff)
  from 1(3) [OF e2(1)] 1(4) e2(2) show ?case by simp
next
  case (2 ts e us d f vs)
  from 2(5) obtain e2 us2 where e2: "parse_and ts e2 us2" "or_tail (Eor d e2) us2 e' us'" by (auto simp: or_tail_op)
  from 2(3) [OF e2(1)] 2(4) e2(2) show ?case by simp
next
  case (3 ts d)
  then show ?case by (auto simp: or_tail_iff [of d ts])
next
  case (4 ts e us f vs)
  from 4(5) obtain e2 us2 where e2: "parse_not ts e2 us2" "and_tail e2 us2 e' us'" by (auto simp: parse_and_iff)
  from 4(3) [OF e2(1)] 4(4) e2(2) show ?case by simp
next
  case (5 ts e us d f vs)
  from 5(5) obtain e2 us2 where e2: "parse_not ts e2 us2" "and_tail (Eand d e2) us2 e' us'" by (auto simp: and_tail_op)
  from 5(3) [OF e2(1)] 5(4) e2(2) show ?case by simp
next
  case (6 ts d)
  then show ?case by (auto simp: and_tail_iff [of d ts])
next
  case (7 ts e us)
  from 7(3) obtain e2 where e2: "e' = Enot e2" "parse_not ts e2 us'" by (auto simp: parse_not_op)
  from 7(2) [OF e2(2)] e2(1) show ?case by simp
next
  case (8 ts e us)
  from 8(3) have "parse_or ts e' (txt_call '')'' # us')" by (auto simp: parse_not_op)
  from 8(2) [OF this] show ?case by simp
next
  case (9 a n c b m us)
  then show ?case by (auto simp: parse_not_sym)
next
  case (10 us s n)
  then show ?case by (auto simp: parse_not_sym)
qed

section \<open>Printed expressions are read back\<close>

text \<open>Chains of an operator associated to the left, as the parser builds them.\<close>

fun left_assoc :: "expr \<Rightarrow> expr" and or_onto :: "expr \<Rightarrow> expr \<Rightarrow> expr" and and_onto :: "expr \<Rightarrow> expr \<Rightarrow> expr" where
  "left_assoc (Enot e) = Enot (left_assoc e)"
| "left_assoc (Eor l r) = or_onto (left_assoc l) r"
| "left_assoc (Eand l r) = and_onto (left_assoc l) r"
| "left_assoc e = e"
| "or_onto d (Eor l r) = or_onto (or_onto d l) r"
| "or_onto d e = Eor d (left_assoc e)"
| "and_onto d (Eand l r) = and_onto (and_onto d l) r"
| "and_onto d e = Eand d (left_assoc e)"

fun readable :: "symtab \<Rightarrow> expr \<Rightarrow> bool" where
  "readable T (Esym s) \<longleftrightarrow> s_name (T s) \<noteq> None"
| "readable T (Enot e) \<longleftrightarrow> readable T e"
| "readable T (Ecmp c a b) \<longleftrightarrow> s_name (T a) \<noteq> None"
| "readable T (Eor l r) \<longleftrightarrow> readable T l \<and> readable T r"
| "readable T (Eand l r) \<longleftrightarrow> readable T l \<and> readable T r"
| "readable T _ \<longleftrightarrow> False"

lemma compare_types [simp]:
  "expr_compare_type E_NONE t \<le> 0" "expr_compare_type E_OR E_OR = 0" "expr_compare_type E_OR E_AND = -1"
  "expr_compare_type E_OR E_NOT = -1" "expr_compare_type E_OR E_SYMBOL = -1" "expr_compare_type E_OR (E_COMP c) = -1"
  "expr_compare_type E_AND E_AND = 0" "expr_compare_type E_AND E_OR = 1" "expr_compare_type E_AND E_NOT = -1"
  "expr_compare_type E_AND E_SYMBOL = -1" "expr_compare_type E_AND (E_COMP c) = -1"
  "expr_compare_type E_NOT E_AND = 1" "expr_compare_type E_NOT E_OR = 1" "expr_compare_type E_NOT E_NOT = 0"
  "expr_compare_type E_NOT E_SYMBOL = -1" "expr_compare_type E_NOT (E_COMP c) = -1"
  by (simp_all add: expr_compare_type_def is_order_def is_equality_def)

lemma bracket_simps [simp]: "bracket True cs = txt_call ''('' # cs @ [txt_call '')'']" "bracket False cs = cs"
  by (simp_all add: bracket_def)

text \<open>What a token list of an operand ends before, and how operands are read there.\<close>

definition ends :: "call list \<Rightarrow> bool" where
  "ends ts \<longleftrightarrow> ts = [] \<or> hd ts \<in> {txt_call '' || '', txt_call '' && '', txt_call '')''}"

lemma ends_simps [simp]: "ends []" "ends (txt_call '' || '' # ts)" "ends (txt_call '' && '' # ts)" "ends (txt_call '')'' # ts)"
  by (simp_all add: ends_def)

lemma ends_no_comp: "ends ts \<Longrightarrow> \<not> begins (txt_call (comp_text c)) ts"
  by (cases ts; cases c) (auto simp: ends_def)

definition reads :: "symtab \<Rightarrow> expr \<Rightarrow> bool" where
  "reads T e \<longleftrightarrow> (\<forall>rest. ends rest \<longrightarrow>
     parse_not (print_node T E_NOT e @ rest) (left_assoc e) rest \<and>
     (\<forall>f ws. and_tail (left_assoc e) rest f ws \<longrightarrow> parse_and (print_node T E_AND e @ rest) f ws) \<and>
     (\<forall>d f ws. and_tail (and_onto d e) rest f ws \<longrightarrow> and_tail d (txt_call '' && '' # print_node T E_AND e @ rest) f ws) \<and>
     (\<not> begins (txt_call '' && '') rest \<longrightarrow>
       (\<forall>f ws. or_tail (left_assoc e) rest f ws \<longrightarrow> parse_or (print_node T E_OR e @ rest) f ws) \<and>
       (\<forall>d f ws. or_tail (or_onto d e) rest f ws \<longrightarrow> or_tail d (txt_call '' || '' # print_node T E_OR e @ rest) f ws)))"

lemmas grammar = parse_or_or_tail_parse_and_and_tail_parse_not.intros

lemma reads_atom:
  assumes "\<And>rest. ends rest \<Longrightarrow> parse_not (print_node T E_NOT e @ rest) (left_assoc e) rest"
    and "print_node T E_AND e = print_node T E_NOT e" "print_node T E_OR e = print_node T E_NOT e"
    and "\<And>d. and_onto d e = Eand d (left_assoc e)" "\<And>d. or_onto d e = Eor d (left_assoc e)"
  shows "reads T e"
  unfolding reads_def assms(2-5) by (auto intro: grammar assms(1))

lemma reads_and:
  assumes l: "reads T l" and r: "reads T r"
  shows "reads T (Eand l r)"
proof -
  let ?p = "print_node T E_AND l @ txt_call '' && '' # print_node T E_AND r"
  have first: "parse_and (?p @ rest) f ws" if "ends rest" "and_tail (left_assoc (Eand l r)) rest f ws" for rest f ws
    using l r that by (simp add: reads_def)
  have last: "parse_and (?p @ rest) (left_assoc (Eand l r)) rest" if "ends rest" "\<not> begins (txt_call '' && '') rest" for rest
    using first [OF that(1)] that(2) grammar(6) by blast
  have "parse_or (?p @ txt_call '')'' # rest) (left_assoc (Eand l r)) (txt_call '')'' # rest)" for rest
    by (rule grammar(1) [OF last grammar(3)]) auto
  then have "parse_not (print_node T E_NOT (Eand l r) @ rest) (left_assoc (Eand l r)) rest" for rest
    by (simp add: grammar(8))
  moreover have "and_tail d (txt_call '' && '' # ?p @ rest) f ws" if "ends rest" "and_tail (and_onto d (Eand l r)) rest f ws" for d rest f ws
    using l r that by (simp add: reads_def)
  moreover have "parse_or (?p @ rest) f ws" if "ends rest" "\<not> begins (txt_call '' && '') rest" "or_tail (left_assoc (Eand l r)) rest f ws" for rest f ws
    using grammar(1) [OF last [OF that(1,2)] that(3)] .
  moreover have "or_tail d (txt_call '' || '' # ?p @ rest) f ws"
    if "ends rest" "\<not> begins (txt_call '' && '') rest" "or_tail (or_onto d (Eand l r)) rest f ws" for d rest f ws
    using grammar(2) [OF last [OF that(1,2)]] that(3) by simp
  ultimately show ?thesis unfolding reads_def using first by simp
qed

lemma reads_or:
  assumes l: "reads T l" and r: "reads T r"
  shows "reads T (Eor l r)"
proof -
  let ?p = "print_node T E_OR l @ txt_call '' || '' # print_node T E_OR r"
  have first: "parse_or (?p @ rest) f ws"
    if "ends rest" "\<not> begins (txt_call '' && '') rest" "or_tail (left_assoc (Eor l r)) rest f ws" for rest f ws
    using l r that by (simp add: reads_def)
  have next_op: "or_tail d (txt_call '' || '' # ?p @ rest) f ws"
    if "ends rest" "\<not> begins (txt_call '' && '') rest" "or_tail (or_onto d (Eor l r)) rest f ws" for d rest f ws
    using l r that by (simp add: reads_def)
  have "parse_or (?p @ txt_call '')'' # rest) (left_assoc (Eor l r)) (txt_call '')'' # rest)" for rest
    by (rule first) (auto intro: grammar(3))
  then have par: "parse_not (txt_call ''('' # ?p @ txt_call '')'' # rest) (left_assoc (Eor l r)) rest" for rest
    by (rule grammar(8))
  show ?thesis
    unfolding reads_def using first next_op par grammar(4) [OF par] grammar(5) [OF par] by auto
qed

lemma reads_readable: "readable T e \<Longrightarrow> reads T e"
proof (induction e)
  case (Esym s)
  then show ?case
    by (intro reads_atom) (auto simp: left_call_def intro!: grammar(10) dest: ends_no_comp)
next
  case (Ecmp c a b)
  then show ?case
    by (intro reads_atom) (auto simp: left_call_def right_call_def intro!: grammar(9))
next
  case (Enot e)
  then show ?case
    by (intro reads_atom) (auto simp: reads_def intro!: grammar(7))
qed (simp_all add: reads_and reads_or)

section \<open>Associating to the left changes neither text nor value\<close>

lemma bracket_inj [simp]: "bracket b cs = bracket b ds \<longleftrightarrow> cs = ds"
  by (cases b) simp_all

lemma left_assoc_prints:
  "print_node T p (left_assoc e) = print_node T p e"
  "print_node T p (or_onto d e) = bracket (expr_compare_type p E_OR > 0) (print_node T E_OR d @ txt_call '' || '' # print_node T E_OR e)"
  "print_node T p (and_onto d e) = bracket (expr_compare_type p E_AND > 0) (print_node T E_AND d @ txt_call '' && '' # print_node T E_AND e)"
  by (induction e and d e and d e arbitrary: p and p and p rule: left_assoc_or_onto_and_onto.induct) simp_all

lemma left_assoc_value:
  "expr_val f g (left_assoc e) = expr_val f g e"
  "expr_val f g (or_onto d e) = max (expr_val f g d) (expr_val f g e)"
  "expr_val f g (and_onto d e) = min (expr_val f g d) (expr_val f g e)"
  by (induction e and d e and d e rule: left_assoc_or_onto_and_onto.induct)
    (simp_all add: EXPR_OR_max EXPR_AND_min ac_simps)

lemma print_outermost: "readable T e \<Longrightarrow> print_node T E_NONE e = print_node T E_OR e"
  by (cases e) (auto simp: bracket_def expr_compare_type_def is_order_def is_equality_def)

section \<open>Properties\<close>


text \<open>\<open>a && (b && c) || !(b || a=c)\<close>\<close>

definition print_sample :: expr where
  "print_sample = Eor (Eand (Esym (Sym 0)) (Eand (Esym (Sym 1)) (Esym (Sym 2))))
     (Enot (Eor (Esym (Sym 1)) (Ecmp EQUAL (Sym 0) (Sym 2))))"

definition print_tab :: symtab where
  "print_tab s = \<lparr> s_name = Some (case s of Sym n \<Rightarrow> [CHR ''a'', CHR ''b'', CHR ''c''] ! n # [] | _ \<Rightarrow> ''y''), s_type = S_TRISTATE,
     s_curr = \<lparr>sv_val = CNull, sv_tri = tri_no\<rparr>, s_def_user = \<lparr>sv_val = CNull, sv_tri = tri_no\<rparr>,
     s_def_auto = \<lparr>sv_val = CNull, sv_tri = tri_no\<rparr>, s_visible = tri_no, s_flags = {}, s_prop = [],
     s_dir_dep = None, s_dir_tri = tri_no, s_rev_dep = None, s_rev_tri = tri_no, s_implied = None, s_impl_tri = tri_no \<rparr>"


text \<open>
  The list of what selects an option has a line, after a dash, for every operand of
  the outermost \<open>||\<close> whose value is the one that is asked for, in their order; the
  title precedes the first line and is printed only when there is one.
\<close>

fun operands :: "expr \<Rightarrow> expr list" where
  "operands (Eor l r) = operands l @ operands r"
| "operands e = [e]"

definition revdep_line :: "symtab \<Rightarrow> expr \<Rightarrow> call list" where
  "revdep_line T e = txt_call ''  - '' # expr_print T (Some e) E_NONE @ [txt_call ''\<newline>'']"

theorem revdep_lines:
  "expr_print_revdep K e pr_type title =
     (let es = filter (\<lambda>e. expr_calc_value K (Some e) = pr_type) (operands e)
      in if es = [] then ([], title)
         else ((case title of Some t \<Rightarrow> [txt_call t] | None \<Rightarrow> []) @ concat (map (revdep_line (k_tab K)) es), None))"
proof (induction e arbitrary: title)
  case (Eor l r)
  then show ?case by (auto simp: Let_def)
qed (simp_all add: revdep_line_def)

section \<open>The width of lines\<close>

text \<open>No line is longer than \<open>w\<close>: what stands between newlines.\<close>

definition lines_within :: "nat \<Rightarrow> string \<Rightarrow> bool" where
  "lines_within w s \<longleftrightarrow> (\<forall>a b c. s = a @ b @ c \<and> CHR ''\<newline>'' \<notin> set b \<longrightarrow> length b \<le> w)"

lemma takeWhile_skip: "x \<notin> set u \<Longrightarrow> takeWhile (\<lambda>c. c \<noteq> x) (rev u @ v) = rev u @ takeWhile (\<lambda>c. c \<noteq> x) v"
  by (rule takeWhile_append2) auto

lemma last_line_append:
  "CHR ''\<newline>'' \<notin> set t \<Longrightarrow> last_line_length (s @ t) = last_line_length s + length t"
  by (auto simp: last_line_length_def takeWhile_skip)

lemma last_line_newline: "last_line_length (s @ t @ [CHR ''\<newline>'']) = 1"
  by (simp add: last_line_length_def)

lemma suffix_last_line:
  assumes "s = a @ b" "CHR ''\<newline>'' \<notin> set b"
  shows "length b \<le> last_line_length s"
proof -
  have "takeWhile (\<lambda>c. c \<noteq> CHR ''\<newline>'') (rev s) = rev b @ takeWhile (\<lambda>c. c \<noteq> CHR ''\<newline>'') (rev a)"
    using assms by (simp add: takeWhile_skip)
  with assms(1) show ?thesis by (auto simp: last_line_length_def)
qed

lemma within_append:
  assumes s: "lines_within w s" and t: "CHR ''\<newline>'' \<notin> set t" and fits: "last_line_length s + length t \<le> w"
  shows "lines_within w (s @ t)"
  unfolding lines_within_def
proof (intro allI impI, elim conjE)
  fix a b c assume eq: "s @ t = a @ b @ c" and b: "CHR ''\<newline>'' \<notin> set b"
  show "length b \<le> w"
  proof (cases "length s \<le> length a")
    case True
    then have "length b \<le> length t" using arg_cong [OF eq, of length] by simp
    with fits show ?thesis by simp
  next
    case False
    then obtain s' where s': "s = a @ s'" using eq by (metis append_eq_append_conv2 length_append le_add1)
    with eq have "s' @ t = b @ c" by simp
    then consider u where "s' = b @ u" | u where "b = s' @ u" "t = u @ c" by (auto simp: append_eq_append_conv2)
    then show ?thesis
    proof cases
      case 1
      with s s' b show ?thesis by (auto simp: lines_within_def)
    next
      case 2
      with s' b have "length s' \<le> last_line_length s" by (intro suffix_last_line) auto
      with 2 fits show ?thesis by simp
    qed
  qed
qed

lemma within_newline:
  assumes "lines_within w s"
  shows "lines_within w (s @ [CHR ''\<newline>''])"
  unfolding lines_within_def
proof (intro allI impI, elim conjE)
  fix a b c assume eq: "s @ [CHR ''\<newline>''] = a @ b @ c" and b: "CHR ''\<newline>'' \<notin> set b"
  show "length b \<le> w"
  proof (cases c rule: rev_cases)
    case Nil
    then have "b = []" using eq b by (cases b rule: rev_cases) auto
    then show ?thesis by simp
  next
    case (snoc c' x)
    with eq have "s = a @ b @ c'" by simp
    with assms b show ?thesis by (auto simp: lines_within_def)
  qed
qed

text \<open>A token with the room it takes, its value included.\<close>

definition call_length :: "kstate \<Rightarrow> call \<Rightarrow> nat" where
  "call_length K c = length (the (snd c)) +
     (case fst c of Some s \<Rightarrow> 4 + length (sym_get_string_value K s) | None \<Rightarrow> 0)"

definition fits_line :: "kstate \<Rightarrow> nat \<Rightarrow> call \<Rightarrow> bool" where
  "fits_line K w c \<longleftrightarrow> snd c \<noteq> None \<and> CHR ''\<newline>'' \<notin> set (the (snd c)) \<and> call_length K c < w \<and>
     (case fst c of Some s \<Rightarrow> CHR ''\<newline>'' \<notin> set (sym_get_string_value K s) | None \<Rightarrow> True)"

lemma within_helper:
  assumes w: "gs_max_width gs = w" "0 < w" and c: "fits_line K w c"
    and gs: "lines_within (Suc w) (gs_s gs)" "last_line_length (gs_s gs) \<le> w"
  shows "\<exists>gs'. expr_print_gstr_helper K gs c = Some gs' \<and> gs_max_width gs' = w \<and>
    lines_within (Suc w) (gs_s gs') \<and> last_line_length (gs_s gs') \<le> w"
proof -
  obtain sym str where c_eq: "c = (sym, Some str)" using c by (cases c) (auto simp: fits_line_def)
  define g where "g = (if last_line_length (gs_s gs) + call_length K c > w then str_append (Some [CHR 0x5C, CHR 0x0A]) gs else gs)"
  define shown where "shown = (case sym of Some s \<Rightarrow> if s_type (k_tab K s) \<noteq> S_UNKNOWN
      then take 9999 ('' [='' @ sym_get_string_value K s @ '']'') else [] | None \<Rightarrow> [])"
  have run: "\<exists>gs'. expr_print_gstr_helper K gs c = Some gs' \<and> gs_max_width gs' = w \<and> gs_s gs' = gs_s g @ str @ shown"
    using w by (cases sym) (auto simp: expr_print_gstr_helper_def c_eq g_def shown_def call_length_def Let_def str_append_def str_printf_def)
  have no_nl: "CHR ''\<newline>'' \<notin> set (str @ shown)"
    using c by (auto simp: c_eq fits_line_def shown_def split: option.splits dest: in_set_takeD)
  have len: "length (str @ shown) \<le> call_length K c"
    by (auto simp: c_eq call_length_def shown_def split: option.split)
  have "lines_within (Suc w) (gs_s g) \<and> last_line_length (gs_s g) + call_length K c \<le> w"
  proof (cases "last_line_length (gs_s gs) + call_length K c > w")
    case True
    have "lines_within (Suc w) (gs_s gs @ [CHR 0x5C])" using gs by (intro within_append) auto
    from within_newline [OF this] True c show ?thesis
      using last_line_newline [of "gs_s gs" "[CHR 0x5C]"] by (simp add: g_def str_append_def fits_line_def)
  next
    case False
    with gs show ?thesis by (simp add: g_def)
  qed
  with len have "lines_within (Suc w) (gs_s g @ str @ shown)" "last_line_length (gs_s g @ str @ shown) \<le> w"
    using within_append [OF _ no_nl, of "Suc w" "gs_s g"] last_line_append [OF no_nl, of "gs_s g"] by auto
  with run show ?thesis by auto
qed


definition print_store :: kstate where
  "print_store = \<lparr> k_tab = print_tab, k_nsyms = 3, k_hash = (\<lambda>_. []), k_modules_sym = symbol_no,
     k_modules_val = tri_no, k_menu_changed = {}, k_changes = 0 \<rparr>"


end
