(* ===== verification/Crc.thy ===== *)
theory Crc
  imports Prelude
begin

unbundle bit_operations_syntax

text \<open>
  The checksum of \<open>mkpimage.c\<close>: the table \<open>crc_table\<close> and the loop of \<open>crc32\<close>,
  and the division by the generator polynomial, bit by bit, that they stand for.
\<close>

section \<open>\<open>crc_table\<close> and \<open>crc32\<close>\<close>

definition crc_table :: "u32 list" where
  "crc_table = [
   0x00000000, 0x04c11db7, 0x09823b6e, 0x0d4326d9, 0x130476dc, 0x17c56b6b,
   0x1a864db2, 0x1e475005, 0x2608edb8, 0x22c9f00f, 0x2f8ad6d6, 0x2b4bcb61,
   0x350c9b64, 0x31cd86d3, 0x3c8ea00a, 0x384fbdbd, 0x4c11db70, 0x48d0c6c7,
   0x4593e01e, 0x4152fda9, 0x5f15adac, 0x5bd4b01b, 0x569796c2, 0x52568b75,
   0x6a1936c8, 0x6ed82b7f, 0x639b0da6, 0x675a1011, 0x791d4014, 0x7ddc5da3,
   0x709f7b7a, 0x745e66cd, 0x9823b6e0, 0x9ce2ab57, 0x91a18d8e, 0x95609039,
   0x8b27c03c, 0x8fe6dd8b, 0x82a5fb52, 0x8664e6e5, 0xbe2b5b58, 0xbaea46ef,
   0xb7a96036, 0xb3687d81, 0xad2f2d84, 0xa9ee3033, 0xa4ad16ea, 0xa06c0b5d,
   0xd4326d90, 0xd0f37027, 0xddb056fe, 0xd9714b49, 0xc7361b4c, 0xc3f706fb,
   0xceb42022, 0xca753d95, 0xf23a8028, 0xf6fb9d9f, 0xfbb8bb46, 0xff79a6f1,
   0xe13ef6f4, 0xe5ffeb43, 0xe8bccd9a, 0xec7dd02d, 0x34867077, 0x30476dc0,
   0x3d044b19, 0x39c556ae, 0x278206ab, 0x23431b1c, 0x2e003dc5, 0x2ac12072,
   0x128e9dcf, 0x164f8078, 0x1b0ca6a1, 0x1fcdbb16, 0x018aeb13, 0x054bf6a4,
   0x0808d07d, 0x0cc9cdca, 0x7897ab07, 0x7c56b6b0, 0x71159069, 0x75d48dde,
   0x6b93dddb, 0x6f52c06c, 0x6211e6b5, 0x66d0fb02, 0x5e9f46bf, 0x5a5e5b08,
   0x571d7dd1, 0x53dc6066, 0x4d9b3063, 0x495a2dd4, 0x44190b0d, 0x40d816ba,
   0xaca5c697, 0xa864db20, 0xa527fdf9, 0xa1e6e04e, 0xbfa1b04b, 0xbb60adfc,
   0xb6238b25, 0xb2e29692, 0x8aad2b2f, 0x8e6c3698, 0x832f1041, 0x87ee0df6,
   0x99a95df3, 0x9d684044, 0x902b669d, 0x94ea7b2a, 0xe0b41de7, 0xe4750050,
   0xe9362689, 0xedf73b3e, 0xf3b06b3b, 0xf771768c, 0xfa325055, 0xfef34de2,
   0xc6bcf05f, 0xc27dede8, 0xcf3ecb31, 0xcbffd686, 0xd5b88683, 0xd1799b34,
   0xdc3abded, 0xd8fba05a, 0x690ce0ee, 0x6dcdfd59, 0x608edb80, 0x644fc637,
   0x7a089632, 0x7ec98b85, 0x738aad5c, 0x774bb0eb, 0x4f040d56, 0x4bc510e1,
   0x46863638, 0x42472b8f, 0x5c007b8a, 0x58c1663d, 0x558240e4, 0x51435d53,
   0x251d3b9e, 0x21dc2629, 0x2c9f00f0, 0x285e1d47, 0x36194d42, 0x32d850f5,
   0x3f9b762c, 0x3b5a6b9b, 0x0315d626, 0x07d4cb91, 0x0a97ed48, 0x0e56f0ff,
   0x1011a0fa, 0x14d0bd4d, 0x19939b94, 0x1d528623, 0xf12f560e, 0xf5ee4bb9,
   0xf8ad6d60, 0xfc6c70d7, 0xe22b20d2, 0xe6ea3d65, 0xeba91bbc, 0xef68060b,
   0xd727bbb6, 0xd3e6a601, 0xdea580d8, 0xda649d6f, 0xc423cd6a, 0xc0e2d0dd,
   0xcda1f604, 0xc960ebb3, 0xbd3e8d7e, 0xb9ff90c9, 0xb4bcb610, 0xb07daba7,
   0xae3afba2, 0xaafbe615, 0xa7b8c0cc, 0xa379dd7b, 0x9b3660c6, 0x9ff77d71,
   0x92b45ba8, 0x9675461f, 0x8832161a, 0x8cf30bad, 0x81b02d74, 0x857130c3,
   0x5d8a9099, 0x594b8d2e, 0x5408abf7, 0x50c9b640, 0x4e8ee645, 0x4a4ffbf2,
   0x470cdd2b, 0x43cdc09c, 0x7b827d21, 0x7f436096, 0x7200464f, 0x76c15bf8,
   0x68860bfd, 0x6c47164a, 0x61043093, 0x65c52d24, 0x119b4be9, 0x155a565e,
   0x18197087, 0x1cd86d30, 0x029f3d35, 0x065e2082, 0x0b1d065b, 0x0fdc1bec,
   0x3793a651, 0x3352bbe6, 0x3e119d3f, 0x3ad08088, 0x2497d08d, 0x2056cd3a,
   0x2d15ebe3, 0x29d4f654, 0xc5a92679, 0xc1683bce, 0xcc2b1d17, 0xc8ea00a0,
   0xd6ad50a5, 0xd26c4d12, 0xdf2f6bcb, 0xdbee767c, 0xe3a1cbc1, 0xe760d676,
   0xea23f0af, 0xeee2ed18, 0xf0a5bd1d, 0xf464a0aa, 0xf9278673, 0xfde69bc4,
   0x89b8fd09, 0x8d79e0be, 0x803ac667, 0x84fbdbd0, 0x9abc8bd5, 0x9e7d9662,
   0x933eb0bb, 0x97ffad0c, 0xafb010b1, 0xab710d06, 0xa6322bdf, 0xa2f33668,
   0xbcb4666d, 0xb8757bda, 0xb5365d03, 0xb1f740b4]"

text \<open>One turn of the loop: \<open>crc << 8 ^ crc_table[(crc >> 24 ^ *(buf++)) & 0xff]\<close>.\<close>

definition crc_step :: "u32 \<Rightarrow> u8 \<Rightarrow> u32" where
  "crc_step crc b = push_bit 8 crc XOR crc_table ! unat ((drop_bit 24 crc XOR ucast b) AND 0xff)"

fun crc32 :: "u32 \<Rightarrow> u8 list \<Rightarrow> u32" where
  "crc32 crc [] = crc"
| "crc32 crc (b # bs) = crc32 (crc_step crc b) bs"

section \<open>The reference: polynomial division\<close>

text \<open>
  Shift the next bit of the message into the remainder and subtract the generator
  \<open>x^32 + x^26 + x^23 + \<dots> + 1\<close> when a one falls out.
\<close>

definition poly_bit :: "u32 \<Rightarrow> u32" where
  "poly_bit r = (if bit r 31 then push_bit 1 r XOR 0x04c11db7 else push_bit 1 r)"

definition poly_byte :: "u32 \<Rightarrow> u8 \<Rightarrow> u32" where
  "poly_byte r b = (poly_bit ^^ 8) (r XOR push_bit 24 (ucast b))"

definition poly_crc :: "u32 \<Rightarrow> u8 list \<Rightarrow> u32" where
  "poly_crc r bs = foldl poly_byte r bs"

section \<open>Division is linear and one to one\<close>

lemma poly_bit_xor: "poly_bit (a XOR b) = poly_bit a XOR poly_bit b"
  by (auto simp: poly_bit_def push_bit_xor bit_xor_iff xor.assoc xor.left_commute xor.commute)

lemma poly_bits_xor: "(poly_bit ^^ n) (a XOR b) = (poly_bit ^^ n) a XOR (poly_bit ^^ n) b"
  by (induction n) (simp_all add: poly_bit_xor)

lemma bit_shifted: "bit (push_bit 1 (r :: u32)) n \<longleftrightarrow> 0 < n \<and> n < 32 \<and> bit r (n - 1)"
  unfolding bit_push_bit_iff by (auto simp: possible_bit_def)

lemma poly_bit_0: "bit (poly_bit r) 0 \<longleftrightarrow> bit r 31"
proof -
  have "\<not> bit (push_bit 1 r) 0" by (simp only: bit_shifted) simp
  then show ?thesis by (simp add: poly_bit_def bit_xor_iff)
qed

lemma xor_right_cancel: "(a :: u32) XOR c = b XOR c \<Longrightarrow> a = b"
  by (metis xor.assoc xor_self_eq xor.right_neutral)

lemma poly_bit_inj: "poly_bit r = poly_bit s \<Longrightarrow> r = s"
proof (rule bit_word_eqI)
  fix n assume eq: "poly_bit r = poly_bit s" and n: "n < LENGTH(32)"
  have top: "bit r 31 = bit s 31"
    using poly_bit_0 [of r] poly_bit_0 [of s] eq by simp
  have shifted: "push_bit 1 r = push_bit 1 s"
    using eq top xor_right_cancel unfolding poly_bit_def by (auto split: if_splits)
  show "bit r n = bit s n"
  proof (cases "n = 31")
    case False
    have "bit (push_bit 1 r) (Suc n) = bit (push_bit 1 s) (Suc n)" by (simp only: shifted)
    then have "(0 < Suc n \<and> Suc n < 32 \<and> bit r (Suc n - 1)) = (0 < Suc n \<and> Suc n < 32 \<and> bit s (Suc n - 1))"
      by (simp only: bit_shifted)
    then show ?thesis using n False by simp
  qed (simp add: top)
qed

lemma poly_bits_inj: "(poly_bit ^^ n) r = (poly_bit ^^ n) s \<Longrightarrow> r = s"
  by (induction n) (auto dest: poly_bit_inj)

lemma poly_bits_low: "(\<And>k. 32 - n \<le> k \<Longrightarrow> \<not> bit r k) \<Longrightarrow> n \<le> 32 \<Longrightarrow> (poly_bit ^^ n) r = push_bit n r"
proof (induction n)
  case (Suc n)
  have IH: "(poly_bit ^^ n) r = push_bit n r" using Suc.prems by (intro Suc.IH) simp_all
  have "\<not> bit (push_bit n r) 31" using Suc.prems(1) [of "31 - n"] Suc.prems(2) by (simp add: bit_push_bit_iff)
  then have "poly_bit (push_bit n r) = push_bit 1 (push_bit n r)" unfolding poly_bit_def by (rule if_not_P)
  then show ?case by (simp only: funpow.simps o_apply IH push_bit_push_bit plus_1_eq_Suc)
qed simp

section \<open>The table holds the remainders\<close>

lemma length_crc_table [simp]: "length crc_table = 256"
  by (simp add: crc_table_def)

text \<open>
  Entry \<open>2 i\<close> is entry \<open>i\<close> shifted once more, and entry \<open>2 i + 1\<close> differs from it
  by the generator.
\<close>

fun doubled :: "u32 list \<Rightarrow> u32 list \<Rightarrow> bool" where
  "doubled (w # ws) (a # b # ts) \<longleftrightarrow> a = poly_bit w \<and> b = a XOR 0x04c11db7 \<and> doubled ws ts"
| "doubled ws ts \<longleftrightarrow> ts = []"

lemma crc_table_doubled: "doubled crc_table crc_table"
  by (simp add: crc_table_def poly_bit_def)

lemma doubled_nth:
  "doubled ws ts \<Longrightarrow> 2 * i < length ts \<Longrightarrow>
     ts ! (2 * i) = poly_bit (ws ! i) \<and> ts ! Suc (2 * i) = ts ! (2 * i) XOR 0x04c11db7"
proof (induction ws ts arbitrary: i rule: doubled.induct)
  case (1 w ws a b ts)
  then show ?case by (cases i) simp_all
qed auto

lemma crc_table_nth: "i < 256 \<Longrightarrow> crc_table ! i = (poly_bit ^^ 8) (push_bit 24 (word_of_nat i))"
proof (induction i rule: less_induct)
  case (less i)
  have one: "(poly_bit ^^ 8) (push_bit 24 1) = 0x04c11db7"
  proof -
    have "(poly_bit ^^ 7) (push_bit 24 1) = push_bit 7 (push_bit 24 1)"
      by (rule poly_bits_low) (simp_all only: bit_push_bit_iff bit_1_iff, simp_all)
    then have "(poly_bit ^^ Suc 7) (push_bit 24 1) = poly_bit (push_bit 7 (push_bit 24 1))"
      by (simp only: funpow.simps o_apply)
    then show ?thesis by (simp add: poly_bit_def)
  qed
  show ?case
  proof (cases "i = 0")
    case True
    then show ?thesis using poly_bits_low [of 8 0] by (simp add: crc_table_def)
  next
    case False
    define j where "j = i div 2"
    have j: "j < i" "j < 128" using False less.prems by (simp_all add: j_def)
    have IH: "crc_table ! j = (poly_bit ^^ 8) (push_bit 24 (word_of_nat j))"
      using j less.IH by simp
    have "\<not> bit (push_bit 24 (word_of_nat j :: u32)) 31"
      using j unfolding bit_push_bit_iff bit_of_nat_iff by (simp add: bit_iff_odd)
    then have "poly_bit (push_bit 24 (word_of_nat j)) = push_bit 24 (word_of_nat (2 * j))"
      by (simp add: poly_bit_def push_bit_eq_mult)
    then have ev: "crc_table ! (2 * j) = (poly_bit ^^ 8) (push_bit 24 (word_of_nat (2 * j)))"
      using doubled_nth [OF crc_table_doubled, of j] j IH by (simp add: funpow_swap1)
    show ?thesis
    proof (cases "even i")
      case True
      then show ?thesis using ev by (simp add: j_def)
    next
      case False
      then have i: "i = Suc (2 * j)" by (simp add: j_def)
      have "word_of_nat i = (word_of_nat (2 * j) :: u32) XOR 1"
        by (simp add: i xor_one_eq)
      then have "push_bit 24 (word_of_nat i) = push_bit 24 (word_of_nat (2 * j)) XOR (push_bit 24 1 :: u32)"
        by (simp add: push_bit_xor)
      then show ?thesis
        using doubled_nth [OF crc_table_doubled, of j] j ev one by (simp add: i poly_bits_xor)
    qed
  qed
qed

section \<open>\<open>crc32\<close> divides\<close>

lemma crc_step_eq: "crc_step r b = poly_byte r b"
proof -
  let ?t = "(drop_bit 24 r XOR ucast b) AND (0xff :: u32)"
  have mask: "(0xff :: u32) = mask 8" by (simp add: mask_eq_exp_minus_1)
  have small: "unat ?t < 256"
    using take_bit_nat_less_exp [of 8 "unat (drop_bit 24 r XOR ucast b)"]
    by (simp only: mask flip: take_bit_eq_mask unsigned_take_bit_eq) simp
  have split: "r XOR push_bit 24 (ucast b) = push_bit 24 ?t XOR take_bit 24 r"
    by (rule bit_word_eqI) (auto simp: bit_simps mask)
  have "(poly_bit ^^ 8) (take_bit 24 r) = push_bit 8 r"
  proof -
    have "(poly_bit ^^ 8) (take_bit 24 r) = push_bit 8 (take_bit 24 r)"
      by (rule poly_bits_low) (simp_all add: bit_take_bit_iff)
    also have "\<dots> = push_bit 8 r" by (rule bit_word_eqI) (auto simp: bit_simps)
    finally show ?thesis .
  qed
  then show ?thesis
    using crc_table_nth [OF small]
    by (simp add: crc_step_def poly_byte_def split poly_bits_xor xor.commute)
qed

text \<open>
  C9: the table-driven \<open>crc32\<close> computes the remainder of the bit-by-bit
  division by the generator polynomial, for every start value and every message.
\<close>

theorem crc32_divides: "crc32 r bs = poly_crc r bs"
  by (induction bs arbitrary: r) (simp_all add: poly_crc_def crc_step_eq)

section \<open>Detection\<close>

lemma poly_byte_inj: "poly_byte r b = poly_byte s b \<Longrightarrow> r = s"
  unfolding poly_byte_def by (drule poly_bits_inj) (rule xor_right_cancel)

lemma crc_step_inj: "crc_step r b = crc_step s b \<Longrightarrow> r = s"
  by (simp only: crc_step_eq) (rule poly_byte_inj)

lemma crc32_inj: "crc32 r bs = crc32 s bs \<Longrightarrow> r = s"
  by (induction bs arbitrary: r s) (auto dest: crc_step_inj)

lemma crc_step_byte_inj:
  assumes "crc_step r a = crc_step r b"
  shows "a = b"
proof -
  have "r XOR push_bit 24 (ucast a) = r XOR (push_bit 24 (ucast b) :: u32)"
    using assms unfolding crc_step_eq poly_byte_def by (rule poly_bits_inj)
  then have eq: "push_bit 24 (ucast a) = (push_bit 24 (ucast b) :: u32)"
    using xor_right_cancel xor.commute by metis
  show ?thesis
  proof (rule bit_word_eqI)
    fix n assume n: "n < LENGTH(8)"
    have "bit (push_bit 24 (ucast a) :: u32) (n + 24) = bit (push_bit 24 (ucast b) :: u32) (n + 24)"
      by (simp only: eq)
    then show "bit a n = bit b n" using n unfolding bit_push_bit_iff bit_unsigned_iff by simp
  qed
qed

lemma crc32_append [simp]: "crc32 r (xs @ ys) = crc32 (crc32 r xs) ys"
  by (induction xs arbitrary: r) simp_all

text \<open>
  Two messages that differ in one byte never have the same checksum,
  whatever the start value: corruption within a byte is always detected.
\<close>

theorem crc32_detects_byte: "crc32 r (xs @ a # ys) = crc32 r (xs @ b # ys) \<longleftrightarrow> a = b"
  by (auto dest: crc32_inj crc_step_byte_inj)

end
