(* ===== verification/Mkpimage.thy ===== *)
theory Mkpimage
  imports Crc Strto
begin

text \<open>
  \<open>mkpimage.c\<close>: the header a SoCFPGA boot ROM wants in front of a program. The
  image is a byte buffer; a store outside it has no result (\<open>None\<close>). The file
  system is the results of its calls.
\<close>

section \<open>Branch instructions\<close>

text \<open>
  \<open>branch\<close>: the distance counts from eight bytes behind the instruction and is
  stored in words, shifted arithmetically.
\<close>

definition arm_branch :: "nat \<Rightarrow> nat \<Rightarrow> u8 list" where
  "arm_branch at dest =
     (let offset = int dest - int at - 8 in
      [word_of_int (drop_bit 2 offset), word_of_int (drop_bit 10 offset),
       word_of_int (drop_bit 18 offset), 0xea])"

definition branch :: "nat \<Rightarrow> nat \<Rightarrow> u8 list \<Rightarrow> u8 list option" where
  "branch at dest buf = pokes at (arm_branch at dest) buf"

text \<open>What the processor does with the four bytes: the reference.\<close>

fun branch_target :: "nat \<Rightarrow> u8 list \<Rightarrow> int option" where
  "branch_target at [a, b, c, i] =
     (if i = 0xea then Some (int at + 8 + 4 * signed_take_bit 23 (int (le_val [a, b, c]))) else None)"
| "branch_target at _ = None"

section \<open>\<open>add_socfpga_header\<close>\<close>

definition header_at :: nat where "header_at = 0x40"

definition header_size :: nat where "header_size = 20"

definition VALIDATION_WORD :: nat where "VALIDATION_WORD = 0x31305341"

text \<open>The offset of the checksum field of either version.\<close>

definition checksum_at :: "nat \<Rightarrow> nat" where
  "checksum_at version = header_at + (if version = 0 then 10 else 18)"

definition header_sum :: "nat \<Rightarrow> u8 list \<Rightarrow> u32" where
  "header_sum version buf =
     foldl (\<lambda>sum b. sum + ucast b) 0 (peek header_at (checksum_at version - header_at) buf)"

text \<open>The trampoline, when the entry point is in front of the header.\<close>

definition place_entry :: "nat \<Rightarrow> nat \<Rightarrow> u8 list \<Rightarrow> (u8 list \<times> nat) option" where
  "place_entry version start buf =
     (if version \<noteq> 0 \<and> start < header_at then
        do { buf \<leftarrow> branch (header_at + header_size) start buf;
             Some (buf, header_at + header_size) }
      else Some (buf, start))"

text \<open>The fields in front of the checksum, and the start vector behind that of version 0.\<close>

definition header_fields :: "nat \<Rightarrow> nat \<Rightarrow> nat \<Rightarrow> u8 list \<Rightarrow> u8 list option" where
  "header_fields version len entry buf =
     do { buf \<leftarrow> pokes header_at (le4 VALIDATION_WORD @ [word_of_nat version, 0]) buf;
          if version = 0 then
            do { buf \<leftarrow> pokes (header_at + 6) [byte 2 len, byte 10 len, 0, 0] buf;
                 branch (header_at + 12) entry buf }
          else pokes (header_at + 6)
                 ([byte 0 header_size, byte 8 header_size] @ le4 len @ le4 (entry - header_at) @ [0, 0]) buf }"

definition add_socfpga_header :: "u8 list \<Rightarrow> nat \<Rightarrow> nat \<Rightarrow> nat \<Rightarrow> (int + u8 list) option" where
  "add_socfpga_header buf len start version =
     (if len AND 3 \<noteq> 0 then Some (Inl (- EINVAL))
      else if len < 4 then None
      else do {
        (buf, entry) \<leftarrow> place_entry version start buf;
        buf \<leftarrow> header_fields version len entry buf;
        let checksum = unat (header_sum version buf);
        buf \<leftarrow> pokes (checksum_at version) [byte 0 checksum, byte 8 checksum] buf;
        let crc = crc32 0xffffffff (peek 0 (len - 4) buf) XOR 0xffffffff;
        buf \<leftarrow> pokes (len - 4) (le4 (unat crc)) buf;
        Some (Inr buf) })"

section \<open>\<open>main\<close>\<close>

text \<open>The results of \<open>getopt\<close>, and what the options set.\<close>

datatype opt = Opt_v string | Opt_b | Opt_h | Opt_o string | Opt_unknown

record config =
  c_version :: nat
  c_barebox :: bool
  c_min :: nat
  c_addsize :: nat
  c_outfile :: "string option"

definition no_options :: config where
  "no_options = \<lparr>c_version = 0, c_barebox = False, c_min = 80, c_addsize = 0, c_outfile = None\<rparr>"

definition atoi :: "string \<Rightarrow> int" where
  "atoi s = signed_take_bit 31 (fst (strtoll s 10))"

fun parse_opts :: "opt list \<Rightarrow> config \<Rightarrow> int + config" where
  "parse_opts [] c = Inr c"
| "parse_opts (Opt_v s # os) c =
     (let version = nat (atoi s mod 2 ^ 32) in
      if version > 1 then Inl 1 else parse_opts os (c\<lparr>c_version := version\<rparr>))"
| "parse_opts (Opt_b # os) c = parse_opts os (c\<lparr>c_barebox := True, c_min := 0, c_addsize := 512\<rparr>)"
| "parse_opts (Opt_h # os) c = Inl 0"
| "parse_opts (Opt_o f # os) c = parse_opts os (c\<lparr>c_outfile := Some f\<rparr>)"
| "parse_opts (Opt_unknown # os) c = Inl 1"

definition bb_header :: "u32 list" where
  "bb_header =
     [0xea00007e, 0xeafffffe, 0xeafffffe, 0xeafffffe, 0xeafffffe, 0xeafffffe, 0xeafffffe, 0xeafffffe,
      0x65726162, 0x00786f62, 0, 0, 0, 0, 0, 0, 0, 0, 0, 0xea00006b]"

definition bb_bytes :: "u8 list" where
  "bb_bytes = concat (map (\<lambda>w. le4 (unat w)) bb_header)"

text \<open>
  The system calls of a run: the size \<open>stat\<close> reports, whether \<open>open\<close> and \<open>calloc\<close>
  succeed, what each \<open>read\<close> yields (no more of them: end of file), and what each
  \<open>write\<close> returns (no more of them: all that is asked for).
\<close>

record system =
  y_stat :: "nat option"
  y_open_in :: bool
  y_calloc :: bool
  y_reads :: "u8 list option list"
  y_open_out :: bool
  y_writes :: "int list"

fun read_full :: "u8 list option list \<Rightarrow> nat \<Rightarrow> nat \<Rightarrow> int \<Rightarrow> u8 list \<Rightarrow> (int \<times> u8 list) option" where
  "read_full rs off len got buf =
     (if len = 0 then Some (got, buf)
      else (case rs of
        [] \<Rightarrow> Some (got, buf)
      | None # rs \<Rightarrow> Some (- 1, buf)
      | Some c # rs \<Rightarrow>
          (let now = take len c in
           if now = [] then Some (got, buf)
           else do { buf \<leftarrow> pokes off now buf;
                     read_full rs (off + length now) (len - length now) (got + int (length now)) buf })))"

text \<open>The result of \<open>write_full\<close> and the bytes that reach the file.\<close>

fun write_full :: "int list \<Rightarrow> u8 list \<Rightarrow> nat \<Rightarrow> int \<times> u8 list" where
  "write_full ws bs insize =
     (if bs = [] then (int insize, [])
      else (case ws of
        [] \<Rightarrow> (int insize, bs)
      | now # ws \<Rightarrow>
          if now \<le> 0 then (now, [])
          else (case write_full ws (drop (nat now) bs) insize of
                  (ret, out) \<Rightarrow> (ret, take (nat now) bs @ out))))"

definition max_image_size :: "config \<Rightarrow> nat" where
  "max_image_size c = (if c_version c = 0 then 60 * 1024 - 4 else 224 * 1024 - 4) - c_addsize c"

definition pad_of :: "nat \<Rightarrow> nat" where
  "pad_of len = (let pad = len AND 3 in if pad \<noteq> 0 then 4 - pad else pad)"

definition total_size :: "config \<Rightarrow> nat \<Rightarrow> nat" where
  "total_size c len = len + 4 + c_addsize c + pad_of len"

text \<open>The exit status and the bytes of the output file, when it is opened.\<close>

definition write_image :: "system \<Rightarrow> u8 list \<Rightarrow> int \<times> u8 list option" where
  "write_image y buf =
     (if \<not> y_open_out y then (1, None)
      else (case write_full (y_writes y) buf (length buf) of
              (ret, out) \<Rightarrow> (if ret < 0 then 1 else 0, Some out)))"

definition build_image :: "config \<Rightarrow> system \<Rightarrow> nat \<Rightarrow> (int \<times> u8 list option) option" where
  "build_image c y len =
     do { (ret, buf) \<leftarrow> read_full (y_reads y) (c_addsize c) len 0 (replicate (total_size c len) 0);
          if ret < 0 then Some (1, None)
          else do {
            buf \<leftarrow> (if c_barebox c then pokes 0 bb_bytes buf else Some buf);
            r \<leftarrow> add_socfpga_header buf (total_size c len) (c_addsize c) (c_version c);
            (case r of
               Inl _ \<Rightarrow> Some (1, None)
             | Inr buf \<Rightarrow> Some (write_image y buf)) } }"

definition mkpimage :: "opt list \<Rightarrow> string list \<Rightarrow> system \<Rightarrow> (int \<times> u8 list option) option" where
  "mkpimage opts operands y =
     (case parse_opts opts no_options of
        Inl status \<Rightarrow> Some (status, None)
      | Inr c \<Rightarrow>
          if operands = [] \<or> c_outfile c = None then Some (1, None)
          else (case y_stat y of
            None \<Rightarrow> Some (1, None)
          | Some len \<Rightarrow>
              if len < c_min c then Some (1, None)
              else if len > max_image_size c then Some (1, None)
              else if \<not> y_open_in y then Some (1, None)
              else if \<not> y_calloc y then Some (1, None)
              else build_image c y len))"

section \<open>What a boot ROM checks\<close>

text \<open>
  The reference: the magic number, the length of the program, the sum of the
  header and the remainder of the polynomial division of everything in front of
  the last four bytes.
\<close>

definition length_field :: "nat \<Rightarrow> u8 list \<Rightarrow> bool" where
  "length_field version buf \<longleftrightarrow>
     (if version = 0 then 4 * le_val (peek 0x46 2 buf) = length buf
      else le_val (peek 0x46 2 buf) = 20 \<and> le_val (peek 0x48 4 buf) = length buf)"

definition header_valid :: "nat \<Rightarrow> u8 list \<Rightarrow> bool" where
  "header_valid version buf \<longleftrightarrow>
     le_val (peek 0x40 4 buf) = 0x31305341 \<and> peek 0x44 2 buf = [word_of_nat version, 0] \<and>
     length_field version buf \<and>
     (let at = checksum_at version in
      le_val (peek at 2 buf) = sum_list (map unat (peek 0x40 (at - 0x40) buf)) mod 65536) \<and>
     le_val (drop (length buf - 4) buf) =
       unat (poly_crc 0xffffffff (take (length buf - 4) buf) XOR 0xffffffff)"

text \<open>Where the program starts: the start vector, or the entry offset and a trampoline there.\<close>

definition starts_at :: "nat \<Rightarrow> nat \<Rightarrow> u8 list \<Rightarrow> bool" where
  "starts_at version start buf \<longleftrightarrow>
     (if version = 0 then branch_target 0x4c (peek 0x4c 4 buf) = Some (int start)
      else (let entry = 0x40 + le_val (peek 0x4c 4 buf) in
            entry = start \<or> branch_target entry (peek entry 4 buf) = Some (int start)))"

section \<open>Branches\<close>

lemma le_val_branch:
  "int (le_val [word_of_int (drop_bit 2 d), word_of_int (drop_bit 10 d), word_of_int (drop_bit 18 d)]) =
     take_bit 24 (d div 4)"
proof -
  define e where "e = d div 4"
  have "d div 1024 = e div 256" using zdiv_zmult2_eq [of 256 d 4] by (simp add: e_def)
  moreover have "d div 262144 = e div 256 div 256"
    using zdiv_zmult2_eq [of 65536 d 4] zdiv_zmult2_eq [of 256 e 256] by (simp add: e_def)
  ultimately have "int (le_val [word_of_int (drop_bit 2 d), word_of_int (drop_bit 10 d), word_of_int (drop_bit 18 d)]) =
      e mod 256 + 256 * (e div 256 mod 256 + 256 * (e div 256 div 256 mod 256))"
    by (simp add: uint_word_of_int drop_bit_eq_div e_def)
  also have "\<dots> = e mod 256 + 256 * (e div 256 mod 65536)"
    using zmod_zmult2_eq [of 256 "e div 256" 256] by simp
  also have "\<dots> = e mod 16777216"
    using zmod_zmult2_eq [of 65536 e 256] by simp
  finally show ?thesis by (simp add: take_bit_eq_mod e_def)
qed

text \<open>
  C10: for an instruction and a destination a multiple of four bytes apart and
  within the reach of the 24-bit field, the processor decodes the four bytes that
  \<open>branch\<close> stores as a jump to the destination.
\<close>

theorem branch_roundtrip:
  assumes "4 dvd int dest - int at"
    and "- (2 ^ 25) \<le> int dest - int at - 8" and "int dest - int at - 8 < 2 ^ 25"
  shows "branch_target at (arm_branch at dest) = Some (int dest)"
proof -
  define d where "d = int dest - int at - 8"
  have d: "4 dvd d" using dvd_diff [OF assms(1), of 8] unfolding d_def by simp
  have "signed_take_bit 23 (take_bit 24 (d div 4)) = signed_take_bit 23 (d div 4)"
    by (simp add: signed_take_bit_take_bit)
  also have "\<dots> = d div 4"
    using assms(2,3) by (intro signed_take_bit_int_eq_self) (simp_all add: d_def)
  finally have "signed_take_bit 23 (int (le_val [word_of_int (drop_bit 2 d), word_of_int (drop_bit 10 d), word_of_int (drop_bit 18 d)])) = d div 4"
    unfolding le_val_branch .
  then show ?thesis using d
    unfolding arm_branch_def Let_def d_def [symmetric] by (simp del: le_val.simps) (simp add: d_def)
qed

theorem branch_roundtrip_witness: "branch_target 84 (arm_branch 84 0) = Some 0"
  using branch_roundtrip [of 0 84] by simp

lemma length_arm_branch [simp]: "length (arm_branch at dest) = 4"
  by (simp add: arm_branch_def Let_def)

section \<open>The header verifies\<close>

lemma unat_header_sum_bound: "length bs * 255 + unat a < 2 ^ 32 \<Longrightarrow>
   unat (foldl (\<lambda>sum b. sum + ucast b) (a :: u32) bs) = unat a + sum_list (map unat (bs :: u8 list))"
proof (induction bs arbitrary: a)
  case (Cons b bs)
  have b: "unat b \<le> 255" using unat_less_exp [of b] by simp
  then have "unat a + unat b < 2 ^ LENGTH(32)" using Cons.prems by simp
  then have sum: "unat (a + ucast b) = unat a + unat b"
    by (simp add: unat_word_ariths(1) unsigned_ucast_eq take_bit_nat_eq_self unat_less_exp order.strict_trans [OF unat_less_exp])
  have "length bs * 255 + unat (a + ucast b) < 2 ^ 32"
    using Cons.prems b by (simp add: sum)
  from Cons.IH [OF this] show ?case by (simp add: sum)
qed simp

lemma and_3_mod: "(n :: nat) AND 3 = n mod 4"
  using take_bit_eq_mask [of 2 n] by (simp add: take_bit_eq_mod mask_eq_exp_minus_1)

lemmas header_consts = header_at_def header_size_def VALIDATION_WORD_def checksum_at_def

text \<open>The two bytes of the checksum field read back as the sum of the bytes before it.\<close>

lemma checksum_field:
  assumes "length bs < 2 ^ 16"
  shows "le_val [byte 0 (unat (foldl (\<lambda>sum b. sum + ucast b) (0 :: u32) bs)),
                 byte 8 (unat (foldl (\<lambda>sum b. sum + ucast b) (0 :: u32) bs))]
         = sum_list (map unat (bs :: u8 list)) mod 65536"
  using unat_header_sum_bound [of bs 0] assms by (simp add: le_val_2 del: le_val.simps)

text \<open>Writing the remainder behind what it covers.\<close>

lemma crc_field:
  assumes "4 \<le> length buf"
    and "out = overwrite (length buf - 4) (le4 (unat (crc32 0xffffffff (peek 0 (length buf - 4) buf) XOR 0xffffffff))) buf"
  shows "length out = length buf"
    and "le_val (drop (length out - 4) out) = unat (poly_crc 0xffffffff (take (length out - 4) out) XOR 0xffffffff)"
proof -
  have small: "unat w mod 2 ^ 32 = unat w" for w :: u32
    using unat_less_exp [of w] by simp
  from assms show "length out = length buf" by (simp add: length_overwrite)
  then show "le_val (drop (length out - 4) out) = unat (poly_crc 0xffffffff (take (length out - 4) out) XOR 0xffffffff)"
    using assms(1) by (simp add: assms(2) overwrite_def crc32_divides [symmetric] peek_def small del: power_numeral)
qed

lemma aligned_distance: "4 dvd m \<Longrightarrow> 4 dvd k \<Longrightarrow> 4 dvd int m - int k"
  by (intro dvd_diff) presburger+

lemma header_v0:
  assumes "length buf = n" "4 dvd n" "84 \<le> n" "n < 2 ^ 18" "4 dvd start" "start < 2 ^ 24"
  shows "\<exists>out. add_socfpga_header buf n start 0 = Some (Inr out) \<and> length out = n \<and>
           header_valid 0 out \<and> starts_at 0 start out \<and>
           (\<forall>i < n - 4. i < 64 \<or> 80 \<le> i \<longrightarrow> out ! i = buf ! i)"
proof -
  define b2 where "b2 = overwrite 64 (le4 0x31305341 @ [0, 0]) buf"
  define b3 where "b3 = overwrite 70 [byte 2 n, byte 10 n, 0, 0] b2"
  define b4 where "b4 = overwrite 76 (arm_branch 76 start) b3"
  define sum where "sum = unat (header_sum 0 b4)"
  define b5 where "b5 = overwrite 74 [byte 0 sum, byte 8 sum] b4"
  define out where "out = overwrite (n - 4) (le4 (unat (crc32 0xffffffff (peek 0 (n - 4) b5) XOR 0xffffffff))) b5"
  have len: "length b2 = n" "length b3 = n" "length b4 = n" "length b5 = n" "length out = n"
    using assms by (simp_all add: b2_def b3_def b4_def b5_def out_def length_overwrite)
  have align: "n AND 3 = 0" using assms(2) by (simp add: and_3_mod)
  have run: "add_socfpga_header buf n start 0 = Some (Inr out)"
    using assms len
    by (simp add: add_socfpga_header_def place_entry_def header_fields_def branch_def header_consts align
        pokes_overwrite del: pokes.simps flip: b2_def b3_def b4_def sum_def b5_def out_def)
  have p: "k + m \<le> n - 4 \<Longrightarrow> peek k m out = peek k m b5"
      "k + m \<le> 74 \<or> 76 \<le> k \<Longrightarrow> k + m \<le> n \<Longrightarrow> peek k m b5 = peek k m b4"
      "k + m \<le> 76 \<or> 80 \<le> k \<Longrightarrow> k + m \<le> n \<Longrightarrow> peek k m b4 = peek k m b3"
      "k + m \<le> 70 \<or> 74 \<le> k \<Longrightarrow> k + m \<le> n \<Longrightarrow> peek k m b3 = peek k m b2" for k m
    using assms len by (simp_all add: out_def b5_def b4_def b3_def peek_other)
  have w: "64 \<le> k \<Longrightarrow> k + m \<le> 70 \<Longrightarrow> peek k m b2 = take m (drop (k - 64) (le4 0x31305341 @ [0, 0]))"
      "peek 70 2 b3 = [byte 2 n, byte 10 n]" "peek 76 4 b4 = arm_branch 76 start"
      "peek 74 2 b5 = [byte 0 sum, byte 8 sum]" for k m
    using assms len by (simp_all add: b2_def b3_def b4_def b5_def peek_within)
  have words: "4 * le_val [byte 2 n, byte 10 n] = n"
    using assms le_val_2 [of "n div 4"] by (simp add: unat_byte flip: div_mult2_eq)
  have fields: "le_val (peek 64 4 out) = 0x31305341" "peek 68 2 out = [0, 0]"
      "4 * le_val (peek 70 2 out) = n" "peek 76 4 out = arm_branch 76 start"
    using assms words by (simp_all add: p w del: le_val.simps)
  have sum: "le_val (peek 74 2 out) = sum_list (map unat (peek 64 10 out)) mod 65536"
    using assms checksum_field [of "peek 64 10 b4"] len
    by (simp add: p w sum_def header_sum_def header_consts length_peek del: le_val.simps)
  have crc: "le_val (drop (n - 4) out) = unat (poly_crc 0xffffffff (take (n - 4) out) XOR 0xffffffff)"
    using crc_field(2) [of b5 out] assms len by (simp add: out_def)
  have valid: "header_valid 0 out"
    using fields sum crc len by (simp add: header_valid_def length_field_def header_consts)
  have start: "starts_at 0 start out"
    using assms fields branch_roundtrip [of start 76] aligned_distance [of start 76] by (simp add: starts_at_def)
  have rest: "\<forall>i < n - 4. i < 64 \<or> 80 \<le> i \<longrightarrow> out ! i = buf ! i"
    using assms len by (auto simp: out_def b5_def b4_def b3_def b2_def nth_overwrite length_overwrite)
  show ?thesis using run len valid start rest by blast
qed

lemma header_v1:
  assumes "length buf = n" "4 dvd n" "if start < 64 then 92 \<le> n else 88 \<le> n" "n < 2 ^ 31" "4 dvd start" "start < 2 ^ 24"
  shows "\<exists>out. add_socfpga_header buf n start 1 = Some (Inr out) \<and> length out = n \<and>
           header_valid 1 out \<and> starts_at 1 start out \<and>
           (\<forall>i < n - 4. i < 64 \<or> (if start < 64 then 88 else 84) \<le> i \<longrightarrow> out ! i = buf ! i)"
proof -
  define entry where "entry = (if start < 64 then 84 else start)"
  define b1 where "b1 = (if start < 64 then overwrite 84 (arm_branch 84 start) buf else buf)"
  define b2 where "b2 = overwrite 64 (le4 0x31305341 @ [1, 0]) b1"
  define fs where "fs = [byte 0 20, byte 8 20] @ le4 n @ le4 (entry - 64) @ [0, 0]"
  define b3 where "b3 = overwrite 70 fs b2"
  define sum where "sum = unat (header_sum 1 b3)"
  define b5 where "b5 = overwrite 82 [byte 0 sum, byte 8 sum] b3"
  define out where "out = overwrite (n - 4) (le4 (unat (crc32 0xffffffff (peek 0 (n - 4) b5) XOR 0xffffffff))) b5"
  have fs: "length fs = 12" by (simp add: fs_def)
  have n: "88 \<le> n" using assms(3) by (simp split: if_splits)
  have len: "length b1 = n" "length b2 = n" "length b3 = n" "length b5 = n" "length out = n"
    using assms n fs by (simp_all add: b1_def b2_def b3_def b5_def out_def length_overwrite)
  have align: "n AND 3 = 0" using assms(2) by (simp add: and_3_mod)
  have place: "place_entry 1 start buf = Some (b1, entry)"
    using assms(1,3) by (auto simp: place_entry_def branch_def header_consts pokes_overwrite b1_def entry_def)
  have fields: "header_fields 1 n entry b1 = Some b3"
    using n len fs
    by (simp add: header_fields_def header_consts pokes_overwrite del: pokes.simps append.simps
        flip: b2_def fs_def b3_def One_nat_def)
  have run: "add_socfpga_header buf n start 1 = Some (Inr out)"
    using assms n len
    by (simp add: add_socfpga_header_def place fields align header_consts
        pokes_overwrite del: pokes.simps One_nat_def flip: sum_def b5_def out_def)
  have p: "k + m \<le> n - 4 \<Longrightarrow> peek k m out = peek k m b5"
      "k + m \<le> 82 \<or> 84 \<le> k \<Longrightarrow> k + m \<le> n \<Longrightarrow> peek k m b5 = peek k m b3"
      "k + m \<le> 70 \<or> 82 \<le> k \<Longrightarrow> k + m \<le> n \<Longrightarrow> peek k m b3 = peek k m b2"
      "k + m \<le> 64 \<or> 70 \<le> k \<Longrightarrow> k + m \<le> n \<Longrightarrow> peek k m b2 = peek k m b1" for k m
    using n len fs by (simp_all add: out_def b5_def b3_def b2_def peek_other)
  have w: "64 \<le> k \<Longrightarrow> k + m \<le> 70 \<Longrightarrow> peek k m b2 = take m (drop (k - 64) (le4 0x31305341 @ [1, 0]))"
      "70 \<le> k \<Longrightarrow> k + m \<le> 82 \<Longrightarrow> peek k m b3 = take m (drop (k - 70) fs)"
      "peek 82 2 b5 = [byte 0 sum, byte 8 sum]" for k m
    using n len fs by (simp_all add: b2_def b3_def b5_def peek_within)
  have fields: "le_val (peek 64 4 out) = 0x31305341" "peek 68 2 out = [1, 0]"
      "le_val (peek 70 2 out) = 20" "le_val (peek 72 4 out) = n" "64 + le_val (peek 76 4 out) = entry"
    using assms n by (simp_all add: p w fs_def le_val_2 entry_def del: le_val.simps)
  have sum: "le_val (peek 82 2 out) = sum_list (map unat (peek 64 18 out)) mod 65536"
    using n checksum_field [of "peek 64 18 b3"] len
    by (simp add: p w sum_def header_sum_def header_consts length_peek del: le_val.simps One_nat_def)
  have crc: "le_val (drop (n - 4) out) = unat (poly_crc 0xffffffff (take (n - 4) out) XOR 0xffffffff)"
    using crc_field(2) [of b5 out] n len by (simp add: out_def)
  have valid: "header_valid 1 out"
    using fields sum crc len by (simp add: header_valid_def length_field_def header_consts)
  have start: "starts_at 1 start out"
  proof (cases "start < 64")
    case True
    then have "peek 84 4 out = arm_branch 84 start" using assms(1,3) by (simp add: p b1_def peek_same)
    then show ?thesis using True fields branch_roundtrip [of start 84] aligned_distance [OF assms(5), of 84]
      by (simp add: starts_at_def entry_def)
  qed (use fields in \<open>simp add: starts_at_def entry_def\<close>)
  have rest: "\<forall>i < n - 4. i < 64 \<or> (if start < 64 then 88 else 84) \<le> i \<longrightarrow> out ! i = buf ! i"
    using assms n len fs by (auto simp: out_def b5_def b3_def b2_def b1_def nth_overwrite length_overwrite)
  show ?thesis using run len valid start rest by blast
qed

lemma header_in_bounds:
  assumes "length buf = n" "4 dvd n" "88 \<le> n"
  shows "add_socfpga_header buf n start version \<noteq> None"
proof -
  have align: "n AND 3 = 0" using assms(2) by (simp add: and_3_mod)
  obtain b1 entry where b1: "place_entry version start buf = Some (b1, entry)" "length b1 = n"
    using assms
    by (cases "version \<noteq> 0 \<and> start < 64")
       (auto simp: place_entry_def branch_def header_consts pokes_overwrite length_overwrite)
  obtain b2 where b2: "header_fields version n entry b1 = Some b2" "length b2 = n"
    using assms(3) b1
    by (cases "version = 0")
       (simp_all add: header_fields_def branch_def header_consts pokes_overwrite length_overwrite del: pokes.simps)
  define ck where "ck = unat (header_sum version b2)"
  obtain b3 where b3: "pokes (checksum_at version) [byte 0 ck, byte 8 ck] b2 = Some b3" "length b3 = n"
    using assms(3) b2 by (simp add: header_consts pokes_overwrite length_overwrite del: pokes.simps)
  show ?thesis
    using assms(3) b3(2)
    by (simp add: add_socfpga_header_def align b1 b2(1) b3(1) pokes_overwrite del: pokes.simps flip: ck_def)
qed

section \<open>The whole run\<close>

lemma parse_opts_config:
  assumes "parse_opts os c = Inr c'"
    and "c_version c \<le> 1" "c_addsize c = (if c_barebox c then 512 else 0)" "c_min c = (if c_barebox c then 0 else 80)"
  shows "c_version c' \<le> 1 \<and> c_addsize c' = (if c_barebox c' then 512 else 0) \<and> c_min c' = (if c_barebox c' then 0 else 80)"
  using assms by (induction os c rule: parse_opts.induct) (auto simp: Let_def split: if_splits)

lemmas options_config = parse_opts_config [of _ no_options, simplified no_options_def config.simps, folded no_options_def, simplified]

lemma total_aligned: "c_addsize c = (if c_barebox c then 512 else 0) \<Longrightarrow> 4 dvd total_size c n"
proof -
  assume add: "c_addsize c = (if c_barebox c then 512 else 0)"
  have "4 dvd n + pad_of n" by (simp add: pad_of_def and_3_mod Let_def) presburger
  then have "4 dvd (n + pad_of n) + (4 + c_addsize c)" by (rule dvd_add) (simp add: add)
  then show ?thesis by (simp add: total_size_def algebra_simps)
qed

lemma pad_less: "pad_of n < 4"
  by (simp add: pad_of_def and_3_mod Let_def)

declare read_full.simps [simp del] write_full.simps [simp del]

lemma read_full_in_bounds:
  "off + n \<le> length buf \<Longrightarrow> \<exists>ret buf'. read_full rs off n got buf = Some (ret, buf') \<and> length buf' = length buf"
proof (induction rs off n got buf rule: read_full.induct)
  case (1 rs off n got buf)
  show ?case
  proof (cases rs)
    case (Cons r rs')
    show ?thesis
    proof (cases r)
      case (Some ch)
      define now where "now = take n ch"
      have now: "length now \<le> n" by (simp add: now_def)
      then have "pokes off now buf = Some (overwrite off now buf)" and len: "length (overwrite off now buf) = length buf"
        using "1.prems" by (simp_all add: pokes_overwrite length_overwrite)
      then show ?thesis
        using "1.IH" [OF _ Cons Some now_def, of "overwrite off now buf"] "1.prems" now len
        by (subst read_full.simps) (simp add: Cons Some flip: now_def)
    qed (subst read_full.simps, simp add: Cons)
  qed (subst read_full.simps, simp)
qed

lemma read_full_all:
  "None \<notin> set rs \<Longrightarrow> Some [] \<notin> set rs \<Longrightarrow> off + length (concat (map the rs)) \<le> length buf \<Longrightarrow>
     read_full rs off (length (concat (map the rs))) got buf =
       Some (got + int (length (concat (map the rs))), overwrite off (concat (map the rs)) buf)"
proof (induction rs arbitrary: off got buf)
  case Nil
  then show ?case by (subst read_full.simps) (simp add: overwrite_def)
next
  case (Cons r rs)
  then obtain ch where r: "r = Some ch" "ch \<noteq> []" by (cases r) auto
  define img where "img = concat (map the rs)"
  have "overwrite (off + length ch) img (overwrite off ch buf) = overwrite off (ch @ img) buf"
    using Cons.prems(3) r by (intro nth_equalityI) (auto simp: img_def length_overwrite nth_overwrite nth_append)
  then show ?case
    using Cons.IH [of "off + length ch" "overwrite off ch buf" "got + int (length ch)"] Cons.prems r
    by (subst read_full.simps) (simp add: pokes_overwrite length_overwrite flip: img_def)
qed

lemma write_full_all: "\<forall>w \<in> set ws. 0 < w \<Longrightarrow> write_full ws bs n = (int n, bs)"
  by (induction ws bs n rule: write_full.induct) (subst write_full.simps, auto split: list.splits prod.splits)

lemma length_bb_bytes [simp]: "length bb_bytes = 80"
  by (simp add: bb_bytes_def bb_header_def)

text \<open>A run in which every call succeeds, over a file with the contents \<open>img\<close>.\<close>

definition good_run :: "config \<Rightarrow> string list \<Rightarrow> u8 list \<Rightarrow> system \<Rightarrow> bool" where
  "good_run c operands img y \<longleftrightarrow>
     operands \<noteq> [] \<and> c_outfile c \<noteq> None \<and> y_stat y = Some (length img) \<and>
     y_open_in y \<and> y_calloc y \<and> y_open_out y \<and>
     None \<notin> set (y_reads y) \<and> Some [] \<notin> set (y_reads y) \<and> concat (map the (y_reads y)) = img \<and>
     list_all (\<lambda>w. 0 < w) (y_writes y)"

text \<open>The bytes of the image that header and trampoline take.\<close>

definition header_span :: "config \<Rightarrow> nat set" where
  "header_span c =
     {64 ..< (if c_version c = 0 then 80 else if c_addsize c = 0 then 88 else 84)}"

lemma good_run_buffer:
  assumes "good_run c operands img y" and "c_addsize c = (if c_barebox c then 512 else 0)"
  defines "n \<equiv> total_size c (length img)"
  obtains buf where "length buf = n"
    "take (length img) (drop (c_addsize c) buf) = img"
    "build_image c y (length img) =
       Option.bind (add_socfpga_header buf n (c_addsize c) (c_version c))
         (\<lambda>r. case r of Inl _ \<Rightarrow> Some (1, None) | Inr buf \<Rightarrow> Some (0, Some buf))"
proof -
  define b1 where "b1 = overwrite (c_addsize c) img (replicate n 0)"
  define buf where "buf = (if c_barebox c then overwrite 0 bb_bytes b1 else b1)"
  have room: "c_addsize c + length img \<le> n" and barebox: "c_barebox c \<Longrightarrow> 512 \<le> n"
    using assms(2) by (simp_all add: n_def total_size_def)
  have len: "length b1 = n" "length buf = n"
    using room barebox by (auto simp: b1_def buf_def length_overwrite)
  have read: "read_full (y_reads y) (c_addsize c) (length img) 0 (replicate n 0) = Some (int (length img), b1)"
    using assms(1) room read_full_all [of "y_reads y" "c_addsize c" "replicate n 0" 0]
    by (simp add: good_run_def b1_def)
  have bb: "(if c_barebox c then pokes 0 bb_bytes b1 else Some b1) = Some buf"
    using barebox len by (auto simp: buf_def pokes_overwrite)
  have keep: "take (length img) (drop (c_addsize c) buf) = img"
  proof -
    have b1: "peek (c_addsize c) (length img) b1 = img" using room by (simp add: b1_def peek_same)
    have "peek (c_addsize c) (length img) buf = peek (c_addsize c) (length img) b1"
      using room len barebox assms(2) by (cases "c_barebox c") (simp_all add: buf_def peek_other)
    then show ?thesis using b1 by (simp add: peek_def)
  qed
  have written: "write_image y out = (0, Some out)" for out
    using assms(1) write_full_all [of "y_writes y" out] by (simp add: write_image_def good_run_def list_all_iff)
  have "build_image c y (length img) =
       Option.bind (add_socfpga_header buf n (c_addsize c) (c_version c))
         (\<lambda>r. case r of Inl _ \<Rightarrow> Some (1, None) | Inr buf \<Rightarrow> Some (0, Some buf))"
    using read bb by (simp add: build_image_def written flip: n_def)
  with len(2) keep that show thesis by blast
qed


text \<open>A version 0 image made from a file of 80 zero bytes, read in two pieces.\<close>

definition sample_system :: "nat \<Rightarrow> system" where
  "sample_system n =
     \<lparr>y_stat = Some n, y_open_in = True, y_calloc = True,
      y_reads = [Some (replicate 30 0), Some (replicate (n - 30) 0)], y_open_out = True, y_writes = [50]\<rparr>"


text \<open>
  C12: no store of a run is outside the buffer, whatever the options, the file and
  the results of the calls, except for a version 1 image without a barebox header
  that is made from a file of exactly the minimum size, 80 bytes.
\<close>

theorem mkpimage_in_bounds:
  assumes "parse_opts opts no_options = Inr c"
    and "c_version c = 0 \<or> c_barebox c \<or> y_stat y \<noteq> Some 80"
  shows "mkpimage opts operands y \<noteq> None"
proof (cases "y_stat y")
  case (Some len)
  have cfg: "c_version c \<le> 1" "c_addsize c = (if c_barebox c then 512 else 0)"
      "c_min c = (if c_barebox c then 0 else 80)"
    using options_config [OF assms(1)] by simp_all
  define n where "n = total_size c len"
  have n: "n = len + 4 + c_addsize c + pad_of len" by (simp add: n_def total_size_def)
  have al: "4 dvd n" using total_aligned [OF cfg(2)] by (simp add: n_def)
  have "build_image c y len \<noteq> None" if min: "c_min c \<le> len" and max: "len \<le> max_image_size c"
  proof -
    obtain ret b where read: "read_full (y_reads y) (c_addsize c) len 0 (replicate n 0) = Some (ret, b)" "length b = n"
      using read_full_in_bounds [of "c_addsize c" len "replicate n 0" "y_reads y" 0] n by (auto simp del: replicate_add)
    obtain b' where bb: "(if c_barebox c then pokes 0 bb_bytes b else Some b) = Some b'" "length b' = n"
      using read(2) n cfg(2) by (cases "c_barebox c") (simp_all add: pokes_overwrite length_overwrite)
    have "add_socfpga_header b' n (c_addsize c) (c_version c) \<noteq> None"
    proof (cases "88 \<le> n")
      case True
      then show ?thesis using header_in_bounds [OF bb(2) al] by simp
    next
      case False
      then have no_bb: "\<not> c_barebox c" "80 \<le> len" "n < 88" using n cfg min by (auto split: if_splits)
      then have "n \<le> 84" using al by presburger
      then have "len = 80" using no_bb n by linarith
      then have "c_version c = 0" "84 \<le> n" "n < 2 ^ 18" using assms(2) no_bb Some n by simp_all
      then show ?thesis using header_v0 [OF bb(2) al, of 0] cfg(2) no_bb by auto
    qed
    then show ?thesis
      using read bb by (auto simp: build_image_def split: sum.splits simp flip: n_def)
  qed
  then show ?thesis using assms(1) Some by (auto simp: mkpimage_def)
qed (use assms(1) in \<open>simp add: mkpimage_def\<close>)

theorem mkpimage_in_bounds_witness: "mkpimage [Opt_v ''1'', Opt_o ''out''] [''in''] (sample_system 81) \<noteq> None"
proof (rule mkpimage_in_bounds)
  show "parse_opts [Opt_v ''1'', Opt_o ''out''] no_options = Inr (no_options\<lparr>c_version := 1, c_outfile := Some ''out''\<rparr>)"
    by code_simp
qed (simp add: sample_system_def)

text \<open>
  The minimum of 80 bytes is too small for version 1: whenever a file of that
  size is read, the trampoline is stored behind the end of the buffer.
\<close>

theorem minimum_too_small:
  assumes "parse_opts opts no_options = Inr c" and "c_version c = 1" "\<not> c_barebox c"
    and "good_run c operands img y" and "length img = 80"
  shows "mkpimage opts operands y = None"
proof -
  have cfg: "c_addsize c = 0" "c_min c = 80" using options_config [OF assms(1)] assms(3) by simp_all
  obtain buf where buf: "length buf = 84" and build: "build_image c y (length img) =
       Option.bind (add_socfpga_header buf 84 0 1) (\<lambda>r. case r of Inl _ \<Rightarrow> Some (1, None) | Inr buf \<Rightarrow> Some (0, Some buf))"
    using good_run_buffer [OF assms(4)] assms(2,3,5) cfg
    by (auto simp: total_size_def pad_of_def)
  have "add_socfpga_header buf 84 0 1 = None"
    using buf by (simp add: add_socfpga_header_def place_entry_def branch_def header_consts and_3_mod
        pokes_outside arm_branch_def Let_def del: pokes.simps)
  with build show ?thesis using assms cfg by (auto simp: mkpimage_def good_run_def max_image_size_def)
qed

theorem minimum_too_small_witness: "mkpimage [Opt_v ''1'', Opt_o ''out''] [''in''] (sample_system 80) = None"
proof (rule minimum_too_small)
  show "parse_opts [Opt_v ''1'', Opt_o ''out''] no_options = Inr (no_options\<lparr>c_version := 1, c_outfile := Some ''out''\<rparr>)"
    by code_simp
  show "good_run (no_options\<lparr>c_version := 1, c_outfile := Some ''out''\<rparr>) [''in''] (replicate 80 0) (sample_system 80)"
    by (simp add: good_run_def sample_system_def no_options_def flip: replicate_add)
qed (simp_all add: no_options_def)

end
