(* ===== verification/Md5.thy ===== *)
theory Md5
  imports Prelude
begin

unbundle bit_operations_syntax

text \<open>
  \<open>mcookie.c\<close>: the MD5 code (\<open>MD5Init\<close>, \<open>MD5Update\<close>, \<open>MD5Final\<close>,
  \<open>MD5Transform\<close>) on a host whose \<open>uint32\<close> has 32 bits and whose bytes are in
  little-endian order, the program's collection of entropy, and the message digest
  of RFC 1321 as the reference.
\<close>

section \<open>\<open>MD5Transform\<close>\<close>

type_synonym quad = "u32 \<times> u32 \<times> u32 \<times> u32"

definition F1 :: "u32 \<Rightarrow> u32 \<Rightarrow> u32 \<Rightarrow> u32" where "F1 x y z = z XOR (x AND (y XOR z))"

definition F2 :: "u32 \<Rightarrow> u32 \<Rightarrow> u32 \<Rightarrow> u32" where "F2 x y z = F1 z x y"

definition F3 :: "u32 \<Rightarrow> u32 \<Rightarrow> u32 \<Rightarrow> u32" where "F3 x y z = x XOR y XOR z"

definition F4 :: "u32 \<Rightarrow> u32 \<Rightarrow> u32 \<Rightarrow> u32" where "F4 x y z = y XOR (x OR NOT z)"

definition MD5STEP :: "(u32 \<Rightarrow> u32 \<Rightarrow> u32 \<Rightarrow> u32) \<Rightarrow> u32 \<Rightarrow> u32 \<Rightarrow> u32 \<Rightarrow> u32 \<Rightarrow> u32 \<Rightarrow> nat \<Rightarrow> u32" where
  "MD5STEP f w x y z data s =
     (let w = w + (f x y z + data);
          w = push_bit s w OR drop_bit (32 - s) w
      in w + x)"

text \<open>
  The steps of \<open>MD5Transform\<close> in its order: the function, the register that is
  changed, the index of the input word, the constant and the rotation. The other
  three registers are taken in the cyclic order \<open>a b c d\<close>.
\<close>

datatype reg = Ra | Rb | Rc | Rd

type_synonym md5_row = "(u32 \<Rightarrow> u32 \<Rightarrow> u32 \<Rightarrow> u32) \<times> reg \<times> nat \<times> u32 \<times> nat"

definition md5_steps :: "md5_row list" where
  "md5_steps = [
   (F1, Ra, 0, 0xd76aa478, 7), (F1, Rd, 1, 0xe8c7b756, 12),
   (F1, Rc, 2, 0x242070db, 17), (F1, Rb, 3, 0xc1bdceee, 22),
   (F1, Ra, 4, 0xf57c0faf, 7), (F1, Rd, 5, 0x4787c62a, 12),
   (F1, Rc, 6, 0xa8304613, 17), (F1, Rb, 7, 0xfd469501, 22),
   (F1, Ra, 8, 0x698098d8, 7), (F1, Rd, 9, 0x8b44f7af, 12),
   (F1, Rc, 10, 0xffff5bb1, 17), (F1, Rb, 11, 0x895cd7be, 22),
   (F1, Ra, 12, 0x6b901122, 7), (F1, Rd, 13, 0xfd987193, 12),
   (F1, Rc, 14, 0xa679438e, 17), (F1, Rb, 15, 0x49b40821, 22),
   (F2, Ra, 1, 0xf61e2562, 5), (F2, Rd, 6, 0xc040b340, 9),
   (F2, Rc, 11, 0x265e5a51, 14), (F2, Rb, 0, 0xe9b6c7aa, 20),
   (F2, Ra, 5, 0xd62f105d, 5), (F2, Rd, 10, 0x02441453, 9),
   (F2, Rc, 15, 0xd8a1e681, 14), (F2, Rb, 4, 0xe7d3fbc8, 20),
   (F2, Ra, 9, 0x21e1cde6, 5), (F2, Rd, 14, 0xc33707d6, 9),
   (F2, Rc, 3, 0xf4d50d87, 14), (F2, Rb, 8, 0x455a14ed, 20),
   (F2, Ra, 13, 0xa9e3e905, 5), (F2, Rd, 2, 0xfcefa3f8, 9),
   (F2, Rc, 7, 0x676f02d9, 14), (F2, Rb, 12, 0x8d2a4c8a, 20),
   (F3, Ra, 5, 0xfffa3942, 4), (F3, Rd, 8, 0x8771f681, 11),
   (F3, Rc, 11, 0x6d9d6122, 16), (F3, Rb, 14, 0xfde5380c, 23),
   (F3, Ra, 1, 0xa4beea44, 4), (F3, Rd, 4, 0x4bdecfa9, 11),
   (F3, Rc, 7, 0xf6bb4b60, 16), (F3, Rb, 10, 0xbebfbc70, 23),
   (F3, Ra, 13, 0x289b7ec6, 4), (F3, Rd, 0, 0xeaa127fa, 11),
   (F3, Rc, 3, 0xd4ef3085, 16), (F3, Rb, 6, 0x04881d05, 23),
   (F3, Ra, 9, 0xd9d4d039, 4), (F3, Rd, 12, 0xe6db99e5, 11),
   (F3, Rc, 15, 0x1fa27cf8, 16), (F3, Rb, 2, 0xc4ac5665, 23),
   (F4, Ra, 0, 0xf4292244, 6), (F4, Rd, 7, 0x432aff97, 10),
   (F4, Rc, 14, 0xab9423a7, 15), (F4, Rb, 5, 0xfc93a039, 21),
   (F4, Ra, 12, 0x655b59c3, 6), (F4, Rd, 3, 0x8f0ccc92, 10),
   (F4, Rc, 10, 0xffeff47d, 15), (F4, Rb, 1, 0x85845dd1, 21),
   (F4, Ra, 8, 0x6fa87e4f, 6), (F4, Rd, 15, 0xfe2ce6e0, 10),
   (F4, Rc, 6, 0xa3014314, 15), (F4, Rb, 13, 0x4e0811a1, 21),
   (F4, Ra, 4, 0xf7537e82, 6), (F4, Rd, 11, 0xbd3af235, 10),
   (F4, Rc, 2, 0x2ad7d2bb, 15), (F4, Rb, 9, 0xeb86d391, 21)]"

fun md5_step :: "u32 list \<Rightarrow> md5_row \<Rightarrow> quad \<Rightarrow> quad" where
  "md5_step inw (f, Ra, k, K, s) (a, b, c, d) = (MD5STEP f a b c d (inw ! k + K) s, b, c, d)"
| "md5_step inw (f, Rd, k, K, s) (a, b, c, d) = (a, b, c, MD5STEP f d a b c (inw ! k + K) s)"
| "md5_step inw (f, Rc, k, K, s) (a, b, c, d) = (a, b, MD5STEP f c d a b (inw ! k + K) s, d)"
| "md5_step inw (f, Rb, k, K, s) (a, b, c, d) = (a, MD5STEP f b c d a (inw ! k + K) s, c, d)"

fun add_quad :: "quad \<Rightarrow> quad \<Rightarrow> quad" where
  "add_quad (a, b, c, d) (a', b', c', d') = (a + a', b + b', c + c', d + d')"

definition MD5Transform :: "quad \<Rightarrow> u32 list \<Rightarrow> quad" where
  "MD5Transform buf inw = add_quad buf (fold (md5_step inw) md5_steps buf)"

section \<open>The context\<close>

record MD5Context =
  m_buf :: quad
  m_bits0 :: u32
  m_bits1 :: u32
  m_in :: "u8 list"

text \<open>\<open>(uint32 *) ctx->in\<close>.\<close>

definition words_of :: "u8 list \<Rightarrow> u32 list" where
  "words_of bs = map (\<lambda>i. word_of_nat (le_val (peek (4 * i) 4 bs))) [0..<16]"

text \<open>\<open>MD5Init\<close> leaves the bytes of \<open>in\<close> as they are.\<close>

definition md5_iv :: quad where
  "md5_iv = (0x67452301, 0xefcdab89, 0x98badcfe, 0x10325476)"

definition MD5Init :: "MD5Context \<Rightarrow> MD5Context" where
  "MD5Init ctx = ctx\<lparr>m_buf := md5_iv, m_bits0 := 0, m_bits1 := 0\<rparr>"

definition count_bits :: "u32 \<Rightarrow> MD5Context \<Rightarrow> MD5Context" where
  "count_bits len ctx =
     (let t = m_bits0 ctx;
          b0 = t + push_bit 3 len;
          b1 = (if b0 < t then m_bits1 ctx + 1 else m_bits1 ctx)
      in ctx\<lparr>m_bits0 := b0, m_bits1 := b1 + drop_bit 29 len\<rparr>)"

text \<open>The loop over blocks of 64 bytes, and the copy of the rest.\<close>

function md5_blocks :: "MD5Context \<Rightarrow> u8 list \<Rightarrow> MD5Context" where
  "md5_blocks ctx buf =
     (if 64 \<le> length buf then
        md5_blocks (ctx\<lparr>m_in := take 64 buf, m_buf := MD5Transform (m_buf ctx) (words_of (take 64 buf))\<rparr>)
          (drop 64 buf)
      else ctx\<lparr>m_in := overwrite 0 buf (m_in ctx)\<rparr>)"
  by auto
termination md5_blocks by (relation "measure (\<lambda>(ctx, buf). length buf)") auto

declare md5_blocks.simps [simp del]

definition MD5Update :: "MD5Context \<Rightarrow> u8 list \<Rightarrow> MD5Context" where
  "MD5Update ctx buf =
     (let t = unat (drop_bit 3 (m_bits0 ctx) AND 0x3f);
          ctx = count_bits (word_of_nat (length buf)) ctx
      in if t \<noteq> 0 then
           (if length buf < 64 - t then ctx\<lparr>m_in := overwrite t buf (m_in ctx)\<rparr>
            else
              (let block = overwrite t (take (64 - t) buf) (m_in ctx) in
               md5_blocks (ctx\<lparr>m_in := block, m_buf := MD5Transform (m_buf ctx) (words_of block)\<rparr>)
                 (drop (64 - t) buf)))
         else md5_blocks ctx buf)"

fun quad_bytes :: "quad \<Rightarrow> u8 list" where
  "quad_bytes (a, b, c, d) = le4 (unat a) @ le4 (unat b) @ le4 (unat c) @ le4 (unat d)"

text \<open>\<open>MD5Final\<close>; the context is cleared afterwards and not used again.\<close>

definition MD5Final :: "MD5Context \<Rightarrow> u8 list" where
  "MD5Final ctx =
     (let count = unat (drop_bit 3 (m_bits0 ctx) AND 0x3f);
          block = overwrite count [0x80] (m_in ctx);
          p = count + 1;
          count = 64 - 1 - count;
          (st, block) =
            (if count < 8 then
               (let block = overwrite p (replicate count 0) block in
                (MD5Transform (m_buf ctx) (words_of block), overwrite 0 (replicate 56 0) block))
             else (m_buf ctx, overwrite p (replicate (count - 8) 0) block));
          block = overwrite 56 (le4 (unat (m_bits0 ctx))) block;
          block = overwrite 60 (le4 (unat (m_bits1 ctx))) block
      in quad_bytes (MD5Transform st (words_of block)))"

section \<open>The message digest of RFC 1321\<close>

text \<open>
  Four rounds of sixteen operations. Operation \<open>i\<close> takes the registers as
  \<open>(a, b, c, d)\<close> and leaves them rotated; the functions, the order of the
  message words and the shifts follow the rules of the standard.
\<close>

definition rfc_fun :: "nat \<Rightarrow> u32 \<Rightarrow> u32 \<Rightarrow> u32 \<Rightarrow> u32" where
  "rfc_fun i x y z =
     (if i < 16 then (x AND y) OR (NOT x AND z)
      else if i < 32 then (x AND z) OR (y AND NOT z)
      else if i < 48 then x XOR y XOR z
      else y XOR (x OR NOT z))"

definition rfc_index :: "nat \<Rightarrow> nat" where
  "rfc_index i =
     (if i < 16 then i else if i < 32 then (5 * i + 1) mod 16
      else if i < 48 then (3 * i + 5) mod 16 else 7 * i mod 16)"

definition rfc_shift :: "nat \<Rightarrow> nat" where
  "rfc_shift i = [[7, 12, 17, 22], [5, 9, 14, 20], [4, 11, 16, 23], [6, 10, 15, 21]] ! (i div 16) ! (i mod 4)"

definition rfc_T :: "u32 list" where
  "rfc_T = [
   0xd76aa478, 0xe8c7b756, 0x242070db, 0xc1bdceee, 0xf57c0faf, 0x4787c62a,
   0xa8304613, 0xfd469501, 0x698098d8, 0x8b44f7af, 0xffff5bb1, 0x895cd7be,
   0x6b901122, 0xfd987193, 0xa679438e, 0x49b40821, 0xf61e2562, 0xc040b340,
   0x265e5a51, 0xe9b6c7aa, 0xd62f105d, 0x02441453, 0xd8a1e681, 0xe7d3fbc8,
   0x21e1cde6, 0xc33707d6, 0xf4d50d87, 0x455a14ed, 0xa9e3e905, 0xfcefa3f8,
   0x676f02d9, 0x8d2a4c8a, 0xfffa3942, 0x8771f681, 0x6d9d6122, 0xfde5380c,
   0xa4beea44, 0x4bdecfa9, 0xf6bb4b60, 0xbebfbc70, 0x289b7ec6, 0xeaa127fa,
   0xd4ef3085, 0x04881d05, 0xd9d4d039, 0xe6db99e5, 0x1fa27cf8, 0xc4ac5665,
   0xf4292244, 0x432aff97, 0xab9423a7, 0xfc93a039, 0x655b59c3, 0x8f0ccc92,
   0xffeff47d, 0x85845dd1, 0x6fa87e4f, 0xfe2ce6e0, 0xa3014314, 0x4e0811a1,
   0xf7537e82, 0xbd3af235, 0x2ad7d2bb, 0xeb86d391]"

fun rfc_op :: "u32 list \<Rightarrow> nat \<Rightarrow> quad \<Rightarrow> quad" where
  "rfc_op X i (a, b, c, d) =
     (d, b + word_rotl (rfc_shift i) (a + rfc_fun i b c d + X ! rfc_index i + rfc_T ! i), b, c)"

definition rfc_block :: "quad \<Rightarrow> u8 list \<Rightarrow> quad" where
  "rfc_block st bs = add_quad st (fold (rfc_op (words_of bs)) [0..<64] st)"

function rfc_fold :: "quad \<Rightarrow> u8 list \<Rightarrow> quad" where
  "rfc_fold st m = (if 64 \<le> length m then rfc_fold (rfc_block st (take 64 m)) (drop 64 m) else st)"
  by auto
termination rfc_fold by (relation "measure (\<lambda>(st, m). length m)") auto

declare rfc_fold.simps [simp del]

text \<open>A one bit, zeros up to 56 bytes modulo 64, and the number of bits modulo \<open>2 ^ 64\<close>.\<close>

definition rfc_padding :: "nat \<Rightarrow> u8 list" where
  "rfc_padding n =
     0x80 # replicate ((119 - n mod 64) mod 64) 0 @
     le4 (8 * n mod 2 ^ 32) @ le4 (8 * n div 2 ^ 32 mod 2 ^ 32)"

definition rfc_md5 :: "u8 list \<Rightarrow> u8 list" where
  "rfc_md5 m = quad_bytes (rfc_fold md5_iv (m @ rfc_padding (length m)))"

section \<open>\<open>MD5Transform\<close> is the block function of the standard\<close>

lemma rotl_shifts:
  assumes "0 < s" "s < 32"
  shows "push_bit s w OR drop_bit (32 - s) w = word_rotl s (w :: u32)"
proof (rule bit_word_eqI)
  fix n assume n: "n < LENGTH(32)"
  show "bit (push_bit s w OR drop_bit (32 - s) w) n = bit (word_rotl s w) n"
  proof (cases "s \<le> n")
    case True
    then have "(n + (32 - s mod 32)) mod 32 = n - s" using assms n by (simp add: mod_if)
    moreover have "\<not> bit w (32 - s + n)" using True assms n by (auto dest: bit_imp_le_length)
    ultimately show ?thesis
      using True assms n unfolding bit_or_iff bit_push_bit_iff bit_drop_bit_eq bit_word_rotl_iff by simp
  next
    case False
    then have "(n + (32 - s mod 32)) mod 32 = 32 - s + n" using assms n by simp
    then show ?thesis
      using False assms n unfolding bit_or_iff bit_push_bit_iff bit_drop_bit_eq bit_word_rotl_iff by simp
  qed
qed

lemma F_funs:
  "F1 x y z = (x AND y) OR (NOT x AND z)" "F2 x y z = (x AND z) OR (y AND NOT z)"
  "F3 x y z = x XOR y XOR z" "F4 x y z = y XOR (x OR NOT z)"
  by (rule bit_word_eqI, auto simp: F1_def F2_def F3_def F4_def bit_simps)+

definition rfc_row :: "nat \<Rightarrow> md5_row" where
  "rfc_row i = (rfc_fun i, [Ra, Rd, Rc, Rb] ! (i mod 4), rfc_index i, rfc_T ! i, rfc_shift i)"

lemma rfc_funs:
  "i < 16 \<Longrightarrow> rfc_fun i = F1" "16 \<le> i \<Longrightarrow> i < 32 \<Longrightarrow> rfc_fun i = F2"
  "32 \<le> i \<Longrightarrow> i < 48 \<Longrightarrow> rfc_fun i = F3" "48 \<le> i \<Longrightarrow> rfc_fun i = F4"
  by (intro ext, simp add: rfc_fun_def F_funs)+

lemma md5_steps_rfc: "md5_steps = map rfc_row [0..<64]"
  by (simp add: upt_conv_Cons md5_steps_def rfc_row_def rfc_funs rfc_index_def rfc_shift_def rfc_T_def)

lemma step_op:
  "0 < s \<Longrightarrow> s < 32 \<Longrightarrow> MD5STEP f a b c d (x + t) s = b + word_rotl s (a + f b c d + x + t)"
  by (simp add: MD5STEP_def rotl_shifts add.assoc add.commute [of b])

lemma rfc_shift_range: "i < 64 \<Longrightarrow> 0 < rfc_shift i \<and> rfc_shift i < 32"
proof -
  assume "i < 64"
  moreover have "list_all (\<lambda>i. 0 < rfc_shift i \<and> rfc_shift i < 32) [0..<64]" by code_simp
  ultimately show ?thesis by (simp add: list_all_iff)
qed

text \<open>Four steps change the four registers in place, four operations rotate them once around.\<close>

lemma four_steps:
  "k < 16 \<Longrightarrow> fold (md5_step (words_of bs)) (map rfc_row [4 * k..<4 * k + 4]) q =
               fold (rfc_op (words_of bs)) [4 * k..<4 * k + 4] q"
proof -
  assume k: "k < 16"
  have four: "[4 * k..<4 * k + 4] = [4 * k, 4 * k + 1, 4 * k + 2, 4 * k + 3]"
    by (simp add: upt_conv_Cons)
  have mods: "4 * k mod 4 = 0" "(4 * k + 1) mod 4 = 1" "(4 * k + 2) mod 4 = 2" "(4 * k + 3) mod 4 = 3"
    by presburger+
  obtain a b c d where q: "q = (a, b, c, d)" by (cases q)
  show ?thesis
    using k rfc_shift_range [of "4 * k"] rfc_shift_range [of "4 * k + 1"] rfc_shift_range [of "4 * k + 2"]
      rfc_shift_range [of "4 * k + 3"]
    by (simp add: four q rfc_row_def step_op mods [simplified])
qed

lemma fold_four:
  "n \<le> 16 \<Longrightarrow> fold (md5_step (words_of bs)) (map rfc_row [0..<4 * n]) q =
               fold (rfc_op (words_of bs)) [0..<4 * n] q"
proof (induction n)
  case (Suc n)
  have "[0..<4 * Suc n] = [0..<4 * n] @ [4 * n..<4 * n + 4]"
    using upt_add_eq_append [of 0 "4 * n" 4] by (simp add: add.commute)
  then show ?case using Suc by (simp only: map_append fold_append o_apply) (simp add: four_steps)
qed simp

lemma MD5Transform_rfc: "MD5Transform st (words_of bs) = rfc_block st bs"
  using fold_four [of 16 bs st] by (simp add: MD5Transform_def rfc_block_def md5_steps_rfc)

section \<open>Streaming\<close>

lemma rfc_fold_append: "64 dvd length x \<Longrightarrow> rfc_fold st (x @ y) = rfc_fold (rfc_fold st x) y"
proof (induction st x rule: rfc_fold.induct)
  case (1 st m)
  show ?case
  proof (cases "64 \<le> length m")
    case True
    have "64 dvd length (drop 64 m)" using 1(2) True by (simp add: dvd_minus_self)
    from 1(1) [OF True this] have "rfc_fold (rfc_block st (take 64 m)) (drop 64 m @ y)
        = rfc_fold (rfc_fold (rfc_block st (take 64 m)) (drop 64 m)) y" .
    then show ?thesis
      using True rfc_fold.simps [of st m] rfc_fold.simps [of st "m @ y"] by simp
  next
    case False
    then have "m = []" using 1(2) by (auto dest: dvd_imp_le)
    then show ?thesis by (simp add: rfc_fold.simps [of st "[]"])
  qed
qed

lemma rfc_fold_short: "length m < 64 \<Longrightarrow> rfc_fold st m = st"
  by (subst rfc_fold.simps) simp

lemma rfc_fold_block: "length m = 64 \<Longrightarrow> rfc_fold st m = rfc_block st m"
  by (subst rfc_fold.simps) (simp add: rfc_fold_short)

section \<open>A context stands for a message\<close>

text \<open>
  The abstraction: the state after the full blocks of the message, the bytes of
  the unfinished block, and the number of bits modulo \<open>2 ^ 64\<close>.
\<close>

definition whole :: "u8 list \<Rightarrow> nat" where
  "whole m = 64 * (length m div 64)"

definition md5_stands :: "MD5Context \<Rightarrow> u8 list \<Rightarrow> bool" where
  "md5_stands ctx m \<longleftrightarrow>
     m_buf ctx = rfc_fold md5_iv m \<and>
     length (m_in ctx) = 64 \<and> take (length m mod 64) (m_in ctx) = drop (whole m) m \<and>
     unat (m_bits0 ctx) = 8 * length m mod 2 ^ 32 \<and>
     unat (m_bits1 ctx) = 8 * length m div 2 ^ 32 mod 2 ^ 32"

lemma rfc_fold_whole: "rfc_fold st m = rfc_fold st (take (whole m) m)"
proof -
  have "length (take (whole m) m) = whole m"
    by (simp add: whole_def min_absorb2)
  then have "64 dvd length (take (whole m) m)" by (simp add: whole_def)
  then have "rfc_fold st m = rfc_fold (rfc_fold st (take (whole m) m)) (drop (whole m) m)"
    using rfc_fold_append [of "take (whole m) m" st "drop (whole m) m"] by simp
  also have "\<dots> = rfc_fold st (take (whole m) m)"
    by (rule rfc_fold_short) (simp add: whole_def minus_mult_div_eq_mod)
  finally show ?thesis .
qed

lemma md5_init_stands: "length (m_in ctx) = 64 \<Longrightarrow> md5_stands (MD5Init ctx) []"
  by (simp add: md5_stands_def MD5Init_def rfc_fold_short whole_def)

text \<open>The bytes already in the block.\<close>

lemma partial_count:
  assumes "md5_stands ctx m"
  shows "unat (drop_bit 3 (m_bits0 ctx) AND 0x3f) = length m mod 64"
proof -
  have "(0x3f :: u32) = mask 6" by (simp add: mask_eq_exp_minus_1)
  then have "unat (drop_bit 3 (m_bits0 ctx) AND 0x3f) = unat (m_bits0 ctx) div 2 ^ 3 mod 2 ^ 6"
    by (simp only: unat_take_bit unat_drop_bit flip: take_bit_eq_mask)
  also have "\<dots> = 8 * length m mod 2 ^ 32 div 8 mod 64"
    using assms by (simp add: md5_stands_def)
  also have "\<dots> = length m mod 64"
    by (simp add: mod_mult_mult1 [of 8 _ "2 ^ 29", simplified] mod_mod_cancel)
  finally show ?thesis .
qed

lemma len32: "LENGTH(32) = 32"
  by simp

lemma count_bits_add:
  assumes n: "unat (m_bits0 ctx) = 8 * n mod 2 ^ 32" "unat (m_bits1 ctx) = 8 * n div 2 ^ 32 mod 2 ^ 32"
    and k: "k < 2 ^ 32"
  shows "unat (m_bits0 (count_bits (word_of_nat k) ctx)) = 8 * (n + k) mod 2 ^ 32"
    and "unat (m_bits1 (count_bits (word_of_nat k) ctx)) = 8 * (n + k) div 2 ^ 32 mod 2 ^ 32"
proof -
  define lo where "lo = m_bits0 ctx + push_bit 3 (word_of_nat k)"
  have low: "unat (push_bit 3 (word_of_nat k) :: u32) = 8 * k mod 2 ^ 32"
    by (simp add: push_bit_eq_mult unat_word_ariths(2) unat_of_nat take_bit_eq_mod mult.commute mod_mult_right_eq mod_mult_left_eq)
  have lo: "unat lo = (8 * n mod 2 ^ 32 + 8 * k mod 2 ^ 32) mod 2 ^ 32"
    by (simp only: lo_def unat_word_ariths(1) n low) simp
  then show bits0: "unat (m_bits0 (count_bits (word_of_nat k) ctx)) = 8 * (n + k) mod 2 ^ 32"
    by (simp add: count_bits_def Let_def mod_add_eq distrib_left flip: lo_def)
  have carry: "lo < m_bits0 ctx \<longleftrightarrow> 2 ^ 32 \<le> 8 * n mod 2 ^ 32 + 8 * k mod 2 ^ 32"
  proof -
    have "8 * n mod 2 ^ 32 < (2 :: nat) ^ 32" "8 * k mod 2 ^ 32 < (2 :: nat) ^ 32" by simp_all
    then show ?thesis unfolding word_less_nat_alt lo n(1)
      by (cases "2 ^ 32 \<le> 8 * n mod 2 ^ 32 + 8 * k mod 2 ^ 32") (auto simp: le_mod_geq)
  qed
  have high: "unat (drop_bit 29 (word_of_nat k) :: u32) = 8 * k div 2 ^ 32"
    using k by (simp only: unat_drop_bit unat_of_nat take_bit_nat_eq_self) (simp add: take_bit_nat_eq_self)
  have sum: "8 * (n + k) div 2 ^ 32 = 8 * n div 2 ^ 32 + 8 * k div 2 ^ 32 + of_bool (lo < m_bits0 ctx)"
    using div_add1_eq [of "8 * n" "8 * k" "2 ^ 32"] carry
    by (cases "lo < m_bits0 ctx") (simp_all add: distrib_left div_if [of "8 * n mod 4294967296 + 8 * k mod 4294967296"])
  show "unat (m_bits1 (count_bits (word_of_nat k) ctx)) = 8 * (n + k) div 2 ^ 32 mod 2 ^ 32"
  proof -
    have "m_bits1 (count_bits (word_of_nat k) ctx) = m_bits1 ctx + of_bool (lo < m_bits0 ctx) + drop_bit 29 (word_of_nat k)"
      unfolding count_bits_def Let_def lo_def [symmetric] by simp
    moreover have "unat (of_bool P :: u32) = of_bool P" for P by simp
    moreover have "((x mod M + c) mod M + y) mod M = (x + y + c) mod M" for x y c M :: nat
      by (simp add: mod_simps ac_simps)
    ultimately show ?thesis
      by (simp only: unat_word_ariths(1) n high sum len32)
  qed
qed

lemma md5_blocks_ok:
  "length (m_in ctx) = 64 \<Longrightarrow>
     m_buf (md5_blocks ctx buf) = rfc_fold (m_buf ctx) buf \<and> length (m_in (md5_blocks ctx buf)) = 64 \<and>
     take (length buf mod 64) (m_in (md5_blocks ctx buf)) = drop (whole buf) buf \<and>
     m_bits0 (md5_blocks ctx buf) = m_bits0 ctx \<and> m_bits1 (md5_blocks ctx buf) = m_bits1 ctx"
proof (induction ctx buf rule: md5_blocks.induct)
  case (1 ctx buf)
  show ?case
  proof (cases "64 \<le> length buf")
    case True
    have "whole buf = 64 + whole (drop 64 buf)" using True by (simp add: whole_def le_div_geq)
    then have rest: "drop (whole buf) buf = drop (whole (drop 64 buf)) (drop 64 buf)"
      by (simp add: add.commute)
    show ?thesis
      using "1.IH" [OF True] True rest
      by (simp add: md5_blocks.simps [of ctx buf] rfc_fold.simps [of _ buf] MD5Transform_rfc le_mod_geq)
  next
    case False
    then have "whole buf = 0" by (simp add: whole_def)
    then show ?thesis
      using False "1.prems"
      by (simp add: md5_blocks.simps [of ctx buf] rfc_fold_short length_overwrite) (simp add: overwrite_def)
  qed
qed

lemma aligned_whole: "64 dvd length m \<Longrightarrow> whole (m @ buf) = length m + whole buf"
  by (auto simp: whole_def elim!: dvdE)

text \<open>The loop on a context that holds full blocks only.\<close>

lemma blocks_stand:
  assumes "64 dvd length m" "m_buf ctx = rfc_fold md5_iv m" "length (m_in ctx) = 64"
    and "unat (m_bits0 ctx) = 8 * length (m @ buf) mod 2 ^ 32"
    and "unat (m_bits1 ctx) = 8 * length (m @ buf) div 2 ^ 32 mod 2 ^ 32"
  shows "md5_stands (md5_blocks ctx buf) (m @ buf)"
proof -
  have "length (m @ buf) mod 64 = length buf mod 64" using assms(1) by (auto elim!: dvdE)
  moreover have "drop (whole (m @ buf)) (m @ buf) = drop (whole buf) buf"
    by (simp add: aligned_whole [OF assms(1)])
  ultimately show ?thesis
    using md5_blocks_ok [OF assms(3), of buf] assms(2,4,5) rfc_fold_append [OF assms(1), of md5_iv buf]
    unfolding md5_stands_def by simp
qed

lemma md5_update_stands:
  assumes stands: "md5_stands ctx m" and len: "length buf < 2 ^ 32"
  shows "md5_stands (MD5Update ctx buf) (m @ buf)"
proof -
  define t where "t = length m mod 64"
  define ctx' where "ctx' = count_bits (word_of_nat (length buf)) ctx"
  have same: "m_buf ctx' = m_buf ctx" "m_in ctx' = m_in ctx"
    by (simp_all add: ctx'_def count_bits_def Let_def)
  have bits: "unat (m_bits0 ctx') = 8 * length (m @ buf) mod 2 ^ 32"
      "unat (m_bits1 ctx') = 8 * length (m @ buf) div 2 ^ 32 mod 2 ^ 32"
    using count_bits_add [of ctx "length m" "length buf"] stands len
    unfolding md5_stands_def ctx'_def by simp_all
  have s: "m_buf ctx = rfc_fold md5_iv m" "length (m_in ctx) = 64" "take t (m_in ctx) = drop (whole m) m"
    using stands by (simp_all add: md5_stands_def t_def)
  have t: "t < 64" "length m = whole m + t" by (simp_all add: t_def whole_def)
  have upd: "MD5Update ctx buf =
      (if t \<noteq> 0 then
         (if length buf < 64 - t then ctx'\<lparr>m_in := overwrite t buf (m_in ctx')\<rparr>
          else md5_blocks (ctx'\<lparr>m_in := overwrite t (take (64 - t) buf) (m_in ctx'),
                 m_buf := MD5Transform (m_buf ctx') (words_of (overwrite t (take (64 - t) buf) (m_in ctx')))\<rparr>)
                 (drop (64 - t) buf))
       else md5_blocks ctx' buf)"
    by (simp only: MD5Update_def partial_count [OF stands] Let_def t_def ctx'_def)
  consider "t = 0" | "t \<noteq> 0" "length buf < 64 - t" | "t \<noteq> 0" "64 - t \<le> length buf" by linarith
  then show ?thesis
  proof cases
    case 1
    then have "64 dvd length m" by (simp add: t_def dvd_eq_mod_eq_0)
    then show ?thesis using 1 blocks_stand [of m ctx' buf] s bits by (simp add: upd same)
  next
    case 2
    have w: "whole (m @ buf) = whole m" using 2 t by (simp add: whole_def)
    have "length (m @ buf) = (t + length buf) + 64 * (length m div 64)" using t by (simp add: whole_def)
    then have r: "length (m @ buf) mod 64 = t + length buf" using 2 by (simp only: mod_mult_self2 mod_less)
    have "rfc_fold md5_iv (m @ buf) = rfc_fold md5_iv m"
      using rfc_fold_whole [of md5_iv "m @ buf"] rfc_fold_whole [of md5_iv m] w t by simp
    moreover have "take (t + length buf) (overwrite t buf (m_in ctx)) = drop (whole m) (m @ buf)"
      using s 2 t by (simp add: overwrite_def)
    ultimately show ?thesis
      using 2 s t w r bits by (simp add: upd same md5_stands_def length_overwrite)
  next
    case 3
    define x where "x = take (64 - t) buf"
    have x: "length x = 64 - t" using 3 by (simp add: x_def)
    define block where "block = overwrite t x (m_in ctx)"
    have block: "block = drop (whole m) m @ x" using s x t by (simp add: block_def overwrite_def)
    have "length (m @ x) = 64 * (length m div 64 + 1)" using t x by (simp add: whole_def)
    then have al: "64 dvd length (m @ x)" "64 dvd length (take (whole m) m)"
      by (metis dvd_triv_left, simp add: whole_def min_absorb2)
    have "m @ x = take (whole m) m @ block" by (simp add: block)
    moreover have "length block = 64" using t x by (simp add: block)
    ultimately have "rfc_fold md5_iv (m @ x) = rfc_block (rfc_fold md5_iv m) block"
      using rfc_fold_append [OF al(2)] rfc_fold_whole [of md5_iv m] by (simp add: rfc_fold_block)
    then have "md5_stands (md5_blocks (ctx'\<lparr>m_in := block, m_buf := MD5Transform (m_buf ctx') (words_of block)\<rparr>)
        (drop (64 - t) buf)) ((m @ x) @ drop (64 - t) buf)"
      using al(1) bits s x t 3 \<open>length block = 64\<close>
      by (intro blocks_stand) (simp_all add: same MD5Transform_rfc)
    then show ?thesis using 3 by (simp add: upd same x_def block_def)
  qed
qed

lemma put_length_fields:
  "length bs = 64 \<Longrightarrow> overwrite 60 (le4 y) (overwrite 56 (le4 x) bs) = take 56 bs @ le4 x @ le4 y"
  by (simp add: overwrite_def)

lemma md5_final_stands:
  assumes stands: "md5_stands ctx m"
  shows "MD5Final ctx = rfc_md5 m"
proof -
  define t where "t = length m mod 64"
  define p where "p = drop (whole m) m"
  define tail where "tail = le4 (8 * length m mod 2 ^ 32) @ le4 (8 * length m div 2 ^ 32 mod 2 ^ 32)"
  define st where "st = rfc_fold md5_iv m"
  have s: "m_buf ctx = st" "length (m_in ctx) = 64" "take t (m_in ctx) = p"
      "unat (m_bits0 ctx) = 8 * length m mod 2 ^ 32" "unat (m_bits1 ctx) = 8 * length m div 2 ^ 32 mod 2 ^ 32"
    using stands by (simp_all add: md5_stands_def t_def st_def p_def)
  have t: "t < 64" "length p = t" by (simp_all add: t_def p_def whole_def minus_mult_div_eq_mod)
  have start: "overwrite t [0x80] (m_in ctx) = p @ 0x80 # drop (Suc t) (m_in ctx)"
    using s t by (simp add: overwrite_def)
  have "rfc_fold md5_iv (take (whole m) m @ p @ rfc_padding (length m))
      = rfc_fold (rfc_fold md5_iv (take (whole m) m)) (p @ rfc_padding (length m))"
    by (rule rfc_fold_append) (simp add: whole_def min_absorb2)
  then have all: "rfc_fold md5_iv (m @ rfc_padding (length m)) = rfc_fold st (p @ rfc_padding (length m))"
    using rfc_fold_whole [of md5_iv m] append_take_drop_id [of "whole m" m]
    by (simp add: st_def p_def flip: append_assoc)
  have fin: "MD5Final ctx =
      (let (st', block) =
         (if 63 - t < 8 then
            (let block = overwrite (t + 1) (replicate (63 - t) 0) (overwrite t [0x80] (m_in ctx)) in
             (MD5Transform st (words_of block), overwrite 0 (replicate 56 0) block))
          else (st, overwrite (t + 1) (replicate (63 - t - 8) 0) (overwrite t [0x80] (m_in ctx))));
         block = overwrite 60 (le4 (unat (m_bits1 ctx))) (overwrite 56 (le4 (unat (m_bits0 ctx))) block)
       in quad_bytes (MD5Transform st' (words_of block)))"
    unfolding MD5Final_def partial_count [OF stands] t_def [symmetric] s(1) Let_def
    by (simp split: prod.splits)
  show ?thesis
  proof (cases "63 - t < 8")
    case True
    define b1 where "b1 = p @ 0x80 # replicate (63 - t) 0"
    define b2 where "b2 = replicate 56 0 @ tail"
    have len: "length b1 = 64" "length b2 = 64" using t by (simp_all add: b1_def b2_def tail_def)
    have "overwrite (t + 1) (replicate (63 - t) 0) (overwrite t [0x80] (m_in ctx)) = b1"
      unfolding start using s t by (simp add: overwrite_def b1_def)
    moreover have "overwrite 60 (le4 (unat (m_bits1 ctx))) (overwrite 56 (le4 (unat (m_bits0 ctx))) (overwrite 0 (replicate 56 0) b1)) = b2"
      using len s by (simp add: put_length_fields length_overwrite) (simp add: overwrite_def b2_def tail_def)
    moreover have "p @ rfc_padding (length m) = b1 @ b2"
    proof -
      have "(119 - t) mod 64 = (63 - t) + 56" using True t by simp
      then have "replicate ((119 - t) mod 64) 0 = replicate (63 - t) (0 :: u8) @ replicate 56 0"
        by (simp only: replicate_add)
      then show ?thesis by (simp add: rfc_padding_def b1_def b2_def tail_def flip: t_def)
    qed
    ultimately show ?thesis
      using True len
      by (simp add: fin rfc_md5_def all rfc_fold_append rfc_fold_block MD5Transform_rfc)
  next
    case False
    define b where "b = p @ 0x80 # replicate (55 - t) 0 @ tail"
    have len: "length b = 64" using t False by (simp add: b_def tail_def)
    define c where "c = overwrite (t + 1) (replicate (63 - t - 8) 0) (overwrite t [0x80] (m_in ctx))"
    have "length c = 64" using s t by (simp add: c_def length_overwrite)
    moreover have "take 56 c = p @ 0x80 # replicate (55 - t) 0"
    proof -
      have "56 - t = Suc (55 - t)" using False by simp
      then show ?thesis unfolding c_def start using s t False by (simp add: overwrite_def)
    qed
    ultimately have "overwrite 60 (le4 (unat (m_bits1 ctx))) (overwrite 56 (le4 (unat (m_bits0 ctx))) c) = b"
      using s by (simp add: put_length_fields b_def tail_def)
    moreover have "p @ rfc_padding (length m) = b"
    proof -
      have "(119 - t) mod 64 = 55 - t" using False t by (simp add: mod_if)
      then show ?thesis by (simp add: rfc_padding_def b_def tail_def flip: t_def)
    qed
    moreover have "MD5Final ctx = quad_bytes (MD5Transform st (words_of
        (overwrite 60 (le4 (unat (m_bits1 ctx))) (overwrite 56 (le4 (unat (m_bits0 ctx))) c))))"
      unfolding fin c_def using False by (simp only: if_False Let_def prod.case)
    ultimately show ?thesis
      using len by (simp add: rfc_md5_def all rfc_fold_block MD5Transform_rfc)
  qed
qed

section \<open>The program\<close>

text \<open>What one file yields: the results of its reads, none when it cannot be opened.\<close>

type_synonym file_reads = "u8 list option list"

text \<open>\<open>hash_file\<close>: up to the first read that fails or yields nothing, then a null byte.\<close>

definition BUFFERSIZE :: nat where "BUFFERSIZE = 4096"

fun hash_reads :: "MD5Context \<Rightarrow> file_reads \<Rightarrow> MD5Context" where
  "hash_reads ctx [] = ctx"
| "hash_reads ctx (None # rs) = ctx"
| "hash_reads ctx (Some bs # rs) =
     (if bs = [] then ctx else hash_reads (MD5Update ctx (take BUFFERSIZE bs)) rs)"

definition hash_file :: "MD5Context \<Rightarrow> file_reads \<Rightarrow> MD5Context" where
  "hash_file ctx rs = MD5Update (hash_reads ctx rs) [0]"

text \<open>The sources of entropy, with the least number of bytes that suffices and the most that are read.\<close>

definition rngs :: "(string \<times> nat \<times> nat) list" where
  "rngs =
     [(''/dev/random'', 16, 16), (''/proc/interrupts'', 0, 0), (''/proc/slabinfo'', 0, 0),
      (''/proc/stat'', 0, 0), (''/dev/urandom'', 32, 64)]"

text \<open>\<open>sources path\<close>: \<open>None\<close> when it cannot be opened, else the bytes a read yields.\<close>

fun hash_rngs :: "(string \<Rightarrow> u8 list option) \<Rightarrow> MD5Context \<Rightarrow> (string \<times> nat \<times> nat) list \<Rightarrow> MD5Context" where
  "hash_rngs sources ctx [] = ctx"
| "hash_rngs sources ctx ((path, minlength, maxlength) # rest) =
     (case sources path of
        None \<Rightarrow> hash_rngs sources ctx rest
      | Some bs \<Rightarrow>
          (let count = (if maxlength \<noteq> 0 \<and> BUFFERSIZE > maxlength then maxlength else BUFFERSIZE);
               got = take count bs;
               ctx = (if got \<noteq> [] then MD5Update ctx got else ctx)
           in if minlength \<noteq> 0 \<and> length got \<ge> minlength then ctx
              else hash_rngs sources ctx rest))"

text \<open>\<open>printf ("%02x", digest[i])\<close>.\<close>

definition hex2 :: "u8 \<Rightarrow> string" where
  "hex2 b = [digit_char (unat b div 16), digit_char (unat b mod 16)]"

text \<open>
  \<open>main\<close>: the bytes of the time and of the two process numbers, the file of the
  option \<open>-f\<close> (\<open>Some None\<close>: it cannot be opened), and the sources.
\<close>

definition mcookie :: "MD5Context \<Rightarrow> u8 list \<Rightarrow> u8 list \<Rightarrow> u8 list \<Rightarrow> file_reads option option \<Rightarrow>
    (string \<Rightarrow> u8 list option) \<Rightarrow> string" where
  "mcookie ctx tv ppid pid file sources =
     (let ctx = MD5Init ctx;
          ctx = MD5Update ctx tv;
          ctx = MD5Update ctx ppid;
          ctx = MD5Update ctx pid;
          ctx = (case file of Some (Some rs) \<Rightarrow> hash_file ctx rs | _ \<Rightarrow> ctx);
          ctx = hash_rngs sources ctx rngs
      in concat (map hex2 (MD5Final ctx)) @ [CHR 0x0a])"

text \<open>The reference: the bytes that are hashed.\<close>

fun read_bytes :: "file_reads \<Rightarrow> u8 list" where
  "read_bytes (Some bs # rs) = (if bs = [] then [] else take BUFFERSIZE bs @ read_bytes rs)"
| "read_bytes _ = []"

fun entropy :: "(string \<Rightarrow> u8 list option) \<Rightarrow> (string \<times> nat \<times> nat) list \<Rightarrow> u8 list" where
  "entropy sources [] = []"
| "entropy sources ((path, minlength, maxlength) # rest) =
     (let got = take (if maxlength \<noteq> 0 then min maxlength BUFFERSIZE else BUFFERSIZE) (case sources path of None \<Rightarrow> [] | Some bs \<Rightarrow> bs)
      in got @ (if minlength \<noteq> 0 \<and> minlength \<le> length got then [] else entropy sources rest))"

definition cookie_message :: "u8 list \<Rightarrow> u8 list \<Rightarrow> u8 list \<Rightarrow> file_reads option option \<Rightarrow>
    (string \<Rightarrow> u8 list option) \<Rightarrow> u8 list" where
  "cookie_message tv ppid pid file sources =
     tv @ ppid @ pid @ (case file of Some (Some rs) \<Rightarrow> read_bytes rs @ [0] | _ \<Rightarrow> []) @ entropy sources rngs"

lemma hash_reads_stands: "md5_stands ctx m \<Longrightarrow> md5_stands (hash_reads ctx rs) (m @ read_bytes rs)"
proof (induction ctx rs arbitrary: m rule: hash_reads.induct)
  case (3 ctx bs rs)
  have "md5_stands (MD5Update ctx (take BUFFERSIZE bs)) (m @ take BUFFERSIZE bs)"
    using 3(2) by (rule md5_update_stands) (simp add: BUFFERSIZE_def min_def)
  then show ?case using 3 by (cases "bs = []") (simp_all flip: append_assoc)
qed simp_all

lemma hash_rngs_stands: "md5_stands ctx m \<Longrightarrow> md5_stands (hash_rngs sources ctx rs) (m @ entropy sources rs)"
proof (induction sources ctx rs arbitrary: m rule: hash_rngs.induct)
  case (2 sources ctx path minlength maxlength rest)
  show ?case
  proof (cases "sources path")
    case None
    then show ?thesis using 2 by (auto simp: Let_def)
  next
    case (Some bs)
    define count where "count = (if maxlength \<noteq> 0 \<and> BUFFERSIZE > maxlength then maxlength else BUFFERSIZE)"
    define got where "got = take count bs"
    define ctx' where "ctx' = (if got \<noteq> [] then MD5Update ctx got else ctx)"
    have "length got < 2 ^ 32"
      by (simp add: got_def count_def BUFFERSIZE_def min_def)
    then have stands: "md5_stands ctx' (m @ got)"
      using 2(3) by (simp add: ctx'_def md5_update_stands)
    have take: "take (if maxlength \<noteq> 0 then min maxlength BUFFERSIZE else BUFFERSIZE) bs = got"
      by (simp add: got_def count_def min_def)
    have code: "hash_rngs sources ctx ((path, minlength, maxlength) # rest) =
        (if minlength \<noteq> 0 \<and> length got \<ge> minlength then ctx' else hash_rngs sources ctx' rest)"
      by (simp only: hash_rngs.simps Some option.case Let_def flip: count_def got_def ctx'_def)
    have message: "entropy sources ((path, minlength, maxlength) # rest) =
        got @ (if minlength \<noteq> 0 \<and> minlength \<le> length got then [] else entropy sources rest)"
      by (simp only: entropy.simps Some option.case Let_def take)
    show ?thesis
      using 2(2) [OF Some count_def got_def ctx'_def _ stands] stands
      unfolding code message by simp
  qed
qed simp

text \<open>
  C13: on a host with 32-bit words in little-endian order the digest that
  \<open>MD5Final\<close> gives, after any number of \<open>MD5Update\<close>s of any sizes, is the message
  digest of RFC 1321 of the concatenation.
\<close>

theorem md5_streams:
  assumes "length (m_in ctx) = 64" and "\<forall>bs \<in> set chunks. length bs < 2 ^ 32"
  shows "MD5Final (foldl MD5Update (MD5Init ctx) chunks) = rfc_md5 (concat chunks)"
proof -
  have "md5_stands ctx' m \<Longrightarrow> md5_stands (foldl MD5Update ctx' chunks) (m @ concat chunks)" for ctx' m
    using assms(2)
  proof (induction chunks arbitrary: ctx' m)
    case (Cons bs chunks)
    then show ?case using md5_update_stands [of ctx' m bs] by (simp flip: append_assoc)
  qed simp
  from this [OF md5_init_stands [OF assms(1)]] show ?thesis by (simp add: md5_final_stands)
qed

theorem md5_streams_witness:
  "MD5Final (MD5Update (MD5Update (MD5Init \<lparr>m_buf = (0, 0, 0, 0), m_bits0 = 7, m_bits1 = 7, m_in = replicate 64 0xff\<rparr>)
     [1, 2, 3]) [4, 5]) = rfc_md5 [1, 2, 3, 4, 5]"
  using md5_streams [of "\<lparr>m_buf = (0, 0, 0, 0), m_bits0 = 7, m_bits1 = 7, m_in = replicate 64 0xff\<rparr>" "[[1, 2, 3], [4, 5]]"]
  by simp

lemma length_rfc_md5: "length (rfc_md5 m) = 16"
  unfolding rfc_md5_def by (cases "rfc_fold md5_iv (m @ rfc_padding (length m))") simp

text \<open>
  The cookie is the message digest of the time, the process numbers, the
  file with a null byte, and the sources up to the first that yields enough, in
  this order: 32 hexadecimal digits and a newline.
\<close>

theorem mcookie_digest:
  assumes "length (m_in ctx) = 64" and "length tv < 2 ^ 32" "length ppid < 2 ^ 32" "length pid < 2 ^ 32"
  shows "mcookie ctx tv ppid pid file sources =
           concat (map hex2 (rfc_md5 (cookie_message tv ppid pid file sources))) @ [CHR 0x0a] \<and>
         length (mcookie ctx tv ppid pid file sources) = 33"
proof -
  define c1 where "c1 = MD5Update (MD5Update (MD5Update (MD5Init ctx) tv) ppid) pid"
  have c1: "md5_stands c1 (tv @ ppid @ pid)"
    using md5_update_stands [OF md5_update_stands [OF md5_update_stands [OF md5_init_stands]]] assms
    by (simp add: c1_def)
  define c2 where "c2 = (case file of Some (Some rs) \<Rightarrow> hash_file c1 rs | _ \<Rightarrow> c1)"
  have c2: "md5_stands c2 (tv @ ppid @ pid @ (case file of Some (Some rs) \<Rightarrow> read_bytes rs @ [0] | _ \<Rightarrow> []))"
    using c1 md5_update_stands [OF hash_reads_stands [OF c1], of "[0]"]
    by (simp add: c2_def hash_file_def split: option.split)
  have "MD5Final (hash_rngs sources c2 rngs) = rfc_md5 (cookie_message tv ppid pid file sources)"
    using md5_final_stands [OF hash_rngs_stands [OF c2]] by (simp add: cookie_message_def)
  then have line: "mcookie ctx tv ppid pid file sources =
      concat (map hex2 (rfc_md5 (cookie_message tv ppid pid file sources))) @ [CHR 0x0a]"
    unfolding mcookie_def Let_def c1_def [symmetric] c2_def [symmetric] by simp
  moreover have "length (concat (map hex2 bs)) = 2 * length bs" for bs
    by (induction bs) (simp_all add: hex2_def)
  ultimately show ?thesis
    by (simp add: length_rfc_md5)
qed

theorem mcookie_digest_witness:
  "length (mcookie \<lparr>m_buf = (0, 0, 0, 0), m_bits0 = 0, m_bits1 = 0, m_in = replicate 64 0\<rparr> [1, 2] [3] [4] None (\<lambda>_. None)) = 33"
  by (rule conjunct2 [OF mcookie_digest]) simp_all

end
