(* ===== verification/Gpio_I2c.thy ===== *)
theory Gpio_I2c
  imports Prelude
begin

unbundle bit_operations_syntax

text \<open>
  \<open>gpio_i2c.c\<close>: pins that are bits of the registers of an I2C device. The bus is
  a parameter: the two SMBus calls of the kernel, on a state of their own. A call
  yields a negative error or, for a read, the byte. Clients of the retry loops use
  them through the interface \<open>registers\<close>.
\<close>

section \<open>Transfers with retries\<close>

record 's bus =
  smbus_read_byte_data :: "u8 \<Rightarrow> 's \<Rightarrow> int \<times> 's"
  smbus_write_byte_data :: "u8 \<Rightarrow> u8 \<Rightarrow> 's \<Rightarrow> int \<times> 's"

definition GPIO_I2C_RETRY_COUNT :: nat where "GPIO_I2C_RETRY_COUNT = 10"

fun with_retries :: "nat \<Rightarrow> ('s \<Rightarrow> int \<times> 's) \<Rightarrow> int \<Rightarrow> 's \<Rightarrow> int \<times> 's" where
  "with_retries 0 transfer status s = (status, s)"
| "with_retries (Suc retry) transfer status s =
     (case transfer s of
        (status, s) \<Rightarrow> if status < 0 then with_retries retry transfer status s else (status, s))"

definition gpio_i2c_read :: "'s bus \<Rightarrow> u8 \<Rightarrow> 's \<Rightarrow> int \<times> 's" where
  "gpio_i2c_read b reg s = with_retries GPIO_I2C_RETRY_COUNT (smbus_read_byte_data b reg) 0 s"

definition gpio_i2c_write :: "'s bus \<Rightarrow> u8 \<Rightarrow> u8 \<Rightarrow> 's \<Rightarrow> int \<times> 's" where
  "gpio_i2c_write b reg val s = with_retries GPIO_I2C_RETRY_COUNT (smbus_write_byte_data b reg val) 0 s"

section \<open>Pins\<close>

record gpio_i2c_reg =
  gpio_num :: u32
  reg_addr :: u32
  reg_mask :: u32

type_synonym gpio_list = "gpio_i2c_reg list"

definition gpio_i2c_reg_by_num :: "gpio_list \<Rightarrow> u32 \<Rightarrow> gpio_i2c_reg option" where
  "gpio_i2c_reg_by_num gpios offs = find (\<lambda>g. gpio_num g = offs) gpios"

text \<open>
  The handlers \<open>get\<close> and \<open>set\<close> over any way to read and write a register. The address and the
  value are cut to a byte by the calls; \<open>val &= reg_mask\<close> is computed in \<open>unsigned\<close>
  and read as \<open>int\<close>.
\<close>

definition get_value :: "(u8 \<Rightarrow> 's \<Rightarrow> int \<times> 's) \<Rightarrow> gpio_list \<Rightarrow> u32 \<Rightarrow> 's \<Rightarrow> int \<times> 's" where
  "get_value rd gpios offs s =
     (case gpio_i2c_reg_by_num gpios offs of
        None \<Rightarrow> (- EINVAL, s)
      | Some g \<Rightarrow>
          (case rd (ucast (reg_addr g)) s of
             (val, s) \<Rightarrow> (sint ((word_of_int val :: u32) AND reg_mask g), s)))"

definition set_value :: "(u8 \<Rightarrow> 's \<Rightarrow> int \<times> 's) \<Rightarrow> (u8 \<Rightarrow> u8 \<Rightarrow> 's \<Rightarrow> int \<times> 's) \<Rightarrow>
    gpio_list \<Rightarrow> u32 \<Rightarrow> int \<Rightarrow> 's \<Rightarrow> 's" where
  "set_value rd wr gpios offs level s =
     (case gpio_i2c_reg_by_num gpios offs of
        None \<Rightarrow> s
      | Some g \<Rightarrow>
          (case rd (ucast (reg_addr g)) s of
             (val, s) \<Rightarrow>
               (let val = (word_of_int val :: u32) AND NOT (reg_mask g);
                    val = (if level \<noteq> 0 then val OR reg_mask g else val)
                in snd (wr (ucast (reg_addr g)) (ucast val) s))))"

definition gpio_i2c_get_value :: "'s bus \<Rightarrow> gpio_list \<Rightarrow> u32 \<Rightarrow> 's \<Rightarrow> int \<times> 's" where
  "gpio_i2c_get_value b = get_value (gpio_i2c_read b)"

definition gpio_i2c_set_value :: "'s bus \<Rightarrow> gpio_list \<Rightarrow> u32 \<Rightarrow> int \<Rightarrow> 's \<Rightarrow> 's" where
  "gpio_i2c_set_value b = set_value (gpio_i2c_read b) (gpio_i2c_write b)"

section \<open>Probing\<close>

text \<open>
  A node of the device tree: what the calls that read its properties yield (a
  nonzero error or the numbers), and whether the allocation for it succeeds.
\<close>

record dt_node =
  reg_map :: "int + u32 \<times> u32"
  gpio_num_prop :: "int + u32"
  node_alloc :: bool

text \<open>The returned error, and the list with the pin in front.\<close>

definition gpio_i2c_reg_parse :: "gpio_list \<Rightarrow> dt_node \<Rightarrow> int \<times> gpio_list" where
  "gpio_i2c_reg_parse gpios np =
     (case reg_map np of
        Inl err \<Rightarrow> (err, gpios)
      | Inr (addr, bits) \<Rightarrow>
          (case gpio_num_prop np of
             Inl err \<Rightarrow> (err, gpios)
           | Inr num \<Rightarrow>
               (let err = 0 in
                if \<not> node_alloc np then (err, gpios)
                else (0, \<lparr>gpio_num = num, reg_addr = addr, reg_mask = bits\<rparr> # gpios))))"

fun gpio_i2c_map_parse :: "gpio_list \<Rightarrow> dt_node list \<Rightarrow> int \<times> gpio_list" where
  "gpio_i2c_map_parse gpios [] = (0, gpios)"
| "gpio_i2c_map_parse gpios (np # nodes) =
     (case gpio_i2c_reg_parse gpios np of
        (err, gpios) \<Rightarrow> if err \<noteq> 0 then (err, gpios) else gpio_i2c_map_parse gpios nodes)"

text \<open>
  \<open>gpio_i2c_probe\<close>: the nodes below \<open>gpio-map\<close>, if the device has a node and that
  has a map, whether the chip is allocated, and what registering it returns.
\<close>

definition gpio_i2c_probe :: "dt_node list option option \<Rightarrow> bool \<Rightarrow> int \<Rightarrow> int + gpio_list" where
  "gpio_i2c_probe np alloc add_data =
     (case np of
        None \<Rightarrow> Inl (- EINVAL)
      | Some gpio_map \<Rightarrow>
          if \<not> alloc then Inl (- ENOMEM)
          else
            (case (case gpio_map of None \<Rightarrow> (0, []) | Some nodes \<Rightarrow> gpio_i2c_map_parse [] nodes) of
               (err, gpios) \<Rightarrow>
                 if err \<noteq> 0 then Inl err
                 else if add_data \<noteq> 0 then Inl add_data
                 else Inr gpios))"

lemma len8: "(2 :: int) ^ LENGTH(8) = 256"
  by simp

section \<open>The interface of a register file\<close>

text \<open>
  Reading and writing registers of a device in a state that is \<open>ok\<close>: a read gives
  the byte, a write stores it, and nothing else changes.
\<close>

locale registers =
  fixes ok :: "'s \<Rightarrow> bool" and regs :: "'s \<Rightarrow> u8 \<Rightarrow> u8"
    and rd :: "u8 \<Rightarrow> 's \<Rightarrow> int \<times> 's" and wr :: "u8 \<Rightarrow> u8 \<Rightarrow> 's \<Rightarrow> int \<times> 's"
  assumes rd_val: "ok s \<Longrightarrow> fst (rd r s) = uint (regs s r)"
    and rd_ok: "ok s \<Longrightarrow> ok (snd (rd r s))"
    and rd_regs: "ok s \<Longrightarrow> regs (snd (rd r s)) = regs s"
    and wr_ok: "ok s \<Longrightarrow> ok (snd (wr r v s))"
    and wr_regs: "ok s \<Longrightarrow> regs (snd (wr r v s)) = (regs s)(r := v)"
begin

lemma get_pin:
  assumes "ok s" "gpio_i2c_reg_by_num gpios offs = Some g"
  shows "get_value rd gpios offs s =
           (uint (regs s (ucast (reg_addr g)) AND ucast (reg_mask g)), snd (rd (ucast (reg_addr g)) s))"
proof -
  let ?v = "regs s (ucast (reg_addr g))"
  have "(word_of_int (uint ?v) :: u32) AND reg_mask g = ucast (?v AND ucast (reg_mask g))"
    by (rule bit_word_eqI) (auto simp: bit_simps dest: bit_imp_le_length)
  moreover have "sint (ucast w :: u32) = uint w" for w :: u8
  proof -
    have "uint w < 2 ^ LENGTH(8)" "0 \<le> uint w" by (rule unsigned_less, rule unsigned_greater_eq)
    then have "- 2147483648 \<le> uint w \<and> uint w < 2147483648" unfolding len8 by linarith
    then show ?thesis by (simp add: signed_ucast_eq take_bit_int_eq_self_iff signed_take_bit_int_eq_self_iff)
  qed
  ultimately show ?thesis
    using rd_val [OF assms(1), of "ucast (reg_addr g)"] assms(2)
    by (cases "rd (ucast (reg_addr g)) s") (simp add: get_value_def)
qed

lemma set_pin:
  assumes "ok s" "gpio_i2c_reg_by_num gpios offs = Some g"
  defines "r \<equiv> ucast (reg_addr g)"
  shows "ok (set_value rd wr gpios offs level s)"
    and "regs (set_value rd wr gpios offs level s) =
           (regs s)(r := (regs s r AND NOT (ucast (reg_mask g))) OR (if level \<noteq> 0 then ucast (reg_mask g) else 0))"
proof -
  obtain v s1 where rd: "rd r s = (v, s1)" by (cases "rd r s")
  define val where "val = ((word_of_int v :: u32) AND NOT (reg_mask g)) OR (if level \<noteq> 0 then reg_mask g else 0)"
  have val: "(if level \<noteq> 0 then (word_of_int v :: u32) AND NOT (reg_mask g) OR reg_mask g
              else (word_of_int v :: u32) AND NOT (reg_mask g)) = val"
    by (simp add: val_def)
  have run: "set_value rd wr gpios offs level s = snd (wr r (ucast val) s1)"
    using assms(2) rd by (simp add: set_value_def val Let_def flip: r_def)
  have s1: "ok s1" "regs s1 = regs s" "v = uint (regs s r)"
    using rd_ok [OF assms(1), of r] rd_regs [OF assms(1), of r] rd_val [OF assms(1), of r] rd by simp_all
  have byte: "ucast val = ((regs s r AND NOT (ucast (reg_mask g))) OR (if level \<noteq> 0 then ucast (reg_mask g) else 0))"
    unfolding val_def s1(3) by (rule bit_word_eqI) (auto simp: bit_simps)
  show "ok (set_value rd wr gpios offs level s)" using wr_ok [OF s1(1)] by (simp add: run)
  show "regs (set_value rd wr gpios offs level s) =
           (regs s)(r := (regs s r AND NOT (ucast (reg_mask g))) OR (if level \<noteq> 0 then ucast (reg_mask g) else 0))"
    using wr_regs [OF s1(1), of r "ucast val"] by (simp only: run s1 byte)
qed

end

section \<open>The retry loops provide the interface\<close>

text \<open>
  A register file behind a bus on which transfers fail: the list tells which of
  the next transfers do, a failed transfer changes nothing.
\<close>

record flaky =
  faults :: "bool list"
  cells :: "u8 \<Rightarrow> u8"

definition flaky_transfer :: "(flaky \<Rightarrow> int \<times> flaky) \<Rightarrow> flaky \<Rightarrow> int \<times> flaky" where
  "flaky_transfer act s =
     (case faults s of
        True # fs \<Rightarrow> (- 5, s\<lparr>faults := fs\<rparr>)
      | fs \<Rightarrow> act (s\<lparr>faults := tl fs\<rparr>))"

definition flaky_bus :: "flaky bus" where
  "flaky_bus =
     \<lparr>smbus_read_byte_data = (\<lambda>r. flaky_transfer (\<lambda>s. (uint (cells s r), s))),
      smbus_write_byte_data = (\<lambda>r v. flaky_transfer (\<lambda>s. (0, s\<lparr>cells := (cells s)(r := v)\<rparr>)))\<rparr>"

text \<open>No \<open>GPIO_I2C_RETRY_COUNT\<close> transfers in a row fail.\<close>

fun leading :: "bool list \<Rightarrow> nat" where
  "leading (True # fs) = Suc (leading fs)"
| "leading _ = 0"

fun few_faults :: "bool list \<Rightarrow> bool" where
  "few_faults [] \<longleftrightarrow> True"
| "few_faults (f # fs) \<longleftrightarrow> leading (f # fs) < GPIO_I2C_RETRY_COUNT \<and> few_faults fs"

lemma retries_succeed:
  assumes "\<And>s. 0 \<le> fst (act s)"
  shows "leading (faults s) < n \<Longrightarrow> few_faults (faults s) \<Longrightarrow>
           \<exists>fs. few_faults fs \<and> with_retries n (flaky_transfer act) st s = act (s\<lparr>faults := fs\<rparr>)"
proof (induction n arbitrary: s st)
  case (Suc n)
  show ?case
  proof (cases "\<exists>fs. faults s = True # fs")
    case True
    then obtain fs where fs: "faults s = True # fs" by blast
    then have "leading (faults (s\<lparr>faults := fs\<rparr>)) < n" "few_faults (faults (s\<lparr>faults := fs\<rparr>))"
      using Suc.prems by simp_all
    from Suc.IH [OF this, of "- 5"] show ?thesis by (simp add: flaky_transfer_def fs)
  next
    case False
    then have t: "flaky_transfer act s = act (s\<lparr>faults := tl (faults s)\<rparr>)"
      by (auto simp: flaky_transfer_def split: list.split bool.split)
    have "few_faults (tl (faults s))" using Suc.prems(2) by (cases "faults s") simp_all
    then show ?thesis
      using assms [of "s\<lparr>faults := tl (faults s)\<rparr>"] by (auto simp: t split: prod.split intro!: exI [of _ "tl (faults s)"])
  qed
qed simp

lemma few_leading: "few_faults fs \<Longrightarrow> leading fs < GPIO_I2C_RETRY_COUNT"
  by (cases fs) (simp_all add: GPIO_I2C_RETRY_COUNT_def)

lemma flaky_read:
  assumes "few_faults (faults s)"
  obtains fs where "few_faults fs" "gpio_i2c_read flaky_bus r s = (uint (cells s r), s\<lparr>faults := fs\<rparr>)"
  using retries_succeed [of "\<lambda>s. (uint (cells s r), s)" s GPIO_I2C_RETRY_COUNT 0] assms few_leading
  by (auto simp: gpio_i2c_read_def flaky_bus_def)

lemma flaky_write:
  assumes "few_faults (faults s)"
  obtains fs where "few_faults fs"
    "gpio_i2c_write flaky_bus r v s = (0, s\<lparr>faults := fs, cells := (cells s)(r := v)\<rparr>)"
  using retries_succeed [of "\<lambda>s. (0, s\<lparr>cells := (cells s)(r := v)\<rparr>)" s GPIO_I2C_RETRY_COUNT 0] assms few_leading
  by (auto simp: gpio_i2c_write_def flaky_bus_def)

interpretation dev: registers "\<lambda>s. few_faults (faults s)" cells "gpio_i2c_read flaky_bus" "gpio_i2c_write flaky_bus"
proof
  fix s :: flaky and r v assume ok: "few_faults (faults s)"
  show "fst (gpio_i2c_read flaky_bus r s) = uint (cells s r)"
    and "few_faults (faults (snd (gpio_i2c_read flaky_bus r s)))"
    and "cells (snd (gpio_i2c_read flaky_bus r s)) = cells s"
    by (rule flaky_read [OF ok, of r], simp)+
  show "few_faults (faults (snd (gpio_i2c_write flaky_bus r v s)))"
    and "cells (snd (gpio_i2c_write flaky_bus r v s)) = (cells s)(r := v)"
    by (rule flaky_write [OF ok, of r v], simp)+
qed

section \<open>Properties of the pins\<close>

text \<open>The bits of a pin in its register.\<close>

definition pin_bits :: "gpio_i2c_reg \<Rightarrow> u8" where
  "pin_bits g = ucast (reg_mask g)"


definition sample_gpios :: gpio_list where
  "sample_gpios = [\<lparr>gpio_num = 0, reg_addr = 0x10, reg_mask = 0x01\<rparr>, \<lparr>gpio_num = 3, reg_addr = 0x10, reg_mask = 0x80\<rparr>]"

definition sample_flaky :: flaky where
  "sample_flaky = \<lparr>faults = [True, False, True, True], cells = (\<lambda>_. 0x55)\<rparr>"


text \<open>
  Setting a pin changes no pin that lies in another register or has other bits.
\<close>

theorem gpio_isolated:
  assumes "few_faults (faults s)"
    and "gpio_i2c_reg_by_num gpios offs = Some g" "gpio_i2c_reg_by_num gpios other = Some h"
    and "(ucast (reg_addr g) :: u8) \<noteq> ucast (reg_addr h) \<or> pin_bits g AND pin_bits h = 0"
  shows "fst (gpio_i2c_get_value flaky_bus gpios other (gpio_i2c_set_value flaky_bus gpios offs level s)) =
           fst (gpio_i2c_get_value flaky_bus gpios other s)"
proof -
  have keep: "((v AND NOT m) OR (if level \<noteq> 0 then m else 0)) AND k = v AND k" if "m AND k = 0" for v m k :: u8
  proof (rule bit_word_eqI)
    fix n assume n: "n < LENGTH(8)"
    have "\<not> (bit m n \<and> bit k n)" using arg_cong [OF that, of "\<lambda>w. bit w n"] by (simp add: bit_and_iff)
    then show "bit (((v AND NOT m) OR (if level \<noteq> 0 then m else 0)) AND k) n = bit (v AND k) n"
      using n by (auto simp: bit_simps)
  qed
  have "cells (gpio_i2c_set_value flaky_bus gpios offs level s) (ucast (reg_addr h)) AND pin_bits h =
        cells s (ucast (reg_addr h)) AND pin_bits h"
    using dev.set_pin(2) [OF assms(1,2), of level] assms(4) keep
    by (auto simp: gpio_i2c_set_value_def pin_bits_def)
  then show ?thesis
    using dev.get_pin [OF assms(1,3)] dev.get_pin [OF dev.set_pin(1) [OF assms(1,2), of level] assms(3)]
    by (simp add: gpio_i2c_get_value_def gpio_i2c_set_value_def pin_bits_def flip: uint_and)
qed

theorem gpio_isolated_witness:
  "fst (gpio_i2c_get_value flaky_bus sample_gpios 0 (gpio_i2c_set_value flaky_bus sample_gpios 3 1 sample_flaky)) =
   fst (gpio_i2c_get_value flaky_bus sample_gpios 0 sample_flaky)"
  by (rule gpio_isolated [where g = "sample_gpios ! 1" and h = "sample_gpios ! 0"])
     (simp_all add: sample_flaky_def sample_gpios_def gpio_i2c_reg_by_num_def pin_bits_def GPIO_I2C_RETRY_COUNT_def)

text \<open>
  When every read fails, the error is taken for the contents of the register:
  \<open>get\<close> returns the masked bits of the error number, and \<open>set\<close> writes all the bits
  of the error number outside the mask into the register.
\<close>

theorem gpio_failed_read:
  assumes "\<And>r s. smbus_read_byte_data b r s = (err, s)" and "err < 0"
    and "gpio_i2c_reg_by_num gpios offs = Some g"
  shows "gpio_i2c_get_value b gpios offs s = (sint ((word_of_int err :: u32) AND reg_mask g), s) \<and>
         gpio_i2c_set_value b gpios offs 0 s =
           snd (gpio_i2c_write b (ucast (reg_addr g)) (word_of_int err AND NOT (pin_bits g)) s)"
proof -
  have "with_retries n (smbus_read_byte_data b r) st s = (if n = 0 then (st, s) else (err, s))" for n r st
    using assms(1,2) by (induction n arbitrary: st) simp_all
  then have read: "gpio_i2c_read b r s = (err, s)" for r
    by (simp add: gpio_i2c_read_def GPIO_I2C_RETRY_COUNT_def)
  have "ucast ((word_of_int err :: u32) AND NOT (reg_mask g)) = (word_of_int err :: u8) AND NOT (pin_bits g)"
    unfolding pin_bits_def by (rule bit_word_eqI) (auto simp: bit_simps)
  then show ?thesis
    using assms(3) by (simp add: gpio_i2c_get_value_def gpio_i2c_set_value_def get_value_def set_value_def read Let_def)
qed

text \<open>A bus on which reads fail and writes do not: the pin reads as one, and clearing it sets six other bits.\<close>

definition deaf_bus :: "(u8 \<Rightarrow> u8) bus" where
  "deaf_bus = \<lparr>smbus_read_byte_data = (\<lambda>r s. (- 5, s)), smbus_write_byte_data = (\<lambda>r v s. (0, s(r := v)))\<rparr>"

lemma deaf_write: "gpio_i2c_write deaf_bus r v s = (0, s(r := v))"
  by (simp add: gpio_i2c_write_def deaf_bus_def GPIO_I2C_RETRY_COUNT_def numeral_eq_Suc)

theorem gpio_failed_read_witness:
  "gpio_i2c_get_value deaf_bus sample_gpios 0 (\<lambda>_. 0) = (1, \<lambda>_. 0) \<and>
   gpio_i2c_set_value deaf_bus sample_gpios 0 0 (\<lambda>_. 0) = (\<lambda>_. 0)(0x10 := 0xfa)"
proof -
  have "smbus_read_byte_data deaf_bus r s = (- 5, s)" for r s by (simp add: deaf_bus_def)
  moreover have "gpio_i2c_reg_by_num sample_gpios 0 = Some (sample_gpios ! 0)"
    by (simp add: sample_gpios_def gpio_i2c_reg_by_num_def)
  moreover have "sint ((word_of_int (- 5) :: u32) AND reg_mask (sample_gpios ! 0)) = 1"
    unfolding sample_gpios_def by code_simp
  moreover have "(ucast (reg_addr (sample_gpios ! 0)) :: u8) = 0x10"
      "(word_of_int (- 5) :: u8) AND NOT (pin_bits (sample_gpios ! 0)) = 0xfa"
    unfolding sample_gpios_def pin_bits_def by code_simp+
  ultimately show ?thesis
    using gpio_failed_read [of deaf_bus "- 5" sample_gpios 0 "sample_gpios ! 0" "\<lambda>_. 0"]
    by (simp only: deaf_write snd_conv)
qed

section \<open>Properties of probing\<close>

definition node_ok :: "dt_node \<Rightarrow> bool" where
  "node_ok np \<longleftrightarrow> (\<exists>m. reg_map np = Inr m) \<and> (\<exists>n. gpio_num_prop np = Inr n)"

definition node_pin :: "dt_node \<Rightarrow> gpio_i2c_reg" where
  "node_pin np = \<lparr>gpio_num = projr (gpio_num_prop np), reg_addr = fst (projr (reg_map np)), reg_mask = snd (projr (reg_map np))\<rparr>"

text \<open>The errors of the property calls are not zero.\<close>

definition node_errors :: "dt_node \<Rightarrow> bool" where
  "node_errors np \<longleftrightarrow> reg_map np \<noteq> Inl 0 \<and> gpio_num_prop np \<noteq> Inl 0"

lemma reg_parse_cases:
  "node_errors np \<Longrightarrow> gpio_i2c_reg_parse gpios np = (err, gpios') \<Longrightarrow>
     (err = 0 \<longleftrightarrow> node_ok np) \<and> (err = 0 \<longrightarrow> gpios' = (if node_alloc np then node_pin np # gpios else gpios))"
  by (auto simp: node_errors_def gpio_i2c_reg_parse_def node_ok_def node_pin_def split: sum.splits if_splits)

lemma map_parse_list:
  "list_all node_errors nodes \<Longrightarrow>
     (fst (gpio_i2c_map_parse gpios nodes) = 0 \<longleftrightarrow> list_all node_ok nodes) \<and>
     (list_all node_ok nodes \<longrightarrow>
        snd (gpio_i2c_map_parse gpios nodes) = rev (map node_pin (filter node_alloc nodes)) @ gpios)"
proof (induction nodes arbitrary: gpios)
  case (Cons np nodes)
  obtain err gpios' where step: "gpio_i2c_reg_parse gpios np = (err, gpios')" by (cases "gpio_i2c_reg_parse gpios np")
  show ?case using Cons reg_parse_cases [OF _ step] step by auto
qed simp

text \<open>
  probing succeeds just when every node has both properties and the chip is
  registered; then each node has its pin in the list, a later node in front of an
  earlier one -- except the nodes whose allocation failed, which are left out
  without an error.
\<close>

theorem gpio_probe_result:
  assumes "list_all node_errors nodes"
  shows "gpio_i2c_probe (Some (Some nodes)) True add_data = Inr gpios \<longleftrightarrow>
           list_all node_ok nodes \<and> add_data = 0 \<and> gpios = rev (map node_pin (filter node_alloc nodes))"
  using map_parse_list [OF assms, of "[]"]
  by (cases "gpio_i2c_map_parse [] nodes") (auto simp: gpio_i2c_probe_def)

theorem gpio_probe_result_witness:
  "gpio_i2c_probe (Some (Some [\<lparr>reg_map = Inr (0x10, 1), gpio_num_prop = Inr 0, node_alloc = True\<rparr>,
                               \<lparr>reg_map = Inr (0x10, 2), gpio_num_prop = Inr 1, node_alloc = False\<rparr>])) True 0 =
     Inr [\<lparr>gpio_num = 0, reg_addr = 0x10, reg_mask = 1\<rparr>]"
  by (subst gpio_probe_result) (simp_all add: node_errors_def node_ok_def node_pin_def)

end
