(* ===== verification/Toolchain_Wrapper.thy ===== *)
theory Toolchain_Wrapper
  imports Numerals
begin

text \<open>
  \<open>toolchain/toolchain-wrapper.c\<close>: the program that stands for every tool of the
  cross toolchain. It finds its own directory, puts predefined options in front of
  the arguments it was called with, refuses or reports paths of the build machine,
  and executes the real tool.

  The macros the build defines (\<open>BR_...\<close>) are the record \<open>br_config\<close>; they hold no
  percent sign, so that the format strings they are part of stand for themselves.
  The system calls are the record \<open>system\<close>: what the environment holds, whether an
  allocation succeeds, where links and paths lead, what \<open>localtime_r\<close> makes of a
  time, and whether \<open>setenv\<close> and \<open>execv\<close> succeed. \<open>argv\<close> is the program path and the
  list of the other arguments; a position in it is the rest of the list.
\<close>

section \<open>The configuration and the system\<close>

datatype cross_path = Cross_rel string | Cross_abs string | Cross_bin

record br_config =
  br_ccache :: bool
  br_cross_path :: cross_path
  br_cross_path_suffix :: string
  br_sysroot :: string
  br_abi :: "string option"
  br_nan :: "string option"
  br_fpu :: "string option"
  br_softfloat :: bool
  br_mode :: "string option"
  br_64 :: bool
  br_omit_lock_prefix :: bool
  br_no_fused_madd :: bool
  br_fp_contract_off :: bool
  br_binfmt_flat :: bool
  br_mips_little_endian :: bool
  br_mips_big_endian :: bool
  br_arc_big_endian :: bool
  br_additional_cflags :: "string list"
  br_float_abi :: "string option"
  br_fp32_mode :: "string option"
  br_arch :: "string option"
  br_cpu :: "string option"
  br_need_source_date_epoch :: bool
  br2_pic_pie :: bool
  br2_relro_partial :: bool
  br2_relro_full :: bool
  br_ccache_hash :: "string option"
  br_ccache_basedir :: "string option"

record tm =
  tm_sec :: nat
  tm_min :: nat
  tm_hour :: nat
  tm_mday :: nat
  tm_mon :: nat
  tm_year :: int

type_synonym environment = "string \<Rightarrow> string option"

record system =
  env :: environment
  malloc_ok :: "nat \<Rightarrow> bool"
  realpath :: "string \<Rightarrow> string option"
  self_exe :: "string option"
  localtime_r :: "int \<Rightarrow> tm option"
  setenv_ok :: "string \<Rightarrow> bool"
  execv_ok :: "string \<Rightarrow> string list \<Rightarrow> bool"

text \<open>
  What a run ends with: an exit status, the program executed in its environment,
  or a store behind the argument vector. \<open>Perror\<close> stands for the text and the
  description of the last error \<open>perror\<close> adds.
\<close>

datatype outcome = Exit nat | Execv string "string list" environment | Overrun

datatype message = Text string | Perror string

definition PATH_MAX :: nat where "PATH_MAX = 4096"

definition file_macro :: string where "file_macro = ''toolchain/toolchain-wrapper.c''"

section \<open>The predefined arguments\<close>

definition EXCLUSIVE_ARGS :: nat where "EXCLUSIVE_ARGS = 10"

definition with_prefix :: "string \<Rightarrow> string option \<Rightarrow> string list" where
  "with_prefix p m = (case m of None \<Rightarrow> [] | Some s \<Rightarrow> [p @ s])"

definition only_if :: "bool \<Rightarrow> 'a list \<Rightarrow> 'a list" where
  "only_if b xs = (if b then xs else [])"

definition predef_args :: "br_config \<Rightarrow> string \<Rightarrow> string \<Rightarrow> string \<Rightarrow> string list" where
  "predef_args c ccache_path path sysroot =
     only_if (br_ccache c) [ccache_path] @ [path, ''--sysroot'', sysroot] @
     with_prefix ''-mabi='' (br_abi c) @ with_prefix ''-mnan='' (br_nan c) @
     with_prefix ''-mfpu='' (br_fpu c) @ only_if (br_softfloat c) [''-msoft-float''] @
     with_prefix ''-m'' (br_mode c) @ only_if (br_64 c) [''-m64''] @
     only_if (br_omit_lock_prefix c) [''-Wa,-momit-lock-prefix=yes''] @
     only_if (br_no_fused_madd c) [''-mno-fused-madd''] @
     only_if (br_fp_contract_off c) [''-ffp-contract=off''] @
     only_if (br_binfmt_flat c) [''-Wl,-elf2flt''] @
     only_if (br_mips_little_endian c) [''-EL''] @
     only_if (br_mips_big_endian c \<or> br_arc_big_endian c) [''-EB''] @
     br_additional_cflags c"

section \<open>Unsafe paths\<close>

definition unsafe_paths :: "string list" where
  "unsafe_paths = [''/lib'', ''/usr/include'', ''/usr/lib'', ''/usr/local/include'',
     ''/usr/local/lib'', ''/usr/X11R6/include'', ''/usr/X11R6/lib'']"

definition unsafe_opts :: "string list" where
  "unsafe_opts = [''-I'', ''-idirafter'', ''-iquote'', ''-isystem'', ''-L'']"

definition unsafe_message :: "string \<Rightarrow> string \<Rightarrow> string \<Rightarrow> bool \<Rightarrow> bool \<Rightarrow> string" where
  "unsafe_message prog arg path paranoid arg_has_path =
     prog @ '': '' @ (if paranoid then ''ERROR'' else ''WARNING'') @
     '': unsafe header/library path used in cross-compilation: '' @
     quoted (arg @ (if arg_has_path then [] else [CHR 0x27, CHR '' '', CHR 0x27]) @
             (if arg_has_path then [] else path)) @ [CHR 0x0a]"

text \<open>The loop over the unsafe paths: the messages, and whether it exits.\<close>

fun check_unsafe_loop :: "string \<Rightarrow> string \<Rightarrow> string \<Rightarrow> bool \<Rightarrow> bool \<Rightarrow> string list \<Rightarrow> message list \<times> bool" where
  "check_unsafe_loop prog arg path paranoid has [] = ([], False)"
| "check_unsafe_loop prog arg path paranoid has (p # ps) =
     (if \<not> starts_with p path then check_unsafe_loop prog arg path paranoid has ps
      else (let m = Text (unsafe_message prog arg path paranoid has)
            in if paranoid then ([m], True)
               else apfst (Cons m) (check_unsafe_loop prog arg path paranoid has ps)))"

definition check_unsafe_path :: "string \<Rightarrow> string \<Rightarrow> string \<Rightarrow> bool \<Rightarrow> bool \<Rightarrow> message list \<times> bool" where
  "check_unsafe_path prog arg path paranoid arg_has_path =
     check_unsafe_loop prog arg path paranoid arg_has_path unsafe_paths"

text \<open>
  The inner loop over the options, at an argument: messages, whether the program
  exits, and the arguments from the one the loop ends at. A separate path moves it
  to the next argument, and the loop goes on with the options that are left.
\<close>

definition after_check :: "message list \<times> bool \<Rightarrow> string list \<Rightarrow> message list \<times> bool \<times> string list
    \<Rightarrow> message list \<times> bool \<times> string list" where
  "after_check r rest k = (if snd r then (fst r, True, rest) else apfst (append (fst r)) k)"

fun check_opts :: "string \<Rightarrow> bool \<Rightarrow> string list \<Rightarrow> string list \<Rightarrow> message list \<times> bool \<times> string list" where
  "check_opts prog paranoid (opt # opts) (a # as) =
     (if \<not> starts_with opt a then check_opts prog paranoid opts (a # as)
      else if drop (length opt) a = []
      then (case as of
              [] \<Rightarrow> ([], False, [])
            | p # _ \<Rightarrow> after_check (check_unsafe_path prog a p paranoid False) as
                         (check_opts prog paranoid opts as))
      else after_check (check_unsafe_path prog a (drop (length opt) a) paranoid True) (a # as)
             (check_opts prog paranoid opts (a # as)))"
| "check_opts prog paranoid _ as = ([], False, as)"

lemma check_opts_length: "length (snd (snd (check_opts prog paranoid opts as))) \<le> length as"
proof (induction prog paranoid opts as rule: check_opts.induct)
  case (1 prog paranoid opt opts a as)
  then show ?case by (cases as) (auto simp: after_check_def)
qed simp_all

function check_args :: "string \<Rightarrow> bool \<Rightarrow> string list \<Rightarrow> message list \<times> bool" where
  "check_args prog paranoid [] = ([], False)"
| "check_args prog paranoid (a # as) =
     (case check_opts prog paranoid unsafe_opts (a # as) of
        (m, ex, rest) \<Rightarrow> if ex then (m, True) else apfst (append m) (check_args prog paranoid (tl rest)))"
  by pat_completeness auto
termination
  apply (relation "measure (\<lambda>(prog, paranoid, as). length as)")
   apply simp
  subgoal for prog paranoid a as
    using check_opts_length [of prog paranoid unsafe_opts "a # as"]
    by (cases "check_opts prog paranoid unsafe_opts (a # as)") auto
  done

section \<open>The date of the build\<close>

definition dquoted :: "string \<Rightarrow> string" where
  "dquoted s = [CHR 0x22] @ s @ [CHR 0x22]"

text \<open>\<open>strftime\<close> for the conversions used; it has no result when the text and its terminator do not fit.\<close>

definition two_digits :: "nat \<Rightarrow> string" where
  "two_digits n = (if n < 10 then ''0'' @ show_nat 10 n else show_nat 10 n)"

definition month_name :: "nat \<Rightarrow> string" where
  "month_name m =
     (if m < 12
      then [''Jan'', ''Feb'', ''Mar'', ''Apr'', ''May'', ''Jun'', ''Jul'', ''Aug'', ''Sep'', ''Oct'', ''Nov'', ''Dec''] ! m
      else ''?'')"

definition format_time :: "tm \<Rightarrow> string" where
  "format_time t = two_digits (tm_hour t) @ '':'' @ two_digits (tm_min t) @ '':'' @ two_digits (tm_sec t)"

definition format_date :: "tm \<Rightarrow> string" where
  "format_date t = month_name (tm_mon t) @ '' '' @
     (if tm_mday t < 10 then '' '' else []) @ show_nat 10 (tm_mday t) @ '' '' @ show_int (tm_year t + 1900)"

definition strftime :: "nat \<Rightarrow> string \<Rightarrow> string option" where
  "strftime room s = (if length s + 1 \<le> room then Some s else None)"

definition sizeof_time :: nat where
  "sizeof_time = length (''-D__TIME__='' @ dquoted ''HH:MM:SS'') + 1"

definition sizeof_date :: nat where
  "sizeof_date = length (''-D__DATE__='' @ dquoted ''MMM DD YYYY'') + 1"

text \<open>\<open>Inl\<close> the messages before \<open>exit (1)\<close>, \<open>Inr None\<close> false, \<open>Inr (Some _)\<close> true with \<open>_time_\<close> and \<open>_date_\<close>.\<close>

definition parse_source_date_epoch_from_env ::
    "br_config \<Rightarrow> system \<Rightarrow> string \<Rightarrow> message list + (string \<times> string) option" where
  "parse_source_date_epoch_from_env c sys prog =
     (if \<not> br_need_source_date_epoch c then Inr None
      else case env sys ''SOURCE_DATE_EPOCH'' of
        None \<Rightarrow> Inr None
      | Some epoch_env \<Rightarrow>
          (case strtoll epoch_env 10 of (epoch, endptr, errno) \<Rightarrow>
             if errno \<or> epoch_env = [] \<or> endptr \<noteq> [] \<or> epoch < 0
             then Inl [Text (prog @ '': invalid SOURCE_DATE_EPOCH='' @ quoted epoch_env @ [CHR 0x0a])]
             else case localtime_r sys epoch of
                    None \<Rightarrow> Inl [Text (prog @ '': cannot parse SOURCE_DATE_EPOCH='' @ epoch_env @ [CHR 0x0a])]
                  | Some t \<Rightarrow>
                      (case strftime sizeof_time (''-D__TIME__='' @ dquoted (format_time t)) of
                         None \<Rightarrow> Inl [Text (prog @ '': cannot set time from SOURCE_DATE_EPOCH='' @ epoch_env @ [CHR 0x0a])]
                       | Some time \<Rightarrow>
                           (case strftime sizeof_date (''-D__DATE__='' @ dquoted (format_date t)) of
                              None \<Rightarrow> Inl [Text (prog @ '': cannot set date from SOURCE_DATE_EPOCH='' @ epoch_env @ [CHR 0x0a])]
                            | Some date \<Rightarrow> Inr (Some (time, date))))))"

section \<open>The exclusive arguments\<close>

text \<open>Each loop that looks for an argument and breaks is a test whether the list has one.\<close>

definition float_abi_given :: "string \<Rightarrow> bool" where
  "float_abi_given a \<longleftrightarrow> starts_with ''-mfloat-abi='' a \<or> a = ''-msoft-float'' \<or> a = ''-mhard-float''"

definition float_abi_args :: "br_config \<Rightarrow> string list \<Rightarrow> string list" where
  "float_abi_args c as = (if list_ex float_abi_given as then [] else with_prefix ''-mfloat-abi='' (br_float_abi c))"

fun add_fp32_mode :: "bool \<Rightarrow> string list \<Rightarrow> bool" where
  "add_fp32_mode b [] = b"
| "add_fp32_mode b (a # as) =
     add_fp32_mode (if a = ''-msoft-float'' then False else if a = ''-mhard-float'' then True else b) as"

definition fp32_args :: "br_config \<Rightarrow> string list \<Rightarrow> string list" where
  "fp32_args c as = (if add_fp32_mode True as then with_prefix ''-mfp'' (br_fp32_mode c) else [])"

definition arch_given :: "string \<Rightarrow> bool" where
  "arch_given a \<longleftrightarrow> starts_with ''-march='' a \<or> starts_with ''-mtune='' a \<or> starts_with ''-mcpu='' a"

definition arch_args :: "br_config \<Rightarrow> string list \<Rightarrow> string list" where
  "arch_args c as =
     (if list_ex arch_given as then []
      else with_prefix ''-march='' (br_arch c) @ with_prefix ''-mcpu='' (br_cpu c))"

definition epoch_args :: "(string \<times> string) option \<Rightarrow> string list" where
  "epoch_args e = (case e of None \<Rightarrow> [] | Some (time, date) \<Rightarrow> [time, date, ''-Wno-builtin-macro-redefined''])"

definition pie_excluded :: "string \<Rightarrow> bool" where
  "pie_excluded a \<longleftrightarrow> a \<in> set [''-r'', ''-Wl,-r'', ''-static'', ''-D__KERNEL__'', ''-D__UBOOT__'',
     ''-fno-pie'', ''-fno-PIE'', ''-no-pie'']"

text \<open>The first loop of the PIE options: \<open>None\<close> after a break, else \<open>found_shared\<close>.\<close>

fun pie_scan :: "bool \<Rightarrow> string list \<Rightarrow> bool option" where
  "pie_scan found_shared [] = Some found_shared"
| "pie_scan found_shared (a # as) =
     (if pie_excluded a then None else pie_scan (found_shared \<or> a = ''-shared'') as)"

definition pie_args :: "br_config \<Rightarrow> string list \<Rightarrow> string list" where
  "pie_args c as =
     (if \<not> br2_pic_pie c then []
      else case pie_scan False as of
        None \<Rightarrow> []
      | Some found_shared \<Rightarrow>
          only_if (\<not> list_ex (\<lambda>a. a \<in> set [''-fpie'', ''-fPIE'', ''-fpic'', ''-fPIC'']) as) [''-fPIE''] @
          only_if (\<not> found_shared) [''-pie''])"

definition relro_args :: "br_config \<Rightarrow> string list \<Rightarrow> string list" where
  "relro_args c as =
     (if list_ex (\<lambda>a. a = ''-D__KERNEL__'' \<or> a = ''-D__UBOOT__'') as then []
      else only_if (br2_relro_partial c) [''-Wl,-z,relro''] @
           only_if (br2_relro_full c) [''-Wl,-z,now'', ''-Wl,-z,relro''])"

definition exclusive_args :: "br_config \<Rightarrow> (string \<times> string) option \<Rightarrow> string list \<Rightarrow> string list" where
  "exclusive_args c e as =
     float_abi_args c as @ fp32_args c as @ arch_args c as @ epoch_args e @ pie_args c as @ relro_args c as"

section \<open>Where the wrapper is\<close>

text \<open>\<open>strrchr (s, '/')\<close>: the text before and after the last slash.\<close>

definition last_slash :: "string \<Rightarrow> (string \<times> string) option" where
  "last_slash s =
     (if CHR ''/'' \<in> set s
      then Some (rev (tl (dropWhile (\<lambda>c. c \<noteq> CHR ''/'') (rev s))), rev (takeWhile (\<lambda>c. c \<noteq> CHR ''/'') (rev s)))
      else None)"

text \<open>The loop that cuts the last two components off; it never looks at position 0.\<close>

fun cut_components :: "nat \<Rightarrow> nat \<Rightarrow> string \<Rightarrow> string" where
  "cut_components 0 count s = s"
| "cut_components (Suc i) count s =
     (if Suc i < length s \<and> s ! Suc i = CHR ''/''
      then (if count + 1 = 2 then take (Suc i) s else cut_components i (count + 1) (take (Suc i) s))
      else cut_components i count s)"

definition find_base :: "system \<Rightarrow> string \<Rightarrow> (message list \<times> nat) + (string \<times> string)" where
  "find_base sys progpath =
     (case last_slash progpath of
        Some (dir, base) \<Rightarrow>
          (if \<not> malloc_ok sys (length dir + 7) then Inl ([Perror (file_macro @ '': malloc'')], 2)
           else case realpath sys (dir @ ''/..'') of
                  None \<Rightarrow> Inl ([Perror (file_macro @ '': realpath'')], 2)
                | Some absbasedir \<Rightarrow> Inr (base, absbasedir))
      | None \<Rightarrow>
          (case (if malloc_ok sys (PATH_MAX + 1) then self_exe sys else None) of
             None \<Rightarrow> Inl ([Perror (file_macro @ '': readlink'')], 2)
           | Some link \<Rightarrow>
               (let absbasedir = take PATH_MAX link
                in Inr (progpath, cut_components (length absbasedir) 0 absbasedir))))"

text \<open>The three paths; each has to fit in \<open>PATH_MAX\<close> bytes with its terminator.\<close>

definition tool_path :: "br_config \<Rightarrow> string \<Rightarrow> string \<Rightarrow> string" where
  "tool_path c absbasedir base =
     (case br_cross_path c of
        Cross_rel rel \<Rightarrow> absbasedir @ ''/'' @ rel @ ''/'' @ base @ br_cross_path_suffix c
      | Cross_abs dir \<Rightarrow> dir @ ''/'' @ base @ br_cross_path_suffix c
      | Cross_bin \<Rightarrow> absbasedir @ ''/bin/'' @ base @ br_cross_path_suffix c)"

definition fill_paths :: "br_config \<Rightarrow> string \<Rightarrow> string \<Rightarrow> (string \<times> string \<times> string) option" where
  "fill_paths c absbasedir base =
     (let path = tool_path c absbasedir base;
          ccache_path = absbasedir @ ''/bin/ccache'';
          sysroot = absbasedir @ ''/'' @ br_sysroot c
      in if PATH_MAX \<le> length path \<or> (br_ccache c \<and> PATH_MAX \<le> length ccache_path) \<or> PATH_MAX \<le> length sysroot
         then None else Some (ccache_path, path, sysroot))"

section \<open>The program\<close>

text \<open>\<open>atoi\<close> is the low 32 bits of \<open>strtol\<close>, read as a signed number.\<close>

definition atoi :: "string \<Rightarrow> int" where
  "atoi s = sint (word_of_int (fst (strtoll s 10)) :: u32)"

definition debug_level :: "system \<Rightarrow> int" where
  "debug_level sys = (case env sys ''BR2_DEBUG_WRAPPER'' of None \<Rightarrow> 0 | Some s \<Rightarrow> atoi s)"

definition separator :: "int \<Rightarrow> string" where
  "separator debug = (if debug = 2 then [CHR 0x0a] @ ''    '' else '' '')"

definition trace_args :: "int \<Rightarrow> string list \<Rightarrow> string" where
  "trace_args debug as = concat (map (\<lambda>a. separator debug @ quoted a) as)"

definition trace_call :: "int \<Rightarrow> string list \<Rightarrow> message list" where
  "trace_call debug argv =
     only_if (debug > 0) [Text (''Toolchain wrapper was called with:'' @ trace_args debug argv @ [CHR 0x0a])]"

definition trace_exec :: "br_config \<Rightarrow> int \<Rightarrow> string list \<Rightarrow> message list" where
  "trace_exec c debug args =
     only_if (debug > 0)
       [Text (''Toolchain wrapper executing:'' @
          (case br_ccache_hash c of None \<Rightarrow> []
           | Some h \<Rightarrow> separator debug @ ''CCACHE_COMPILERCHECK='' @ quoted (''string:'' @ h)) @
          (case br_ccache_basedir c of None \<Rightarrow> []
           | Some d \<Rightarrow> separator debug @ ''CCACHE_BASEDIR='' @ quoted d) @
          trace_args debug args @ [CHR 0x0a])]"

text \<open>\<open>setenv (name, value, 0)\<close> keeps a variable that is set.\<close>

definition setenv :: "system \<Rightarrow> environment \<Rightarrow> string \<Rightarrow> string \<Rightarrow> environment option" where
  "setenv sys e name val =
     (if \<not> setenv_ok sys name then None else Some (if e name = None then e(name \<mapsto> val) else e))"

definition set_ccache_env :: "br_config \<Rightarrow> system \<Rightarrow> message list \<times> environment option" where
  "set_ccache_env c sys =
     (case (case br_ccache_hash c of None \<Rightarrow> Some (env sys)
            | Some h \<Rightarrow> setenv sys (env sys) ''CCACHE_COMPILERCHECK'' (''string:'' @ h)) of
        None \<Rightarrow> ([Perror (file_macro @ '': Failed to set CCACHE_COMPILERCHECK'')], None)
      | Some e \<Rightarrow>
          (case br_ccache_basedir c of None \<Rightarrow> ([], Some e)
           | Some d \<Rightarrow>
               (case setenv sys e ''CCACHE_BASEDIR'' d of
                  None \<Rightarrow> ([Perror (file_macro @ '': Failed to set CCACHE_BASEDIR'')], None)
                | Some e' \<Rightarrow> ([], Some e'))))"

definition paranoid_wrapper :: "system \<Rightarrow> bool" where
  "paranoid_wrapper sys =
     (case env sys ''BR_COMPILER_PARANOID_UNSAFE_PATH'' of None \<Rightarrow> False | Some s \<Rightarrow> s \<noteq> [])"

definition args_slots :: "nat \<Rightarrow> nat \<Rightarrow> nat" where
  "args_slots n_predef argc = n_predef + (argc + EXCLUSIVE_ARGS)"

text \<open>
  From the check of the arguments to \<open>execv\<close>. The vector holds the predefined,
  the exclusive and the forwarded arguments and the final \<open>NULL\<close>.
\<close>

definition run_tool :: "br_config \<Rightarrow> system \<Rightarrow> string \<Rightarrow> string \<Rightarrow> string list \<Rightarrow> string list
    \<Rightarrow> string list \<Rightarrow> message list \<times> outcome" where
  "run_tool c sys prog path predef extra as =
     (case check_args prog (paranoid_wrapper sys) as of
        (warnings, True) \<Rightarrow> (warnings, Exit 1)
      | (warnings, False) \<Rightarrow>
          (let args = predef @ extra @ as;
               exec_args = (if br_ccache c \<and> env sys ''BR_NO_CCACHE'' \<noteq> None then tl args else args);
               trace = trace_exec c (debug_level sys) exec_args
           in if args_slots (length predef) (length as + 1) < length args + 1 then (warnings, Overrun)
              else case set_ccache_env c sys of
                (failed, None) \<Rightarrow> (warnings @ trace @ failed, Exit 3)
              | (_, Some e) \<Rightarrow>
                  if execv_ok sys (hd exec_args) exec_args
                  then (warnings @ trace, Execv (hd exec_args) exec_args e)
                  else (warnings @ trace @ [Perror path], Exit 2)))"

definition main :: "br_config \<Rightarrow> system \<Rightarrow> string \<Rightarrow> string list \<Rightarrow> message list \<times> outcome" where
  "main c sys progpath as =
     apfst (append (trace_call (debug_level sys) (progpath # as)))
     (case find_base sys progpath of
        Inl (m, status) \<Rightarrow> (m, Exit status)
      | Inr (prog, absbasedir) \<Rightarrow>
          (case fill_paths c absbasedir prog of
             None \<Rightarrow> ([Perror (file_macro @ '': overflow'')], Exit 3)
           | Some (ccache_path, path, sysroot) \<Rightarrow>
               (let predef = predef_args c ccache_path path sysroot
                in if \<not> malloc_ok sys (8 * args_slots (length predef) (length as + 1))
                   then ([Perror (file_macro @ '': malloc'')], Exit 2)
                   else case parse_source_date_epoch_from_env c sys prog of
                          Inl m \<Rightarrow> (m, Exit 1)
                        | Inr e \<Rightarrow> run_tool c sys prog path predef (exclusive_args c e as) as)))"

section \<open>Which paths are checked\<close>

text \<open>
  The paths the arguments give to the options, read from left to right: an option
  that stands alone takes the next argument. \<open>True\<close> is a path that is part of its
  argument.
\<close>

fun option_paths :: "string list \<Rightarrow> (string \<times> string \<times> bool) list" where
  "option_paths [] = []"
| "option_paths (a # as) =
     (if a \<in> set unsafe_opts
      then (case as of [] \<Rightarrow> [] | p # bs \<Rightarrow> (a, p, False) # option_paths bs)
      else map (\<lambda>opt. (a, drop (length opt) a, True)) (filter (\<lambda>opt. starts_with opt a) unsafe_opts)
           @ option_paths as)"

definition unsafe_path :: "string \<Rightarrow> bool" where
  "unsafe_path p \<longleftrightarrow> (\<exists>u \<in> set unsafe_paths. starts_with u p)"

definition unsafe_uses :: "string list \<Rightarrow> (string \<times> string \<times> bool) list" where
  "unsafe_uses as = filter (\<lambda>(a, p, has). unsafe_path p) (option_paths as)"

text \<open>No separate path looks like one of the options.\<close>

definition clear_paths :: "string list \<Rightarrow> bool" where
  "clear_paths as \<longleftrightarrow>
     (\<forall>(a, p, has) \<in> set (option_paths as). has \<or> (\<forall>opt \<in> set unsafe_opts. \<not> starts_with opt p))"

text \<open>The checks of a list of paths, one after the other.\<close>

definition report :: "string \<Rightarrow> bool \<Rightarrow> (string \<times> string \<times> bool) \<Rightarrow> message" where
  "report prog paranoid = (\<lambda>(a, p, has). Text (unsafe_message prog a p paranoid has))"

definition check_uses :: "string \<Rightarrow> bool \<Rightarrow> (string \<times> string \<times> bool) list \<Rightarrow> message list \<times> bool" where
  "check_uses prog paranoid us =
     (let bad = filter (\<lambda>(a, p, has). unsafe_path p) us
      in if paranoid then (map (report prog paranoid) (take 1 bad), bad \<noteq> [])
         else (map (report prog paranoid) bad, False))"

lemma starts_with_two: "starts_with p s \<Longrightarrow> starts_with q s \<Longrightarrow> starts_with p q \<or> starts_with q p"
  unfolding starts_with_def by (metis min.orderE nle_le take_all_iff take_take)

definition no_prefixes :: "string list \<Rightarrow> bool" where
  "no_prefixes ps \<longleftrightarrow> (\<forall>p \<in> set ps. \<forall>q \<in> set ps. starts_with p q \<longrightarrow> p = q)"

lemma no_prefixes_Cons: "no_prefixes (p # ps) \<Longrightarrow> no_prefixes ps"
  by (simp add: no_prefixes_def)

lemma unsafe_paths_no_prefixes: "no_prefixes unsafe_paths"
  by (simp add: no_prefixes_def unsafe_paths_def starts_with_def)

lemma unsafe_opts_no_prefixes: "no_prefixes unsafe_opts"
  by (simp add: no_prefixes_def unsafe_opts_def starts_with_def)

lemma check_unsafe_loop_none:
  "\<forall>u \<in> set ps. \<not> starts_with u path \<Longrightarrow> check_unsafe_loop prog arg path paranoid has ps = ([], False)"
  by (induction ps) simp_all

lemma check_unsafe_loop_found:
  "no_prefixes ps \<Longrightarrow> distinct ps \<Longrightarrow> u \<in> set ps \<Longrightarrow> starts_with u path \<Longrightarrow>
   check_unsafe_loop prog arg path paranoid has ps = ([Text (unsafe_message prog arg path paranoid has)], paranoid)"
proof (induction ps)
  case (Cons q qs)
  show ?case
  proof (cases "starts_with q path")
    case True
    with Cons.prems have "q = u"
      using starts_with_two unfolding no_prefixes_def by (metis list.set_intros(1))
    with Cons.prems have "\<forall>v \<in> set qs. \<not> starts_with v path"
      using starts_with_two unfolding no_prefixes_def
      by (metis distinct.simps(2) list.set_intros(1) list.set_intros(2))
    with True show ?thesis by (simp add: check_unsafe_loop_none Let_def)
  next
    case False
    with Cons show ?thesis using no_prefixes_Cons by auto
  qed
qed simp

lemma check_unsafe_path_uses: "check_unsafe_path prog a p paranoid has = check_uses prog paranoid [(a, p, has)]"
proof (cases "unsafe_path p")
  case True
  then obtain u where "u \<in> set unsafe_paths" "starts_with u p" by (auto simp: unsafe_path_def)
  moreover have "distinct unsafe_paths" by (simp add: unsafe_paths_def)
  ultimately show ?thesis
    using check_unsafe_loop_found [OF unsafe_paths_no_prefixes] True
    by (simp add: check_unsafe_path_def check_uses_def report_def Let_def)
next
  case False
  then show ?thesis
    by (simp add: check_unsafe_path_def check_uses_def unsafe_path_def check_unsafe_loop_none)
qed

lemma check_uses_append:
  "check_uses prog paranoid (us @ vs) =
     (let (m, ex) = check_uses prog paranoid us
      in if ex then (m, True) else apfst (append m) (check_uses prog paranoid vs))"
  by (cases "filter (\<lambda>(a, p, has). unsafe_path p) us") (auto simp: check_uses_def Let_def)

lemma check_uses_Nil [simp]: "check_uses prog paranoid [] = ([], False)"
  by (simp add: check_uses_def)

lemma check_opts_clear:
  "\<forall>opt \<in> set opts. \<not> starts_with opt p \<Longrightarrow> check_opts prog paranoid opts (p # r) = ([], False, p # r)"
  by (induction opts) simp_all

lemma check_opts_attached:
  "a \<notin> set opts \<Longrightarrow> check_opts prog paranoid opts (a # r) =
     (let (m, ex) = check_uses prog paranoid
            (map (\<lambda>opt. (a, drop (length opt) a, True)) (filter (\<lambda>opt. starts_with opt a) opts))
      in (m, ex, a # r))"
proof (induction opts)
  case (Cons opt opts)
  then have "starts_with opt a \<Longrightarrow> drop (length opt) a \<noteq> []"
    by (metis append_Nil2 append_take_drop_id list.set_intros(1) starts_with_def)
  moreover have "check_uses prog paranoid ((a, drop (length opt) a, True) # us) =
      (let (m, ex) = check_unsafe_path prog a (drop (length opt) a) paranoid True
       in if ex then (m, True) else apfst (append m) (check_uses prog paranoid us))" for us
    using check_uses_append [of prog paranoid "[(a, drop (length opt) a, True)]" us]
    by (simp add: check_unsafe_path_uses)
  ultimately show ?case
    using Cons by (cases "check_unsafe_path prog a (drop (length opt) a) paranoid True")
      (simp add: after_check_def Let_def split_beta)
qed simp

lemma check_opts_separate:
  "no_prefixes opts \<Longrightarrow> distinct opts \<Longrightarrow> a \<in> set opts \<Longrightarrow> \<forall>opt \<in> set opts. \<not> starts_with opt p \<Longrightarrow>
   check_opts prog paranoid opts (a # p # r) =
     (let (m, ex) = check_uses prog paranoid [(a, p, False)] in (m, ex, p # r))"
proof (induction opts)
  case (Cons opt opts)
  show ?case
  proof (cases "opt = a")
    case True
    then have "starts_with opt a" by (simp add: starts_with_def)
    with True Cons.prems show ?thesis
      by (auto simp: after_check_def check_unsafe_path_uses check_opts_clear Let_def split: prod.splits)
  next
    case False
    with Cons.prems have "\<not> starts_with opt a" by (auto simp: no_prefixes_def)
    with False Cons no_prefixes_Cons show ?thesis by auto
  qed
qed simp

lemma check_opts_last:
  "no_prefixes opts \<Longrightarrow> a \<in> set opts \<Longrightarrow> check_opts prog paranoid opts [a] = ([], False, [])"
proof (induction opts)
  case (Cons opt opts)
  then show ?case
    using no_prefixes_Cons by (cases "opt = a") (auto simp: starts_with_def no_prefixes_def)
qed simp

lemma clear_paths_tail:
  "clear_paths (a # as) \<Longrightarrow> a \<notin> set unsafe_opts \<Longrightarrow> clear_paths as"
  "clear_paths (a # p # as) \<Longrightarrow> a \<in> set unsafe_opts \<Longrightarrow> clear_paths as"
  by (auto simp: clear_paths_def)

lemma check_args_uses:
  "clear_paths as \<Longrightarrow> check_args prog paranoid as = check_uses prog paranoid (option_paths as)"
proof (induction as rule: option_paths.induct)
  case (2 a as)
  show ?case
  proof (cases "a \<in> set unsafe_opts")
    case True
    show ?thesis
    proof (cases as)
      case Nil
      with True show ?thesis by (simp add: check_opts_last [OF unsafe_opts_no_prefixes])
    next
      case (Cons p r)
      with True 2 clear_paths_tail(2)
      have "check_args prog paranoid r = check_uses prog paranoid (option_paths r)" by auto
      moreover have "\<forall>opt \<in> set unsafe_opts. \<not> starts_with opt p"
        using True Cons 2 by (auto simp: clear_paths_def)
      moreover have "distinct unsafe_opts" by (simp add: unsafe_opts_def)
      ultimately show ?thesis
        using True Cons check_uses_append [of prog paranoid "[(a, p, False)]" "option_paths r"]
        by (simp add: check_opts_separate [OF unsafe_opts_no_prefixes] Let_def split_beta)
    qed
  next
    case False
    with 2 clear_paths_tail(1)
    have "check_args prog paranoid as = check_uses prog paranoid (option_paths as)" by auto
    with False show ?thesis
      by (simp add: check_opts_attached check_uses_append Let_def split_beta)
  qed
qed simp

section \<open>How many arguments are added\<close>

text \<open>
  The build defines the two options of floating point for different architectures
  and one kind of relocation protection at a time.
\<close>

definition one_option_each :: "br_config \<Rightarrow> bool" where
  "one_option_each c \<longleftrightarrow>
     (br_float_abi c = None \<or> br_fp32_mode c = None) \<and> \<not> (br2_relro_partial c \<and> br2_relro_full c)"

lemma exclusive_lengths:
  "length (float_abi_args c as) \<le> (if br_float_abi c = None then 0 else 1)"
  "length (fp32_args c as) \<le> (if br_fp32_mode c = None then 0 else 1)"
  "length (arch_args c as) \<le> 2"
  "length (epoch_args e) \<le> 3"
  "length (pie_args c as) \<le> 2"
  "length (relro_args c as) \<le> (if br2_relro_partial c then 1 else 0) + (if br2_relro_full c then 2 else 0)"
  by (auto simp: float_abi_args_def fp32_args_def arch_args_def epoch_args_def pie_args_def relro_args_def
      with_prefix_def only_if_def split: option.splits)

lemma exclusive_args_length:
  assumes "one_option_each c"
  shows "length (exclusive_args c e as) \<le> EXCLUSIVE_ARGS"
proof -
  have "length (float_abi_args c as) + length (fp32_args c as) \<le> 1"
    using exclusive_lengths(1,2) [of c as] assms by (auto simp: one_option_each_def split: if_splits)
  moreover have "length (relro_args c as) \<le> 2"
    using exclusive_lengths(6) [of c as] assms by (auto simp: one_option_each_def split: if_splits)
  ultimately show ?thesis
    using exclusive_lengths(3,5) [of c as] exclusive_lengths(4) [of e]
    by (simp add: exclusive_args_def EXCLUSIVE_ARGS_def)
qed

lemma run_tool_Execv:
  assumes "snd (run_tool c sys prog path predef extra as) = Execv f args e"
  shows "snd (check_args prog (paranoid_wrapper sys) as) = False \<and>
    length (predef @ extra @ as) + 1 \<le> args_slots (length predef) (length as + 1) \<and>
    args = (if br_ccache c \<and> env sys ''BR_NO_CCACHE'' \<noteq> None then tl (predef @ extra @ as) else predef @ extra @ as) \<and>
    f = hd args"
  using assms by (auto simp: run_tool_def Let_def not_less split: prod.splits bool.splits if_splits option.splits)

lemma run_tool_no_overrun:
  "length extra \<le> EXCLUSIVE_ARGS \<Longrightarrow> snd (run_tool c sys prog path predef extra as) \<noteq> Overrun"
  by (simp add: run_tool_def args_slots_def Let_def split: prod.split bool.split option.split)

lemma main_no_overrun:
  assumes "one_option_each c"
  shows "snd (main c sys progpath as) \<noteq> Overrun"
  using run_tool_no_overrun [OF exclusive_args_length [OF assms]]
  by (simp add: main_def Let_def split: sum.split option.split prod.split)

lemma main_Execv:
  assumes "snd (main c sys progpath as) = Execv f args e"
  shows "\<exists>prog dir ccache_path path sysroot ep.
    find_base sys progpath = Inr (prog, dir) \<and> fill_paths c dir prog = Some (ccache_path, path, sysroot) \<and>
    parse_source_date_epoch_from_env c sys prog = Inr ep \<and>
    snd (run_tool c sys prog path (predef_args c ccache_path path sysroot) (exclusive_args c ep as) as) = Execv f args e"
  using assms by (auto simp: main_def Let_def split: sum.splits option.splits prod.splits if_splits)

section \<open>When the added arguments are left out\<close>

lemma add_fp32_mode_snoc:
  "add_fp32_mode b (as @ [a]) =
     (if a = ''-msoft-float'' then False else if a = ''-mhard-float'' then True else add_fp32_mode b as)"
  by (induction as arbitrary: b) simp_all

text \<open>The last of the two options decides.\<close>

definition soft_last :: "string list \<Rightarrow> bool" where
  "soft_last as \<longleftrightarrow>
     (let fs = filter (\<lambda>a. a = ''-msoft-float'' \<or> a = ''-mhard-float'') as
      in fs \<noteq> [] \<and> last fs = ''-msoft-float'')"

lemma soft_last_snoc:
  "soft_last (as @ [a]) \<longleftrightarrow> a = ''-msoft-float'' \<or> (a \<noteq> ''-mhard-float'' \<and> soft_last as)"
  by (auto simp: soft_last_def Let_def)

lemma add_fp32_mode_last: "add_fp32_mode True as \<longleftrightarrow> \<not> soft_last as"
proof (induction as rule: rev_induct)
  case Nil
  show ?case by (simp add: soft_last_def)
next
  case (snoc a as)
  then show ?case by (auto simp: add_fp32_mode_snoc soft_last_snoc)
qed

lemma pie_scan_iff:
  "pie_scan b as = (if list_ex pie_excluded as then None else Some (b \<or> ''-shared'' \<in> set as))"
  by (induction as arbitrary: b) auto

section \<open>The date fits its buffer\<close>

lemma show_nat_length_le: "length (show_nat 10 n) \<le> Suc k \<longleftrightarrow> n < 10 ^ Suc k"
proof (induction k arbitrary: n)
  case 0
  then show ?case
    using show_nat_dec [of "n div 10"] by (subst show_nat.simps) (auto simp: Suc_le_eq)
next
  case (Suc k)
  show ?case
  proof (cases "n < 10")
    case True
    have "(10::nat) \<le> 10 ^ Suc (Suc k)" by (simp add: power_increasing)
    with True have "n < 10 ^ Suc (Suc k)" by linarith
    with True show ?thesis by (subst show_nat.simps) simp
  next
    case False
    have "n < 10 ^ Suc (Suc k) \<longleftrightarrow> n div 10 < 10 ^ Suc k" by (simp add: div_less_iff_less_mult mult.commute)
    with False Suc.IH [of "n div 10"] show ?thesis by (subst show_nat.simps) simp
  qed
qed

text \<open>What the C library promises of the fields of a broken-down time.\<close>

definition tm_ok :: "tm \<Rightarrow> bool" where
  "tm_ok t \<longleftrightarrow> tm_sec t \<le> 60 \<and> tm_min t < 60 \<and> tm_hour t < 24 \<and>
     1 \<le> tm_mday t \<and> tm_mday t \<le> 31 \<and> tm_mon t < 12"

lemma two_digits_length:
  assumes "n < 100"
  shows "length (two_digits n) = 2"
proof (cases "n < 10")
  case True
  with show_nat_length_le [of n 0] show_nat_dec [of n]
  have "length (show_nat 10 n) = 1" by (cases "show_nat 10 n") auto
  with True show ?thesis by (simp add: two_digits_def)
next
  case False
  with assms show_nat_length_le [of n 0] show_nat_length_le [of n 1]
  have "length (show_nat 10 n) = 2" by simp
  with False show ?thesis by (simp add: two_digits_def)
qed

lemma format_time_length: "tm_ok t \<Longrightarrow> length (format_time t) = 8"
  by (simp add: format_time_def two_digits_length tm_ok_def)

lemma month_name_length: "m < 12 \<Longrightarrow> length (month_name m) = 3"
  unfolding month_name_def by (auto simp: less_Suc_eq numeral_eq_Suc)

lemma format_date_length:
  assumes "tm_ok t" "0 \<le> tm_year t + 1900"
  shows "length (format_date t) = 7 + length (show_nat 10 (nat (tm_year t + 1900)))"
proof -
  have "length ((if tm_mday t < 10 then '' '' else []) @ show_nat 10 (tm_mday t)) = 2"
    using two_digits_length [of "tm_mday t"] assms(1) by (auto simp: two_digits_def tm_ok_def split: if_splits)
  with assms show ?thesis by (simp add: format_date_def month_name_length tm_ok_def show_int_def)
qed

section \<open>Properties\<close>

text \<open>A build for ARM with ccache and hardening, and a system to run it on.\<close>

definition arm_config :: br_config where
  "arm_config = \<lparr> br_ccache = True, br_cross_path = Cross_bin, br_cross_path_suffix = ''.br_real'',
     br_sysroot = ''sysroot'', br_abi = Some ''aapcs-linux'', br_nan = None, br_fpu = Some ''neon'',
     br_softfloat = False, br_mode = Some ''arm'', br_64 = False, br_omit_lock_prefix = False,
     br_no_fused_madd = False, br_fp_contract_off = False, br_binfmt_flat = False,
     br_mips_little_endian = False, br_mips_big_endian = False, br_arc_big_endian = False,
     br_additional_cflags = [''-Os''], br_float_abi = Some ''hard'', br_fp32_mode = None,
     br_arch = None, br_cpu = Some ''cortex-a9'', br_need_source_date_epoch = True,
     br2_pic_pie = True, br2_relro_partial = False, br2_relro_full = True,
     br_ccache_hash = Some ''abc'', br_ccache_basedir = None \<rparr>"

definition sample_system :: "string \<Rightarrow> system" where
  "sample_system paranoid = \<lparr>
     env = [''SOURCE_DATE_EPOCH'' \<mapsto> ''0'', ''BR_COMPILER_PARANOID_UNSAFE_PATH'' \<mapsto> paranoid],
     malloc_ok = (\<lambda>n. True), realpath = (\<lambda>p. Some ''/host''), self_exe = Some ''/host/bin/gcc'',
     localtime_r = (\<lambda>t. Some \<lparr> tm_sec = 0, tm_min = 0, tm_hour = 0, tm_mday = 1, tm_mon = 0, tm_year = 70 \<rparr>),
     setenv_ok = (\<lambda>n. True), execv_ok = (\<lambda>f args. True) \<rparr>"


definition sample_args :: "string list" where
  "sample_args = [''-L'', ''/usr/lib/x'', ''-c'', ''-I/opt/include'', ''-isystem/usr/include'']"

lemma sample_args_clear: "clear_paths sample_args"
  by (simp add: clear_paths_def sample_args_def unsafe_opts_def starts_with_def)



lemma arm_options: "one_option_each arm_config"
  by (simp add: one_option_each_def arm_config_def)

definition executed :: "outcome \<Rightarrow> (string \<times> string list) option" where
  "executed r = (case r of Execv f args e \<Rightarrow> Some (f, args) | _ \<Rightarrow> None)"

lemma sample_run:
  "executed (snd (main arm_config (sample_system ''1'') ''/host/bin/arm-gcc'' [''-c'', ''a.c''])) =
     Some (''/host/bin/ccache'',
       [''/host/bin/ccache'', ''/host/bin/arm-gcc.br_real'', ''--sysroot'', ''/host/sysroot'', ''-mabi=aapcs-linux'',
        ''-mfpu=neon'', ''-marm'', ''-Os'', ''-mfloat-abi=hard'', ''-mcpu=cortex-a9'',
        ''-D__TIME__='' @ dquoted ''00:00:00'', ''-D__DATE__='' @ dquoted ''Jan  1 1970'',
        ''-Wno-builtin-macro-redefined'', ''-fPIE'', ''-pie'', ''-Wl,-z,now'', ''-Wl,-z,relro'', ''-c'', ''a.c''])"
  by code_simp


text \<open>
  The added arguments do not contradict the caller's: no float ABI where the
  caller gives one, the FP32 mode unless the last of \<open>-msoft-float\<close> and
  \<open>-mhard-float\<close> is soft, no CPU where the caller names an architecture or a CPU,
  \<open>-pie\<close> only in a hardened build for a program that is neither shared, static, partial
  nor a kernel, \<open>-fPIE\<close> only without another \<open>-fpic\<close>, and no relocation protection
  for kernels.
\<close>

theorem added_args_agree:
  "(float_abi_args c as \<noteq> [] \<longleftrightarrow> br_float_abi c \<noteq> None \<and> (\<forall>a \<in> set as. \<not> float_abi_given a)) \<and>
   (fp32_args c as \<noteq> [] \<longleftrightarrow> br_fp32_mode c \<noteq> None \<and> \<not> soft_last as) \<and>
   (arch_args c as \<noteq> [] \<longleftrightarrow> (br_arch c \<noteq> None \<or> br_cpu c \<noteq> None) \<and> (\<forall>a \<in> set as. \<not> arch_given a)) \<and>
   (''-pie'' \<in> set (pie_args c as) \<longleftrightarrow>
      br2_pic_pie c \<and> ''-shared'' \<notin> set as \<and> (\<forall>a \<in> set as. \<not> pie_excluded a)) \<and>
   (''-fPIE'' \<in> set (pie_args c as) \<longleftrightarrow>
      br2_pic_pie c \<and> (\<forall>a \<in> set as. \<not> pie_excluded a \<and> a \<notin> {''-fpie'', ''-fPIE'', ''-fpic'', ''-fPIC''})) \<and>
   (relro_args c as \<noteq> [] \<longleftrightarrow>
      (br2_relro_partial c \<or> br2_relro_full c) \<and> ''-D__KERNEL__'' \<notin> set as \<and> ''-D__UBOOT__'' \<notin> set as)"
proof (intro conjI)
  show "''-pie'' \<in> set (pie_args c as) \<longleftrightarrow>
      br2_pic_pie c \<and> ''-shared'' \<notin> set as \<and> (\<forall>a \<in> set as. \<not> pie_excluded a)"
    by (auto simp: pie_args_def pie_scan_iff only_if_def list_ex_iff)
  show "''-fPIE'' \<in> set (pie_args c as) \<longleftrightarrow>
      br2_pic_pie c \<and> (\<forall>a \<in> set as. \<not> pie_excluded a \<and> a \<notin> {''-fpie'', ''-fPIE'', ''-fpic'', ''-fPIC''})"
    by (auto simp: pie_args_def pie_scan_iff only_if_def list_ex_iff)
qed (auto simp: float_abi_args_def fp32_args_def arch_args_def relro_args_def with_prefix_def only_if_def
    add_fp32_mode_last list_ex_iff split: option.splits)

theorem added_args_agree_witness:
  "''-pie'' \<in> set (pie_args arm_config sample_args) \<and> relro_args arm_config sample_args \<noteq> [] \<and>
   float_abi_args arm_config [''-msoft-float''] = []"
  using added_args_agree [of arm_config sample_args] added_args_agree [of arm_config "[''-msoft-float'']"]
  by (simp add: arm_config_def sample_args_def pie_excluded_def float_abi_given_def)

text \<open>The date of a valid \<open>SOURCE_DATE_EPOCH\<close>.\<close>

definition epoch_date :: "system \<Rightarrow> string \<Rightarrow> tm option" where
  "epoch_date sys s =
     (case strtoll s 10 of (epoch, endptr, errno) \<Rightarrow>
        if errno \<or> endptr \<noteq> [] \<or> s = [] \<or> epoch < 0 then None else localtime_r sys epoch)"

definition epoch_accepted :: "system \<Rightarrow> string \<Rightarrow> bool" where
  "epoch_accepted sys s = (case epoch_date sys s of Some t \<Rightarrow> tm_year t + 1900 \<le> 9999 | None \<Rightarrow> False)"

definition epoch_macros :: "tm \<Rightarrow> string \<times> string" where
  "epoch_macros t =
     (''-D__TIME__='' @ dquoted (format_time t), ''-D__DATE__='' @ dquoted (format_date t))"

lemma epoch_buffers:
  assumes "tm_ok t" "1000 \<le> tm_year t + 1900"
  shows "strftime sizeof_time (fst (epoch_macros t)) = Some (fst (epoch_macros t)) \<and>
    strftime sizeof_date (snd (epoch_macros t)) =
      (if tm_year t + 1900 \<le> 9999 then Some (snd (epoch_macros t)) else None)"
proof -
  let ?y = "nat (tm_year t + 1900)"
  have "length (show_nat 10 ?y) \<le> 4 \<longleftrightarrow> tm_year t + 1900 \<le> 9999"
    using show_nat_length_le [of ?y 3] assms(2) by auto
  with assms show ?thesis
    by (simp add: strftime_def sizeof_time_def sizeof_date_def epoch_macros_def dquoted_def
        format_time_length format_date_length)
qed

lemma parse_epoch:
  assumes "br_need_source_date_epoch c" "env sys ''SOURCE_DATE_EPOCH'' = Some s"
    "\<And>t. epoch_date sys s = Some t \<Longrightarrow> tm_ok t \<and> 1000 \<le> tm_year t + 1900"
  shows "if epoch_accepted sys s
    then parse_source_date_epoch_from_env c sys prog = Inr (Some (epoch_macros (the (epoch_date sys s))))
    else \<exists>m. parse_source_date_epoch_from_env c sys prog = Inl m"
proof (cases "epoch_date sys s")
  case None
  then show ?thesis using assms(1,2)
    by (auto simp: epoch_accepted_def epoch_date_def parse_source_date_epoch_from_env_def
        split: prod.splits if_splits option.splits)
next
  case (Some t)
  with assms(3) have "tm_ok t" "1000 \<le> tm_year t + 1900" by auto
  from epoch_buffers [OF this] Some assms(1,2) show ?thesis
    by (auto simp: epoch_accepted_def epoch_date_def parse_source_date_epoch_from_env_def epoch_macros_def
        split: prod.splits if_splits)
qed

text \<open>
  C21: When the compiler needs it, \<open>SOURCE_DATE_EPOCH\<close> is accepted just when it is a
  number from 0 of a time the C library knows, up to the year 9999, and then the two
  macros hold its time and date, in buffers they fit in; with a value that is not
  accepted the wrapper never executes the compiler.
\<close>

theorem source_date_epoch:
  assumes "br_need_source_date_epoch c" "env sys ''SOURCE_DATE_EPOCH'' = Some s"
    "\<And>t. epoch_date sys s = Some t \<Longrightarrow> tm_ok t \<and> 1000 \<le> tm_year t + 1900"
  shows "if epoch_accepted sys s
    then parse_source_date_epoch_from_env c sys prog = Inr (Some (epoch_macros (the (epoch_date sys s))))
    else \<forall>f args e. snd (main c sys progpath as) \<noteq> Execv f args e"
proof (cases "epoch_accepted sys s")
  case True
  with parse_epoch [OF assms, of prog] show ?thesis by simp
next
  case False
  have "snd (main c sys progpath as) \<noteq> Execv f args e" for f args e
  proof
    assume "snd (main c sys progpath as) = Execv f args e"
    from main_Execv [OF this] False parse_epoch [OF assms] show False by (metis sum.distinct(1))
  qed
  with False show ?thesis by simp
qed

lemma sample_epoch_date:
  "epoch_date (sample_system p) ''0'' =
     Some \<lparr> tm_sec = 0, tm_min = 0, tm_hour = 0, tm_mday = 1, tm_mon = 0, tm_year = 70 \<rparr>"
proof -
  have "strtoll ''0'' 10 = (0, [], False)" by code_simp
  then show ?thesis by (simp add: epoch_date_def sample_system_def)
qed

theorem source_date_epoch_witness:
  "parse_source_date_epoch_from_env arm_config (sample_system ''1'') ''gcc'' =
     Inr (Some (''-D__TIME__='' @ dquoted ''00:00:00'', ''-D__DATE__='' @ dquoted ''Jan  1 1970''))"
proof -
  have macros: "epoch_macros \<lparr> tm_sec = 0, tm_min = 0, tm_hour = 0, tm_mday = 1, tm_mon = 0, tm_year = 70 \<rparr> =
      (''-D__TIME__='' @ dquoted ''00:00:00'', ''-D__DATE__='' @ dquoted ''Jan  1 1970'')"
    by code_simp
  have "epoch_accepted (sample_system ''1'') ''0''"
    by (simp add: epoch_accepted_def sample_epoch_date)
  with source_date_epoch [of arm_config "sample_system ''1''" "''0''" "''gcc''"] macros
  show ?thesis
    by (simp add: sample_epoch_date tm_ok_def) (simp add: arm_config_def sample_system_def)
qed

end
