(* ===== verification/Symbol_Write.thy ===== *)
theory Symbol_Write
  imports Symbol_Props
begin

text \<open>
  \<open>SYMBOL_WRITE\<close>, the mark of the symbols that belong into a configuration: once a
  symbol is calculated, the calculation of others leaves its mark alone. Only the
  values of a choice are marked again, together with their choice.
\<close>

definition quiet :: "symref set \<Rightarrow> kstate \<Rightarrow> kstate \<Rightarrow> bool" where
  "quiet X K K' \<longleftrightarrow> (\<forall>t. static (k_tab K' t) = static (k_tab K t)) \<and>
     (\<forall>t. has_flag SYMBOL_NEED_SET_CHOICE_VALUES t K' \<longrightarrow> has_flag SYMBOL_NEED_SET_CHOICE_VALUES t K) \<and>
     (\<forall>t. has_flag SYMBOL_VALID t K \<longrightarrow> has_flag SYMBOL_VALID t K' \<and>
        (t \<notin> X \<longrightarrow> \<not> sym_is_choice_value K t \<longrightarrow> has_flag SYMBOL_WRITE t K' = has_flag SYMBOL_WRITE t K))"

lemma quiet_static: "quiet X K K' \<Longrightarrow> static (k_tab K' t) = static (k_tab K t)"
  by (simp add: quiet_def)

lemma quiet_flag: "quiet X K K' \<Longrightarrow> fl \<notin> dynamic_flags \<Longrightarrow> has_flag fl t K' = has_flag fl t K"
  using static_flags [OF quiet_static] by (simp add: has_flag_def)

lemma quiet_choice:
  "quiet X K K' \<Longrightarrow> sym_is_choice_value K' t = sym_is_choice_value K t"
  "quiet X K K' \<Longrightarrow> sym_is_choice K' t = sym_is_choice K t"
  using quiet_flag by (simp_all add: sym_is_choice_value_def sym_is_choice_def dynamic_flags_def)

lemma quiet_refl [simp]: "quiet X K K"
  by (simp add: quiet_def)

lemma quiet_trans [trans]: "quiet X K K1 \<Longrightarrow> quiet X K1 K2 \<Longrightarrow> quiet X K K2"
  using quiet_choice(1) [of X K K1] by (auto simp: quiet_def)

lemma quiet_mono: "quiet {} K K' \<Longrightarrow> quiet X K K'"
  by (auto simp: quiet_def)

lemma quiet_closed: "quiet {s} K K' \<Longrightarrow> \<not> has_flag SYMBOL_VALID s K \<Longrightarrow> quiet {} K K'"
  by (auto simp: quiet_def)

lemma quiet_upd:
  assumes "static (f (k_tab K s)) = static (k_tab K s)"
    "SYMBOL_NEED_SET_CHOICE_VALUES \<in> s_flags (f (k_tab K s)) \<Longrightarrow> has_flag SYMBOL_NEED_SET_CHOICE_VALUES s K"
    "has_flag SYMBOL_VALID s K \<Longrightarrow> SYMBOL_VALID \<in> s_flags (f (k_tab K s)) \<and>
       (s \<notin> X \<longrightarrow> \<not> sym_is_choice_value K s \<longrightarrow> (SYMBOL_WRITE \<in> s_flags (f (k_tab K s)) \<longleftrightarrow> has_flag SYMBOL_WRITE s K))"
  shows "quiet X K (upd_sym s f K)"
  using assms by (auto simp: quiet_def k_tab_upd has_flag_def)

lemma quiet_set:
  "fl \<in> dynamic_flags - {SYMBOL_NEED_SET_CHOICE_VALUES} \<Longrightarrow>
     s \<in> X \<or> fl \<noteq> SYMBOL_WRITE \<or> sym_is_choice_value K s \<Longrightarrow> quiet X K (set_flag fl s K)"
  unfolding set_flag_def by (rule quiet_upd) (auto simp: static_flag has_flag_def)

lemma quiet_clear:
  "fl \<in> dynamic_flags - {SYMBOL_VALID} \<Longrightarrow> s \<in> X \<or> fl \<noteq> SYMBOL_WRITE \<Longrightarrow> quiet X K (clear_flag fl s K)"
  unfolding clear_flag_def by (rule quiet_upd) (auto simp: static_flag has_flag_def)

lemma quiet_visible_tri [simp]: "quiet X K (set_visible_tri s i t K)"
  unfolding set_visible_tri_def by (rule quiet_upd) (auto simp: static_vis has_flag_def)

lemma quiet_menu [simp]: "quiet X K (K'\<lparr>k_menu_changed := m\<rparr>) = quiet X K K'"
  "quiet X K (K'\<lparr>k_modules_val := v\<rparr>) = quiet X K K'"
  by (simp_all add: quiet_def has_flag_def)

lemma quiet_changed [simp]: "quiet X K (sym_set_changed s K)"
  by (simp add: sym_set_changed_def quiet_set dynamic_flags_def)

lemma quiet_fold: "(\<And>x K1. x \<in> set xs \<Longrightarrow> quiet X K K1 \<Longrightarrow> quiet X K1 (f x K1)) \<Longrightarrow> quiet X K (fold f xs K)"
proof (induction xs arbitrary: K)
  case (Cons x xs)
  have 1: "quiet X K (f x K)" using Cons.prems by simp
  have "quiet X (f x K) (fold f xs (f x K))"
    by (rule Cons.IH) (use Cons.prems quiet_trans [OF 1] in auto)
  from quiet_trans [OF 1 this] show ?case by simp
qed simp

lemma quiet_all_changed [simp]: "quiet X K (sym_set_all_changed K)"
  by (simp add: sym_set_all_changed_def quiet_fold)

lemma quiet_curr [simp]: "quiet X K (set_curr s v K)" "quiet X K (set_curr_val s c K)"
  "quiet X K (upd_sym s (\<lambda>r. r\<lparr>s_curr := g r\<rparr>) K)" "quiet X K (upd_sym s (\<lambda>r. r\<lparr>s_def_user := h r\<rparr>) K)"
  unfolding set_curr_def set_curr_val_def
  by (rule quiet_upd; auto simp: static_def has_flag_def)+

lemma quiet_update_tri: "tri_field get upd \<Longrightarrow> quiet X K (update_tri get upd s t K)"
proof -
  assume "tri_field get upd"
  then have "quiet X K (upd_sym s (upd (\<lambda>_. t)) K)"
    by (intro quiet_upd) (auto simp: tri_field_def static_def has_flag_def)
  then show ?thesis by (auto simp: update_tri_def intro: quiet_trans)
qed

section \<open>Calculations are quiet\<close>

definition calm :: "symref set \<Rightarrow> kstate \<Rightarrow> ('a \<times> kstate) option \<Rightarrow> bool" where
  "calm X K r \<longleftrightarrow> (\<forall>x K'. r = Some (x, K') \<longrightarrow> quiet X K K')"

lemma calm_simps [simp]: "calm X K None" "calm X K (Some (x, K')) = quiet X K K'"
  by (simp_all add: calm_def)

lemma calm_bind:
  "calm X K r \<Longrightarrow> (\<And>x K1. quiet X K K1 \<Longrightarrow> calm X K1 (f (x, K1))) \<Longrightarrow> calm X K (Option.bind r f)"
  using quiet_trans by (cases r) (fastforce simp: calm_def)+

lemma calm_bind0: "(\<And>x. calm X K (f x)) \<Longrightarrow> calm X K (Option.bind r f)"
  by (cases r) simp_all

lemma calm_step: "quiet X K K1 \<Longrightarrow> calm X K1 r \<Longrightarrow> calm X K r"
  using quiet_trans by (fastforce simp: calm_def)

definition tab_wf :: "kstate \<Rightarrow> bool" where
  "tab_wf K \<longleftrightarrow> (\<forall>u. symbol_wf (k_tab K) (k_tab K u))"

definition calm_calc :: "calc \<Rightarrow> bool" where
  "calm_calc calc \<longleftrightarrow> (\<forall>t K. tab_wf K \<longrightarrow> calm {} K (calc t K))"

lemma quiet_wf: "quiet X K K' \<Longrightarrow> tab_wf K \<Longrightarrow> tab_wf K'"
  by (auto simp: quiet_def tab_wf_def intro: symbol_wf_static)

lemma calm_calc: "calm_calc calc \<Longrightarrow> tab_wf K \<Longrightarrow> calm X K (calc t K)"
  by (auto simp: calm_calc_def calm_def intro: quiet_mono)

lemma cbind:
  assumes "tab_wf K" "calm X K r" "\<And>x K1. quiet X K K1 \<Longrightarrow> tab_wf K1 \<Longrightarrow> calm X K1 (f (x, K1))"
  shows "calm X K (Option.bind r f)"
  by (rule calm_bind) (use assms quiet_wf in blast)+

lemma calm_string: "calm_calc calc \<Longrightarrow> tab_wf K \<Longrightarrow> calm X K (get_string_value calc s K)"
  unfolding get_string_value_def by (auto intro!: cbind calm_calc split: tristate.split)

lemma calm_expr: "calm_calc calc \<Longrightarrow> tab_wf K \<Longrightarrow> calm X K (calc_expr calc e K)"
proof (induction e arbitrary: K)
  case (Ecmp c a b)
  then show ?case by (auto intro!: cbind calm_calc calm_string)
qed (auto intro!: cbind calm_calc)

lemma calm_opt: "calm_calc calc \<Longrightarrow> tab_wf K \<Longrightarrow> calm X K (calc_opt calc e K)"
  by (cases e) (auto simp: calm_expr)

lemma calm_opt_no: "calm_calc calc \<Longrightarrow> tab_wf K \<Longrightarrow> calm X K (calc_opt_no calc e K)"
  by (cases e) (auto simp: calc_opt_no_def calm_expr)

lemma calm_vis: "tab_wf K \<Longrightarrow> (\<And>K1. tab_wf K1 \<Longrightarrow> calm X K1 (f K1)) \<Longrightarrow> calm X K (f (set_visible_tri s i t K))"
  using calm_step [OF quiet_visible_tri] quiet_wf [OF quiet_visible_tri] by metis

lemma calm_first_prop: "calm_calc calc \<Longrightarrow> tab_wf K \<Longrightarrow> calm X K (first_prop calc ty s ps K)"
proof (induction ps arbitrary: K)
  case (Cons ip ps)
  obtain i p where ip: "ip = (i, p)" by (cases ip)
  note IH = Cons.IH [OF Cons.prems(1)]
  have "calm X K1 (first_prop calc ty s ps (set_visible_tri s i t K1))" if "tab_wf K1" for t K1
    by (rule calm_vis [OF that]) (rule IH)
  then show ?case
    unfolding ip first_prop.simps
    using Cons.prems IH by (auto intro!: cbind calm_opt)
qed simp

lemma calm_prompts: "calm_calc calc \<Longrightarrow> tab_wf K \<Longrightarrow> calm X K (calc_prompts calc s c ps t K)"
proof (induction ps arbitrary: t K)
  case (Cons ip ps)
  obtain i p where ip: "ip = (i, p)" by (cases ip)
  note IH = Cons.IH [OF Cons.prems(1)]
  have "calm X K1 (calc_prompts calc s c ps t' (set_visible_tri s i t K1))" if "tab_wf K1" for t t' K1
    by (rule calm_vis [OF that]) (rule IH)
  then show ?case
    unfolding ip calc_prompts.simps Let_def
    using Cons.prems IH by (auto intro!: cbind calm_opt)
qed simp

lemma calm_field:
  "tri_field get upd \<Longrightarrow> tab_wf K \<Longrightarrow> calm X K (eval K) \<Longrightarrow> calm X K (calc_field get upd eval s K)"
  unfolding calc_field_def by (rule cbind) (auto simp: quiet_update_tri)

lemma calm_dependencies: "calm_calc calc \<Longrightarrow> tab_wf K \<Longrightarrow> calm X K (calc_dependencies calc s K)"
proof -
  assume c: "calm_calc calc" and K: "tab_wf K"
  have 1: "calm X K1 (calc_field s_dir_tri s_dir_tri_update (\<lambda>K. calc_opt calc (s_dir_dep (k_tab K s)) K) s K1)"
    if "tab_wf K1" for K1
    by (rule calm_field [OF _ that]) (simp_all add: tri_field_def calm_opt [OF c that])
  have 2: "calm X K1 (calc_field s_rev_tri s_rev_tri_update (\<lambda>K. calc_opt_no calc (s_rev_dep (k_tab K s)) K) s K1)"
    if "tab_wf K1" for K1
    by (rule calm_field [OF _ that]) (simp_all add: tri_field_def calm_opt_no [OF c that])
  have 3: "calm X K1 (calc_field s_impl_tri s_impl_tri_update
       (\<lambda>K. if s_dir_tri (k_tab K s) \<noteq> tri_no then calc_opt_no calc (s_implied (k_tab K s)) K
            else Some (tri_no, K)) s K1)" if "tab_wf K1" for K1
    by (rule calm_field [OF _ that]) (simp_all add: tri_field_def calm_opt_no [OF c that])
  show ?thesis
    unfolding calc_dependencies_def
    by (rule cbind [OF K 1 [OF K]], simp, rule cbind [OF _ 2], simp_all add: 3)
qed

lemma calm_visibility: "calm_calc calc \<Longrightarrow> tab_wf K \<Longrightarrow> calm X K (sym_calc_visibility calc s K)"
proof -
  assume c: "calm_calc calc" and K: "tab_wf K"
  have fin: "calm X K1 (finish_visibility calc s t K1)" if "tab_wf K1" for t K1
  proof -
    define t' where "t' = (if t = tri_mod \<and> (s_type (k_tab K1 s) \<noteq> S_TRISTATE \<or> k_modules_val K1 = tri_no)
      then tri_yes else t)"
    define K2 where "K2 = update_tri s_visible s_visible_update s t' K1"
    have q: "quiet X K1 K2" unfolding K2_def by (rule quiet_update_tri) (simp add: tri_field_def)
    have "calm X K2 (if sym_is_choice_value K2 s then Some ((), K2) else calc_dependencies calc s K2)"
      using calm_dependencies [OF c quiet_wf [OF q that]] by simp
    from calm_step [OF q this] show ?thesis
      by (simp only: finish_visibility_def Let_def K2_def t'_def)
  qed
  show ?thesis
    unfolding sym_calc_visibility_def
    by (rule calm_bind0, rule cbind [OF K calm_prompts [OF c K]]) (simp add: fin)
qed

lemma calm_choice_default: "calm_calc calc \<Longrightarrow> tab_wf K \<Longrightarrow> calm X K (sym_choice_default calc s K)"
proof -
  assume c: "calm_calc calc" and K: "tab_wf K"
  have "calm X K (default_choice calc s ps K)" if "tab_wf K" for ps K
    using that
  proof (induction ps arbitrary: K)
    case (Cons ip ps)
    obtain i p where ip: "ip = (i, p)" by (cases ip)
    have "calm X K1 (default_choice calc s ps (set_visible_tri s i t K1))" if "tab_wf K1" for t K1
      by (rule calm_vis [OF that]) (rule Cons.IH)
    then show ?case
      unfolding ip default_choice.simps Let_def
      using Cons c by (auto intro!: cbind calm_opt split: option.split)
  qed simp
  note d = this
  show ?thesis
    unfolding sym_choice_default_def
    by (rule cbind [OF K d [OF K]]) (auto intro: calm_bind0 split: option.split)
qed

lemma calm_calc_choice:
  "calm_calc calc \<Longrightarrow> tab_wf K \<Longrightarrow> calm X K (sym_calc_choice calc s K)"
proof -
  assume c: "calm_calc calc" and K: "tab_wf K"
  have v: "calm X K (calc_values calc vs f K)" if "tab_wf K" for vs f K
    using that
  proof (induction vs arbitrary: f K)
    case (Cons v vs)
    show ?case
      unfolding calc_values.simps
      by (rule cbind [OF Cons.prems calm_visibility [OF c Cons.prems]]) (simp add: Cons.IH)
  qed simp
  have d: "calm X K1 (calc_default_of calc s K1)" if "tab_wf K1" for K1
    unfolding calc_default_of_def by (rule cbind [OF that calm_choice_default [OF c that]]) simp
  have p: "calm X K1 (pick_choice calc s K1)" if "tab_wf K1" for K1
    unfolding pick_choice_def using d [OF that] by (simp split: cval.split)
  have u: "quiet X K1 (clear_flag SYMBOL_DEF_USER s K1)" for K1
    by (rule quiet_clear) (simp_all add: dynamic_flags_def)
  have pu: "calm X K1 (pick_choice calc s (if f then K1 else clear_flag SYMBOL_DEF_USER s K1))" if "tab_wf K1" for f K1
    using calm_step [OF u p [OF quiet_wf [OF u that]]] p [OF that] by simp
  show ?thesis
    unfolding sym_calc_choice_def
    by (rule calm_bind0, rule cbind [OF K v [OF K]]) (simp add: pu)
qed

section \<open>\<open>sym_calc_value\<close>\<close>

lemma calm_range_val: "calm_calc calc \<Longrightarrow> tab_wf K \<Longrightarrow> calm X K (sym_get_range_val calc s b K)"
  unfolding sym_get_range_val_def by (rule cbind) (auto intro: calm_calc)

lemma calm_validate: "calm_calc calc \<Longrightarrow> tab_wf K \<Longrightarrow> calm X K (sym_validate_range calc s K)"
proof -
  assume c: "calm_calc calc" and K: "tab_wf K"
  have r: "calm X K1 (clamp_range calc s ty lo hi K1)" if "tab_wf K1" for ty lo hi K1
  proof -
    let ?v = "fst (strtoll (cstr (sv_val (s_curr (k_tab K1 s)))) (range_base ty 0))"
    have hi: "calm X K2 (do {
           (val3, K3) \<leftarrow> sym_get_range_val calc hi (range_base ty 0) K2;
           Some ((), if ?v \<le> val3 then K3 else set_curr_val s (CStr (show_bound ty val3)) K3) })"
      if "tab_wf K2" for K2
      by (rule cbind [OF that calm_range_val [OF c that]]) simp
    show ?thesis
      unfolding clamp_range_def Let_def
      by (rule cbind [OF that calm_range_val [OF c that]]) (simp add: hi)
  qed
  have "calm X K (do {
        (p, K1) \<leftarrow> sym_get_range_prop calc s K;
        case p of None \<Rightarrow> Some ((), K1)
        | Some prop \<Rightarrow>
            (case p_expr prop of Some (Erange lo hi) \<Rightarrow> clamp_range calc s ty lo hi K1 | _ \<Rightarrow> None) })" for ty
    unfolding sym_get_range_prop_def
    by (rule cbind [OF K calm_first_prop [OF c K]]) (simp add: r split: option.split expr.split)
  then show ?thesis by (simp add: sym_validate_range_def Let_def)
qed

lemma quiet_write: "s \<in> X \<Longrightarrow> quiet X K (set_flag SYMBOL_WRITE s K)" "s \<in> X \<Longrightarrow> quiet X K (clear_flag SYMBOL_WRITE s K)"
  by (auto intro!: quiet_set quiet_clear simp: dynamic_flags_def)

lemma calm_new_value: "calm_calc calc \<Longrightarrow> tab_wf K \<Longrightarrow> s \<in> X \<Longrightarrow> calm X K (calc_new_value calc s v K)"
proof -
  assume c: "calm_calc calc" and K: "tab_wf K" and s: "s \<in> X"
  have v: "calm X K1 (do { (v, K2) \<leftarrow> calc_opt calc e K1;
         let t = EXPR_AND v u;
         Some (t, if t \<noteq> tri_no then set_flag SYMBOL_WRITE s K2 else K2) })" if "tab_wf K1" for e u K1
    by (rule cbind [OF that calm_opt [OF c that]]) (simp add: Let_def quiet_write s)
  have d: "calm X K1 (default_tri calc s K1)" if "tab_wf K1" for K1
    unfolding default_tri_def sym_get_default_prop_def
    by (rule cbind [OF that calm_first_prop [OF c that]]) (simp add: v split: option.split)
  have d': "calm X K1 (calc_default_tri calc s K1)" if "tab_wf K1" for K1
  proof -
    define K0 where "K0 = (if s_rev_tri (k_tab K1 s) \<noteq> tri_no then set_flag SYMBOL_WRITE s K1 else K1)"
    have q: "quiet X K1 K0" by (simp add: K0_def quiet_write s)
    have "calm X K0 (do { (t, K1) \<leftarrow> default_tri calc s K0; Some (add_implied s t K1) })"
      by (rule cbind [OF quiet_wf [OF q that] d [OF quiet_wf [OF q that]]]) (simp add: add_implied_def quiet_write s)
    from calm_step [OF q this] q show ?thesis by (simp add: calc_default_tri_def Let_def K0_def [symmetric])
  qed
  have "calm X K1 (do { (t, K2) \<leftarrow> calc_default_tri calc s K1; Some (fix_mod K2 s (apply_select K2 s t), K2) })"
    if "tab_wf K1" for K1
    by (rule cbind [OF that d' [OF that]]) simp
  then have t: "calm X K1 (calc_tristate calc s K1)" if "tab_wf K1" for K1
    using that by (simp add: calc_tristate_def Let_def split: option.split)
  have call: "calm X K1 (do { (_, K2) \<leftarrow> calc ds (set_flag SYMBOL_WRITE s K1);
      Some (sv_val (s_curr (k_tab K2 ds)), K2) })" if "tab_wf K1" for ds K1
    by (rule calm_step [OF quiet_write(1) [OF s]],
        rule cbind [OF quiet_wf [OF quiet_write(1) [OF s] that] calm_calc [OF c quiet_wf [OF quiet_write(1) [OF s] that]]]) simp
  have "calm X K1 (do {
        (p, K1) \<leftarrow> sym_get_default_prop calc s K1;
        case p of None \<Rightarrow> Some (d, K1)
        | Some prop \<Rightarrow>
            (case prop_get_symbol prop of None \<Rightarrow> Some (d, K1)
             | Some ds \<Rightarrow> do {
                 (_, K2) \<leftarrow> calc ds (set_flag SYMBOL_WRITE s K1);
                 Some (sv_val (s_curr (k_tab K2 ds)), K2) }) })" if "tab_wf K1" for d K1
    unfolding sym_get_default_prop_def
    by (rule cbind [OF that calm_first_prop [OF c that]]) (simp add: call split: option.split)
  then have str: "calm X K1 (calc_string calc s d K1)" if "tab_wf K1" for d K1
    using that by (simp add: calc_string_def)
  have "calm X K (do { (t, K1) \<leftarrow> calc_tristate calc s K; Some ((), set_curr s (v\<lparr>sv_tri := t\<rparr>) K1) })"
    by (rule cbind [OF K t [OF K]]) simp
  moreover have "calm X K (do { (u, K1) \<leftarrow> calc_string calc s (sv_val v) K;
      Some ((), set_curr s (v\<lparr>sv_val := u\<rparr>) K1) })"
    by (rule cbind [OF K str [OF K]]) simp
  ultimately show ?thesis by (simp add: calc_new_value_def Let_def)
qed

lemma calm_touch:
  assumes "tab_wf K" "sym_is_choice K s"
  shows "calm X K (touch_values s K)"
proof (cases "sym_get_choice_prop K s")
  case (Some p)
  have "\<forall>v \<in> set (list_syms (p_expr p)). sym_is_choice_value K v"
    using assms Some unfolding tab_wf_def symbol_wf_def sym_is_choice_def has_flag_def sym_is_choice_value_def
    by (auto simp: choice_expr_def sym_get_choice_prop_def)
  then have "quiet X K1 (let K2 = (if has_flag SYMBOL_WRITE s K1 \<and> s_visible (k_tab K1 v) \<noteq> tri_no
                   then set_flag SYMBOL_WRITE v K1 else K1)
         in if has_flag SYMBOL_CHANGED s K2 then sym_set_changed v K2 else K2)"
    if "v \<in> set (list_syms (p_expr p))" "quiet X K K1" for v K1
  proof -
    have "sym_is_choice_value K1 v"
      using that \<open>\<forall>v \<in> set _. _\<close> quiet_choice(1) [OF that(2)] by simp
    then have "quiet X K1 (set_flag SYMBOL_WRITE v K1)" by (intro quiet_set) (auto simp: dynamic_flags_def)
    then show ?thesis by (auto simp: Let_def intro: quiet_trans)
  qed
  then show ?thesis by (simp add: touch_values_def Some quiet_fold)
qed (simp add: touch_values_def)

lemma quiet_note: "quiet X K (note_change s v K)"
  using quiet_trans [OF quiet_changed quiet_all_changed]
  by (auto simp: note_change_def Let_def)

lemma set_all_quiet:
  assumes "set_all_choice_values s K = Some (x, K')"
  obtains K3 where "quiet {} K K3"
    "K' = clear_flag SYMBOL_NEED_SET_CHOICE_VALUES s (clear_flag SYMBOL_VALID s K3)"
proof -
  obtain p where p: "sym_get_choice_prop K s = Some p"
    using assms by (auto simp: set_all_choice_values_def bind_eq_Some_conv)
  define K1 where "K1 = fold (\<lambda>v K. if sym_has_value K v then K
         else upd_sym v (\<lambda>r. r\<lparr>s_def_user := (s_def_user r)\<lparr>sv_tri := tri_no\<rparr>\<rparr>) K) (list_syms (p_expr p)) K"
  have 1: "quiet {} K K1" unfolding K1_def by (rule quiet_fold) simp
  have 2: "quiet {} K1 (set_flag SYMBOL_DEF_USER s K1)" by (rule quiet_set) (simp_all add: dynamic_flags_def)
  from that [OF quiet_trans [OF 1 2]] assms p show thesis by (simp add: set_all_choice_values_def K1_def)
qed

lemma quiet_reset:
  assumes "quiet X K K'" "\<not> has_flag SYMBOL_VALID s K" "X \<subseteq> {s}"
  shows "quiet {} K (clear_flag SYMBOL_NEED_SET_CHOICE_VALUES s (clear_flag SYMBOL_VALID s K'))"
proof -
  have st: "static (k_tab (clear_flag fl s K1) t) = static (k_tab K1 t)" if "fl \<in> dynamic_flags" for fl K1 t
    using static_flag(2) [OF that] by (simp add: clear_flag_def k_tab_upd)
  have ne: "t \<noteq> s" if "has_flag SYMBOL_VALID t K" for t using that assms(2) by auto
  with assms show ?thesis by (auto simp: quiet_def st dynamic_flags_def)
qed

lemma finish_cases:
  assumes "tab_wf K" "s \<in> X" "calc_finish s v K = Some (x, K')"
  obtains K2 where "quiet X K K2"
    "if has_flag SYMBOL_NEED_SET_CHOICE_VALUES s K2 then set_all_choice_values s K2 = Some (x, K') else K' = K2"
proof -
  define K0 where "K0 = note_change s v K"
  have q: "quiet X K K0" by (simp add: K0_def quiet_note)
  note w = quiet_wf [OF q assms(1)]
  have 1: "calm X K0 (if sym_is_choice K s then touch_values s K0 else Some ((), K0))"
    using calm_touch [OF w] quiet_choice(2) [OF q] by simp
  obtain u K1 where K1: "(if sym_is_choice K s then touch_values s K0 else Some ((), K0)) = Some (u, K1)"
    using assms(3) by (cases "if sym_is_choice K s then touch_values s K0 else Some ((), K0)")
      (auto simp: calc_finish_def K0_def split: if_splits)
  define K2 where "K2 = (if has_flag SYMBOL_AUTO s K1 then clear_flag SYMBOL_WRITE s K1 else K1)"
  have q1: "quiet X K0 K1" using 1 K1 by (simp add: calm_def)
  have q2: "quiet X K1 K2" using assms(2) by (simp add: K2_def quiet_write)
  have "(if has_flag SYMBOL_NEED_SET_CHOICE_VALUES s K2 then set_all_choice_values s K2 else Some ((), K2)) = Some (x, K')"
    using assms(3) K1 unfolding calc_finish_def K0_def [symmetric] Let_def K2_def by simp
  with that [OF quiet_trans [OF quiet_trans [OF q q1] q2]] show thesis by (auto split: if_splits)
qed

lemma calc_body_quiet:
  assumes c: "calm_calc calc" and K: "tab_wf K" and r: "calc_body calc s K = Some (x, K')"
  shows "quiet {} K K' \<and>
    (\<not> sym_is_choice K s \<and> (has_flag SYMBOL_NEED_SET_CHOICE_VALUES s K \<longrightarrow> sym_is_choice_value K s) \<longrightarrow>
       has_flag SYMBOL_VALID s K')"
proof (cases "has_flag SYMBOL_VALID s K")
  case True
  then show ?thesis using r by (simp add: calc_body_def)
next
  case inv: False
  obtain K1 where K1: "calc_choice_first calc s K = Some ((), K1)"
    using r inv by (auto simp: calc_body_def bind_eq_Some_conv)
  have cl: "quiet {s} K (clear_flag SYMBOL_NEED_SET_CHOICE_VALUES s K)" by (rule quiet_clear) (simp_all add: dynamic_flags_def)
  define KC where "KC = clear_flag SYMBOL_NEED_SET_CHOICE_VALUES s K"
  have nc: "\<not> has_flag SYMBOL_NEED_SET_CHOICE_VALUES s KC" by (simp add: KC_def)
  have "quiet {s} KC K1" if "calc ch KC = Some ((), K1)" for ch
    using calm_calc [OF c quiet_wf [OF cl K], of "{s}" ch] that by (simp add: calm_def KC_def)
  moreover have "K1 = K \<and> \<not> (sym_is_choice_value K s \<and> has_flag SYMBOL_NEED_SET_CHOICE_VALUES s K) \<or>
      K1 = KC \<or> (\<exists>ch. calc ch KC = Some ((), K1))"
    using K1 by (auto simp: calc_choice_first_def Let_def KC_def split: if_splits option.splits)
  ultimately have 1: "K1 = K \<and> \<not> (sym_is_choice_value K s \<and> has_flag SYMBOL_NEED_SET_CHOICE_VALUES s K) \<or> quiet {s} KC K1"
    using quiet_refl by metis
  have q1: "quiet {s} K K1" using 1 quiet_trans [OF cl] by (auto simp: KC_def)
  have "quiet {s} KC K1 \<Longrightarrow> \<not> has_flag SYMBOL_NEED_SET_CHOICE_VALUES s K1" using nc by (auto simp: quiet_def)
  with 1 have n1: "(has_flag SYMBOL_NEED_SET_CHOICE_VALUES s K \<longrightarrow> sym_is_choice_value K s) \<longrightarrow>
      \<not> has_flag SYMBOL_NEED_SET_CHOICE_VALUES s K1" by blast
  define K2 where "K2 = set_flag SYMBOL_VALID s K1"
  have q2: "quiet {s} K K2"
    unfolding K2_def by (rule quiet_trans [OF q1]) (rule quiet_set; simp add: dynamic_flags_def)
  have v2: "has_flag SYMBOL_VALID s K2" by (simp add: K2_def)
  have keepv: "quiet {s} A B \<Longrightarrow> has_flag SYMBOL_VALID s A \<Longrightarrow> has_flag SYMBOL_VALID s B" for A B
    by (simp add: quiet_def)
  define r0 where "r0 = k_tab K2 s"
  show ?thesis
  proof (cases "s_type r0 = S_UNKNOWN \<or> s_type r0 = S_OTHER")
    case True
    then have "\<exists>v. K' = set_curr s v K2"
      using r inv K1 by (auto simp: calc_body_def Let_def K2_def [symmetric] r0_def [symmetric])
    then have "quiet {s} K2 K'" by auto
    from quiet_closed [OF quiet_trans [OF q2 this] inv] keepv [OF this v2] show ?thesis by simp
  next
    case False
    define v where "v = s_curr (k_tab K2 (if s_type r0 = S_BOOLEAN \<or> s_type r0 = S_TRISTATE then symbol_no else symbol_empty))"
    have cw: "quiet {s} K2 (clear_flag SYMBOL_WRITE s K2)" by (rule quiet_write) simp
    obtain K3 where K3: "sym_calc_visibility calc s (clear_flag SYMBOL_WRITE s K2) = Some ((), K3)"
      using r inv K1 False by (auto simp: calc_body_def Let_def K2_def [symmetric] r0_def [symmetric] bind_eq_Some_conv)
    define K4 where "K4 = set_curr s v (if s_visible (k_tab K3 s) \<noteq> tri_no then set_flag SYMBOL_WRITE s K3 else K3)"
    obtain K5 K6 K7 where K5: "calc_new_value calc s v K4 = Some ((), K5)"
      and K6: "calc_choice_value calc s K5 = Some ((), K6)" and K7: "sym_validate_range calc s K6 = Some ((), K7)"
      and fin: "calc_finish s (s_curr r0) K7 = Some (x, K')"
      using r inv K1 K3 False
      by (auto simp: calc_body_def Let_def K2_def [symmetric] r0_def [symmetric] v_def [symmetric] K4_def [symmetric]
          bind_eq_Some_conv)
    note w = quiet_wf [OF _ quiet_wf [OF q2 K]]
    have q3: "quiet {s} K2 K3"
      using calm_visibility [OF c w [OF cw], of "{s}" s] K3 quiet_trans [OF cw] by (simp add: calm_def)
    have "quiet {s} K3 K4"
      unfolding K4_def by (rule quiet_trans [OF _ quiet_curr(1)]) (simp add: quiet_write)
    note q4 = quiet_trans [OF q3 this]
    have "quiet {s} K4 K5" using calm_new_value [OF c w [OF q4], of s "{s}" v] K5 by (simp add: calm_def)
    note q5 = quiet_trans [OF q4 this]
    have "quiet {s} K5 K6"
      using calm_calc_choice [OF c w [OF q5], of "{s}" s] K6
      by (auto simp: calc_choice_value_def calm_def bind_eq_Some_conv intro: quiet_trans [OF _ quiet_curr(2)] split: if_splits)
    note q6 = quiet_trans [OF q5 this]
    have "quiet {s} K6 K7" using calm_validate [OF c w [OF q6], of "{s}" s] K7 by (simp add: calm_def)
    note q7 = quiet_trans [OF q6 this]
    obtain K8 where q8: "quiet {s} K7 K8" and K8:
      "if has_flag SYMBOL_NEED_SET_CHOICE_VALUES s K8 then set_all_choice_values s K8 = Some (x, K') else K' = K8"
      using finish_cases [OF w [OF q7] _ fin, of "{s}"] by blast
    note q28 = quiet_trans [OF q7 q8]
    note q = quiet_trans [OF q2 q28]
    show ?thesis
    proof (cases "has_flag SYMBOL_NEED_SET_CHOICE_VALUES s K8")
      case True
      with K8 obtain K9 where K9: "quiet {} K8 K9"
        "K' = clear_flag SYMBOL_NEED_SET_CHOICE_VALUES s (clear_flag SYMBOL_VALID s K9)"
        using set_all_quiet by metis
      have "has_flag SYMBOL_NEED_SET_CHOICE_VALUES s K1"
        using True q28 by (auto simp: quiet_def K2_def)
      with n1 quiet_reset [OF quiet_trans [OF q quiet_mono [OF K9(1)]] inv] K9(2) show ?thesis by auto
    next
      case False
      with K8 quiet_closed [OF q inv] keepv [OF q28 v2] show ?thesis by simp
    qed
  qed
qed

lemma calm_calc_value: "calm_calc (sym_calc_value n)"
proof (induction n)
  case (Suc n)
  then show ?case using calc_body_quiet [OF Suc] by (auto simp: calm_calc_def calm_def)
qed (simp add: calm_calc_def)

lemma calm_calc_sym [simp]: "calm_calc calc_sym"
  using calm_calc_value unfolding calm_calc_def calc_sym_def by blast

lemma wf_tab_wf: "store_wf K \<Longrightarrow> tab_wf K"
  by (simp add: store_wf_def tab_wf_def)

text \<open>What the calculation of any symbol leaves of one that is calculated already.\<close>

lemma calc_keeps:
  assumes "store_wf K" "calc_sym s K = Some (u, K')" "has_flag SYMBOL_VALID t K"
  shows "has_flag SYMBOL_VALID t K'" "s_curr (k_tab K' t) = s_curr (k_tab K t)"
    "\<not> sym_is_choice_value K t \<Longrightarrow> has_flag SYMBOL_WRITE t K' = has_flag SYMBOL_WRITE t K"
proof -
  have st: "step {} K K'" using calc_sym_total [OF assms(1), of s] assms(2) by auto
  have q: "quiet {} K K'"
    using calm_calc [OF calm_calc_sym wf_tab_wf [OF assms(1)], of "{}" s] assms(2) by (simp add: calm_def)
  show "has_flag SYMBOL_VALID t K'" "s_curr (k_tab K' t) = s_curr (k_tab K t)"
    using st assms(3) by (auto simp: step_def kept_def)
  show "has_flag SYMBOL_WRITE t K' = has_flag SYMBOL_WRITE t K" if "\<not> sym_is_choice_value K t"
    using q assms(3) that by (auto simp: quiet_def)
qed

text \<open>A symbol that is no choice is calculated afterwards.\<close>

lemma calc_valid:
  assumes "store_wf K" "calc_sym s K = Some (u, K')" "\<not> sym_is_choice K s"
  shows "has_flag SYMBOL_VALID s K'"
proof -
  have "has_flag SYMBOL_NEED_SET_CHOICE_VALUES s K \<longrightarrow> sym_is_choice_value K s"
    using assms(1,3) by (auto simp: store_wf_def)
  with calc_body_quiet [OF calm_calc_value wf_tab_wf [OF assms(1)]] assms(2,3) show ?thesis
    by (simp add: calc_sym_def)
qed

end
