(* ===== verification/Menu_View.thy ===== *)
theory Menu_View
  imports Menu Expr_Print Symbol_Write
begin

text \<open>
  The menu as the user sees it (menu.c): which entries are visible, and the texts that
  describe a symbol, with the places where its prompts are. An entry is found by its
  number, and the pointers to the parent are the path to it in the tree. The cached
  visibility of a prompt that belongs to no symbol is calculated at every use, so it is
  not kept. Translations are the identity, and what \<open>printf\<close> makes of a null pointer
  is written out.
\<close>

section \<open>Visible entries\<close>

text \<open>\<open>menu_is_visible\<close>, and its loop over the entries below.\<close>

definition visible_if :: "menu_node \<Rightarrow> kstate \<Rightarrow> (bool \<times> kstate) option" where
  "visible_if n K =
     (case n_visibility n of
        None \<Rightarrow> Some (True, K)
      | Some e \<Rightarrow> do { (t, K) \<leftarrow> calc_expr calc_sym e K; Some (t \<noteq> tri_no, K) })"

definition prompt_tri :: "kstate \<Rightarrow> menu_node \<Rightarrow> tristate" where
  "prompt_tri K n = (case prompt_prop (k_tab K) n of Some p \<Rightarrow> p_vis_tri p | None \<Rightarrow> tri_no)"

function (sequential) menu_is_visible :: "menu \<Rightarrow> kstate \<Rightarrow> (bool \<times> kstate) option"
  and any_visible :: "menu list \<Rightarrow> kstate \<Rightarrow> (bool \<times> kstate) option" where
  "menu_is_visible (Menu n cs) K =
     (case prompt_prop (k_tab K) n of
        None \<Rightarrow> Some (False, K)
      | Some p \<Rightarrow> do {
          (open, K) \<leftarrow> visible_if n K;
          (if \<not> open then Some (False, K)
           else case n_sym n of
             None \<Rightarrow> do { (t, K) \<leftarrow> calc_opt calc_sym (p_vis_expr p) K; Some (t \<noteq> tri_no, K) }
           | Some s \<Rightarrow> do {
               (_, K) \<leftarrow> calc_sym s K;
               (if prompt_tri K n \<noteq> tri_no then Some (True, K)
                else if sym_get_tristate_value K s = tri_no then Some (False, K)
                else do {
                  (v, K) \<leftarrow> any_visible cs K;
                  Some (v, if v then set_flag SYMBOL_DEF_USER s K else K) }) }) })"
| "any_visible [] K = Some (False, K)"
| "any_visible (c # cs) K = do {
     (v, K) \<leftarrow> menu_is_visible c K;
     (if v then Some (True, K) else any_visible cs K) }"
  by pat_completeness auto
termination menu_is_visible
  by (relation "measure (\<lambda>x. case x of Inl (m, K) \<Rightarrow> 2 * menu_size m | Inr (cs, K) \<Rightarrow> Suc (2 * list_size cs))") simp_all

definition menu_is_empty :: "menu \<Rightarrow> kstate \<Rightarrow> (bool \<times> kstate) option" where
  "menu_is_empty m K = do { (v, K) \<leftarrow> any_visible (m_list m) K; Some (\<not> v, K) }"

section \<open>Prompts, help and parents\<close>

definition menu_has_prompt :: "menu_node \<Rightarrow> bool" where
  "menu_has_prompt n \<longleftrightarrow> n_prompt n \<noteq> None"

definition menu_get_prompt :: "symtab \<Rightarrow> menu_node \<Rightarrow> string option" where
  "menu_get_prompt T n =
     (case prompt_prop T n of Some p \<Rightarrow> p_text p
      | None \<Rightarrow> (case n_sym n of Some s \<Rightarrow> s_name (T s) | None \<Rightarrow> None))"

definition menu_has_help :: "menu_node \<Rightarrow> bool" where
  "menu_has_help n \<longleftrightarrow> n_help n \<noteq> None"

definition menu_get_help :: "menu_node \<Rightarrow> string" where
  "menu_get_help n = (case n_help n of Some h \<Rightarrow> h | None \<Rightarrow> [])"

text \<open>The entry with a number and all entries around it, outwards up to the root.\<close>

fun path_to :: "nat \<Rightarrow> menu \<Rightarrow> menu list option" and path_in :: "nat \<Rightarrow> menu list \<Rightarrow> menu list option" where
  "path_to i (Menu n cs) =
     (if n_id n = i then Some [Menu n cs] else map_option (\<lambda>p. p @ [Menu n cs]) (path_in i cs))"
| "path_in i [] = None"
| "path_in i (c # cs) = (case path_to i c of Some p \<Rightarrow> Some p | None \<Rightarrow> path_in i cs)"

text \<open>\<open>menu_get_parent_menu\<close>, on the path of an entry; the last one is the root.\<close>

fun menu_get_parent_menu :: "symtab \<Rightarrow> menu list \<Rightarrow> menu option" where
  "menu_get_parent_menu T [] = None"
| "menu_get_parent_menu T [m] = Some m"
| "menu_get_parent_menu T (m # p # ps) =
     (if (\<exists>q \<in> set_option (prompt_prop T (m_node m)). p_type q = P_MENU) then Some m
      else menu_get_parent_menu T (p # ps))"

section \<open>The description of a symbol\<close>

text \<open>A place to jump to from the text, for the search dialogs; \<open>offset\<close> is set late.\<close>

record jump_key =
  jk_target :: nat
  jk_index :: nat
  jk_offset :: "nat option"

type_synonym doc = "gstr \<times> jump_key list option \<times> kstate"

definition printable :: "string option \<Rightarrow> string" where
  "printable s = (case s of Some t \<Rightarrow> t | None \<Rightarrow> ''(null)'')"

definition newline :: string where "newline = [CHR 0x0a]"

text \<open>The loop up to the root: at most eight entries, and the innermost that is visible.\<close>

fun innermost_visible :: "menu list \<Rightarrow> menu option \<Rightarrow> kstate \<Rightarrow> (menu option \<times> kstate) option" where
  "innermost_visible [] location K = Some (location, K)"
| "innermost_visible (m # ms) location K = do {
     (accessible, K) \<leftarrow> menu_is_visible m K;
     innermost_visible ms (if location = None \<and> accessible then Some m else location) K }"

text \<open>The lines with the entries around a prompt, outermost first.\<close>

definition location_symbol :: "menu_node \<Rightarrow> gstr \<Rightarrow> kstate \<Rightarrow> (gstr \<times> kstate) option" where
  "location_symbol n gs K =
     (case n_sym n of
        None \<Rightarrow> Some (gs, K)
      | Some s \<Rightarrow> do {
          (v, K) \<leftarrow> get_string_value calc_sym s K;
          Some (str_printf ('' ('' @ (case s_name (k_tab K s) of Some nm \<Rightarrow> nm | None \<Rightarrow> ''<choice>'') @
            '' [='' @ v @ ''])'') gs, K) })"

fun location_lines :: "menu list \<Rightarrow> nat \<Rightarrow> nat option \<Rightarrow> nat option \<Rightarrow> gstr \<Rightarrow> kstate \<Rightarrow>
    (nat option \<times> gstr \<times> kstate) option" where
  "location_lines [] j location off gs K = Some (off, gs, K)"
| "location_lines (m # ms) j location off gs K = do {
     let off = (if location = Some (n_id (m_node m)) then Some (length (gs_s gs)) else off);
     let gs = str_printf (replicate j CHR '' '' @ ''-> '' @ printable (menu_get_prompt (k_tab K) (m_node m))) gs;
     (gs, K) \<leftarrow> location_symbol (m_node m) gs K;
     location_lines ms (j + 2) location off (str_append (Some newline) gs) K }"

definition next_index :: "jump_key list \<Rightarrow> nat" where
  "next_index keys = (if keys = [] then 0 else jk_index (last keys) + 1)"

text \<open>The jump of a prompt: to its entry when this is visible, else to the location.\<close>

definition jump_target :: "menu \<Rightarrow> menu \<Rightarrow> kstate \<Rightarrow> (nat \<times> kstate) option" where
  "jump_target entry location K = do {
     (v, K) \<leftarrow> menu_is_visible entry K;
     Some (n_id (m_node (if v then entry else location)), K) }"

definition print_locations :: "menu list \<Rightarrow> menu option \<Rightarrow> gstr \<Rightarrow> kstate \<Rightarrow> (nat option \<times> gstr \<times> kstate) option" where
  "print_locations menus location gs K =
     (if menus = [] then Some (None, gs, K)
      else location_lines (rev menus) 4 (map_option (\<lambda>m. n_id (m_node m)) location) None
             (str_printf (''  Location:'' @ newline) gs) K)"

definition print_prompt :: "menu \<Rightarrow> menu list \<Rightarrow> doc \<Rightarrow> doc option" where
  "print_prompt entry menus D = (case D of (gs, head, K) \<Rightarrow> do {
     (location, K) \<leftarrow> innermost_visible menus None K;
     (case (head, location) of
        (Some keys, Some l) \<Rightarrow> do {
          (t, K) \<leftarrow> jump_target entry l K;
          (off, gs, K) \<leftarrow> print_locations menus location gs K;
          Some (gs, Some (keys @ [\<lparr>jk_target = t, jk_index = next_index keys, jk_offset = off\<rparr>]), K) }
      | _ \<Rightarrow> do {
          (off, gs, K) \<leftarrow> print_locations menus None gs K;
          Some (gs, head, K) }) })"

definition get_prompt_str :: "menu \<Rightarrow> property \<Rightarrow> doc \<Rightarrow> doc option" where
  "get_prompt_str root p D = (case D of (gs, head, K) \<Rightarrow> do {
     i \<leftarrow> p_menu p;
     path \<leftarrow> path_to i root;
     (if tl path = [] then None
      else print_prompt (hd path) (take 8 (butlast (tl path)))
             (str_printf (''Prompt: '' @ printable (p_text p) @ newline) gs, head, K)) })"

definition get_symbol_prop :: "kstate \<Rightarrow> symref \<Rightarrow> property option" where
  "get_symbol_prop K s = find (\<lambda>p. p_type p = P_SYMBOL) (s_prop (k_tab K s))"

fun props_text :: "kstate \<Rightarrow> property list \<Rightarrow> string \<Rightarrow> gstr \<Rightarrow> gstr option" where
  "props_text K [] lead gs = Some gs"
| "props_text K (p # ps) lead gs = do {
     gs \<leftarrow> expr_gstr_print K (p_expr p) (str_append (Some lead) gs);
     props_text K ps '' && '' gs }"

definition get_symbol_props_str :: "symref \<Rightarrow> prop_type \<Rightarrow> string \<Rightarrow> kstate \<Rightarrow> gstr \<Rightarrow> gstr option" where
  "get_symbol_props_str s tok lead K gs =
     (let ps = filter (\<lambda>p. p_type p = tok) (s_prop (k_tab K s)) in
      do { gs \<leftarrow> props_text K ps lead gs;
           Some (if ps \<noteq> [] then str_append (Some newline) gs else gs) })"

text \<open>The first lines: name, type and range.\<close>

definition symbol_head :: "symref \<Rightarrow> gstr \<Rightarrow> kstate \<Rightarrow> (gstr \<times> kstate) option" where
  "symbol_head s gs K =
     (case s_name (k_tab K s) of
        None \<Rightarrow> Some (gs, K)
      | Some nm \<Rightarrow> do {
          (v, K) \<leftarrow> get_string_value calc_sym s K;
          let ty = s_type (k_tab K s);
          let gs = str_printf (''Symbol: '' @ nm @ '' [='' @ v @ '']'' @ newline) gs;
          let gs = str_printf (''Type  : '' @ sym_type_name ty @ newline) gs;
          (if ty = S_INT \<or> ty = S_HEX then do {
             (prop, K) \<leftarrow> sym_get_range_prop calc_sym s K;
             (case prop of None \<Rightarrow> Some (gs, K)
              | Some p \<Rightarrow> do {
                  gs \<leftarrow> expr_gstr_print K (p_expr p) (str_printf ''Range : '' gs);
                  Some (str_append (Some newline) gs, K) }) }
           else Some (gs, K)) })"

fun prompts_str :: "menu \<Rightarrow> property list \<Rightarrow> doc \<Rightarrow> doc option" where
  "prompts_str root [] D = Some D"
| "prompts_str root (p # ps) D =
     (if p_text p = None then prompts_str root ps D
      else do { D \<leftarrow> get_prompt_str root p D; prompts_str root ps D })"

text \<open>Where a symbol is defined; files and lines of entries are given by \<open>place\<close>.\<close>

definition defined_at :: "(nat \<Rightarrow> string \<times> nat) \<Rightarrow> symref \<Rightarrow> kstate \<Rightarrow> gstr \<Rightarrow> gstr option" where
  "defined_at place s K gs =
     (case get_symbol_prop K s of
        None \<Rightarrow> Some gs
      | Some p \<Rightarrow> do {
          i \<leftarrow> p_menu p;
          let gs = str_printf (''  Defined at '' @ fst (place i) @ '':'' @ show_nat 10 (snd (place i)) @ newline) gs;
          (if expr_is_yes (p_vis_expr p) then Some gs
           else do {
             gs \<leftarrow> expr_gstr_print K (p_vis_expr p) (str_append (Some ''  Depends on: '') gs);
             Some (str_append (Some newline) gs) }) })"

definition revdeps :: "expr option \<Rightarrow> string \<Rightarrow> kstate \<Rightarrow> gstr \<Rightarrow> gstr option" where
  "revdeps e by K gs =
     (case e of
        None \<Rightarrow> Some gs
      | Some e \<Rightarrow> do {
          gs \<leftarrow> expr_gstr_print_revdep K e gs tri_yes (''  '' @ by @ '' by [y]:'' @ newline);
          gs \<leftarrow> expr_gstr_print_revdep K e gs tri_mod (''  '' @ by @ '' by [m]:'' @ newline);
          expr_gstr_print_revdep K e gs tri_no (''  '' @ by @ '' by [n]:'' @ newline) })"

definition symbol_rest :: "(nat \<Rightarrow> string \<times> nat) \<Rightarrow> symref \<Rightarrow> kstate \<Rightarrow> gstr \<Rightarrow> gstr option" where
  "symbol_rest place s K gs = do {
     gs \<leftarrow> defined_at place s K gs;
     gs \<leftarrow> get_symbol_props_str s P_SELECT ''  Selects: '' K gs;
     gs \<leftarrow> revdeps (s_rev_dep (k_tab K s)) ''Selected'' K gs;
     gs \<leftarrow> get_symbol_props_str s P_IMPLY ''  Implies: '' K gs;
     gs \<leftarrow> revdeps (s_implied (k_tab K s)) ''Implied'' K gs;
     Some (str_append (Some (newline @ newline)) gs) }"

definition get_symbol_str :: "menu \<Rightarrow> (nat \<Rightarrow> string \<times> nat) \<Rightarrow> symref \<Rightarrow> doc \<Rightarrow> doc option" where
  "get_symbol_str root place s D = (case D of (gs, head, K) \<Rightarrow> do {
     (gs, K) \<leftarrow> symbol_head s gs K;
     (gs, head, K) \<leftarrow> prompts_str root (s_prop (k_tab K s)) (gs, head, K);
     gs \<leftarrow> symbol_rest place s K gs;
     Some (gs, head, K) })"

fun relations :: "menu \<Rightarrow> (nat \<Rightarrow> string \<times> nat) \<Rightarrow> symref list \<Rightarrow> doc \<Rightarrow> doc option" where
  "relations root place [] D = Some D"
| "relations root place (s # ss) D = do { D \<leftarrow> get_symbol_str root place s D; relations root place ss D }"

definition get_relations_str :: "menu \<Rightarrow> (nat \<Rightarrow> string \<times> nat) \<Rightarrow> symref list \<Rightarrow> jump_key list option \<Rightarrow> kstate \<Rightarrow> doc option" where
  "get_relations_str root place ss head K = do {
     (gs, head, K) \<leftarrow> relations root place ss (str_new, head, K);
     Some (if ss = [] then str_append (Some (''No matches found.'' @ newline)) gs else gs, head, K) }"

definition nohelp_text :: string where
  "nohelp_text = ''There is no help available for this option.''"

text \<open>\<open>menu_get_ext_help\<close>; help without a symbol is a null pointer.\<close>

definition menu_get_ext_help :: "string \<Rightarrow> menu \<Rightarrow> (nat \<Rightarrow> string \<times> nat) \<Rightarrow> menu_node \<Rightarrow> gstr \<Rightarrow> kstate \<Rightarrow>
    (gstr \<times> kstate) option" where
  "menu_get_ext_help cfg root place n gs K = do {
     gs \<leftarrow> (if menu_has_help n then do {
              s \<leftarrow> n_sym n;
              Some (case s_name (k_tab K s) of
                      Some nm \<Rightarrow> str_printf (cfg @ nm @ '':'' @ newline @ newline) gs | None \<Rightarrow> gs) }
            else Some gs);
     let gs = str_printf ((if menu_has_help n then menu_get_help n else nohelp_text) @ newline) gs;
     (case n_sym n of
        None \<Rightarrow> Some (gs, K)
      | Some s \<Rightarrow> do {
          (gs, head, K) \<leftarrow> get_symbol_str root place s (gs, None, K);
          Some (gs, K) }) }"

section \<open>Visibility with calculated values\<close>

text \<open>
  When every symbol is calculated, an evaluation reads the values and changes nothing,
  and \<open>menu_is_visible\<close> is a predicate on the tree.
\<close>

definition settled :: "kstate \<Rightarrow> bool" where
  "settled K \<longleftrightarrow> (\<forall>t. has_flag SYMBOL_VALID t K)"

lemma settled_calc: "settled K \<Longrightarrow> calc_sym s K = Some ((), K)"
  by (simp add: settled_def calc_sym_valid)

lemma settled_get_string: "settled K \<Longrightarrow> get_string_value calc_sym s K = Some (sym_get_string_value K s, K)"
  by (simp add: get_string_value_def sym_get_string_value_def settled_calc sym_get_tristate_value_def split: tristate.split)

lemma settled_expr: "settled K \<Longrightarrow> calc_expr calc_sym e K = Some (expr_calc_value K (Some e), K)"
  by (induction e) (simp_all add: settled_calc settled_get_string sym_get_tristate_value_def comparison_holds_def)

lemma settled_opt: "settled K \<Longrightarrow> calc_opt calc_sym e K = Some (expr_calc_value K e, K)"
  by (cases e) (simp_all add: settled_expr del: calc_expr.simps expr_calc_value.simps(2))

fun visible_now :: "kstate \<Rightarrow> menu \<Rightarrow> bool" where
  "visible_now K (Menu n cs) \<longleftrightarrow>
     (\<exists>p. prompt_prop (k_tab K) n = Some p \<and>
        (\<forall>e \<in> set_option (n_visibility n). expr_calc_value K (Some e) \<noteq> tri_no) \<and>
        (case n_sym n of
           None \<Rightarrow> expr_calc_value K (p_vis_expr p) \<noteq> tri_no
         | Some s \<Rightarrow> p_vis_tri p \<noteq> tri_no \<or> (sym_get_tristate_value K s \<noteq> tri_no \<and> (\<exists>c \<in> set cs. visible_now K c))))"

text \<open>
  The symbols that count as set by the user because of a visible entry below: those on
  the way down to the first entry whose own prompt is visible.
\<close>

fun opened :: "kstate \<Rightarrow> menu \<Rightarrow> symref list" and first_opened :: "kstate \<Rightarrow> menu list \<Rightarrow> symref list" where
  "opened K (Menu n cs) =
     (case n_sym n of
        None \<Rightarrow> []
      | Some s \<Rightarrow> if visible_now K (Menu n cs) \<and> prompt_tri K n = tri_no then s # first_opened K cs else [])"
| "first_opened K [] = []"
| "first_opened K (c # cs) = (if visible_now K c then opened K c else first_opened K cs)"

lemma opened_hidden: "\<not> visible_now K m \<Longrightarrow> opened K m = []"
  by (cases m) (simp del: visible_now.simps split: option.split)

lemma first_opened_hidden: "\<forall>c \<in> set cs. \<not> visible_now K c \<Longrightarrow> first_opened K cs = []"
  by (induction cs) simp_all

lemma visible_if_settled:
  "settled K \<Longrightarrow> visible_if n K = Some (\<forall>e \<in> set_option (n_visibility n). expr_calc_value K (Some e) \<noteq> tri_no, K)"
  by (simp add: visible_if_def settled_expr del: calc_expr.simps expr_calc_value.simps split: option.split)

lemma visible_settled:
  "settled K \<Longrightarrow> menu_is_visible m K = Some (visible_now K m, foldr (set_flag SYMBOL_DEF_USER) (opened K m) K)"
  "settled K \<Longrightarrow> any_visible cs K =
     Some (\<exists>c \<in> set cs. visible_now K c, foldr (set_flag SYMBOL_DEF_USER) (first_opened K cs) K)"
proof (induction m K and cs K rule: menu_is_visible_any_visible.induct)
  case (1 n cs K)
  show ?case
  proof (cases "prompt_prop (k_tab K) n")
    case None
    then show ?thesis by (simp split: option.split)
  next
    case (Some p)
    show ?thesis
    proof (cases "n_sym n")
      case None
      then show ?thesis using Some 1(2) by (simp add: visible_if_settled settled_opt del: expr_calc_value.simps)
    next
      case sym: (Some s)
      have IH: "any_visible cs K =
          Some (\<exists>c \<in> set cs. visible_now K c, foldr (set_flag SYMBOL_DEF_USER) (first_opened K cs) K)"
        if "\<forall>e \<in> set_option (n_visibility n). expr_calc_value K (Some e) \<noteq> tri_no" "p_vis_tri p = tri_no"
          "sym_get_tristate_value K s \<noteq> tri_no"
        by (rule 1(1) [OF Some visible_if_settled [OF 1(2)] refl _ sym settled_calc [OF 1(2)] refl])
           (use that Some 1(2) in \<open>simp_all add: prompt_tri_def\<close>)
      show ?thesis
        using Some sym 1(2) IH
        by (auto simp: visible_if_settled settled_calc prompt_tri_def first_opened_hidden simp del: expr_calc_value.simps)
    qed
  qed
next
  case (3 c cs K)
  then show ?case by (auto simp: opened_hidden)
qed simp

section \<open>Totality\<close>

text \<open>
  An update that keeps what is calculated: values, and except for the values of choices
  the marks \<open>SYMBOL_WRITE\<close>.
\<close>

definition settles :: "kstate \<Rightarrow> kstate \<Rightarrow> bool" where
  "settles K K' \<longleftrightarrow> edits K K' \<and>
     (\<forall>t. has_flag SYMBOL_VALID t K \<longrightarrow>
        has_flag SYMBOL_VALID t K' \<and> s_curr (k_tab K' t) = s_curr (k_tab K t) \<and>
        (\<not> sym_is_choice_value K t \<longrightarrow> has_flag SYMBOL_WRITE t K' = has_flag SYMBOL_WRITE t K))"

lemma edits_flag: "edits K K' \<Longrightarrow> fl \<notin> dynamic_flags \<Longrightarrow> has_flag fl t K' = has_flag fl t K"
  using static_flags [of "k_tab K' t" "k_tab K t" fl] by (simp add: edits_def has_flag_def)

lemma edits_fields:
  assumes "edits K K'"
  shows "s_type (k_tab K' t) = s_type (k_tab K t)" "s_name (k_tab K' t) = s_name (k_tab K t)"
    "sym_is_choice K' t = sym_is_choice K t" "sym_is_choice_value K' t = sym_is_choice_value K t"
    "k_modules_sym K' = k_modules_sym K"
  using assms static_fields [of "k_tab K' t" "k_tab K t"] edits_flag [OF assms]
  by (simp_all add: edits_def sym_is_choice_def sym_is_choice_value_def dynamic_flags_def)

lemma settles_edits: "settles K K' \<Longrightarrow> edits K K'"
  by (simp add: settles_def)

lemma settles_refl [simp]: "settles K K"
  by (simp add: settles_def)

lemma settles_trans [trans]: "settles K K1 \<Longrightarrow> settles K1 K2 \<Longrightarrow> settles K K2"
  using edits_fields(4) [OF settles_edits, of K K1] edits_trans by (fastforce simp: settles_def)

lemma settles_user: "settles K (set_flag SYMBOL_DEF_USER s K)"
  by (auto simp: settles_def edits_user_flag) (simp add: set_flag_def k_tab_upd)

text \<open>A computation that returns, and keeps what is calculated.\<close>

definition returns :: "kstate \<Rightarrow> ('a \<times> kstate) option \<Rightarrow> bool" where
  "returns K r \<longleftrightarrow> (\<exists>x K'. r = Some (x, K') \<and> settles K K')"

lemma returns_Some [simp]: "returns K (Some (x, K')) \<longleftrightarrow> settles K K'"
  by (simp add: returns_def)

lemma returns_trans: "settles K K1 \<Longrightarrow> returns K1 r \<Longrightarrow> returns K r"
  by (auto simp: returns_def intro: settles_trans)

lemma returns_wf: "store_wf K \<Longrightarrow> settles K K' \<Longrightarrow> store_wf K'"
  by (rule edits_wf [OF settles_edits])

lemma returns_bind:
  assumes "store_wf K" "returns K r" "\<And>x K1. store_wf K1 \<Longrightarrow> settles K K1 \<Longrightarrow> returns K1 (f (x, K1))"
  shows "returns K (Option.bind r f)"
proof -
  obtain x K1 where 1: "r = Some (x, K1)" "settles K K1" using assms(2) by (auto simp: returns_def)
  show ?thesis using returns_trans [OF 1(2) assms(3) [OF returns_wf [OF assms(1) 1(2)] 1(2)]] by (simp add: 1(1))
qed

lemma returns_runs: "runs {} K r \<Longrightarrow> calm {} K r \<Longrightarrow> returns K r"
  by (auto simp: runs_def wp_iff returns_def settles_def calm_def step_def kept_def quiet_def intro!: step_edits)

lemma returns_calc: "store_wf K \<Longrightarrow> returns K (calc_sym s K)"
  using returns_runs [OF runs_calc [OF calc_sym_safe store_ready] calm_calc [OF calm_calc_sym wf_tab_wf]] by blast

lemma returns_opt: "store_wf K \<Longrightarrow> returns K (calc_opt calc_sym e K)"
  using returns_runs [OF runs_opt [OF calc_sym_safe store_ready] calm_opt [OF calm_calc_sym wf_tab_wf]] by blast

lemma returns_expr: "store_wf K \<Longrightarrow> returns K (calc_expr calc_sym e K)"
  using returns_runs [OF runs_expr [OF calc_sym_safe store_ready] calm_expr [OF calm_calc_sym wf_tab_wf]] by blast

lemma returns_string: "store_wf K \<Longrightarrow> returns K (get_string_value calc_sym s K)"
  using returns_runs [OF runs_string [OF calc_sym_safe store_ready] calm_string [OF calm_calc_sym wf_tab_wf]] by blast

lemma returns_visible_if: "store_wf K \<Longrightarrow> returns K (visible_if n K)"
  by (auto simp: visible_if_def split: option.split intro!: returns_bind returns_expr)

lemma returns_any:
  "(\<And>c K. c \<in> set cs \<Longrightarrow> store_wf K \<Longrightarrow> returns K (menu_is_visible c K)) \<Longrightarrow> store_wf K \<Longrightarrow>
     returns K (any_visible cs K)"
proof (induction cs arbitrary: K)
  case (Cons c cs)
  then show ?case by (auto intro!: returns_bind)
qed simp

lemma returns_visible: "store_wf K \<Longrightarrow> returns K (menu_is_visible m K)"
proof (induction m arbitrary: K)
  case (Menu n cs)
  have hidden: "returns K1 (if a then Some (True, K1) else if b then Some (False, K1)
      else do { (v, K) \<leftarrow> any_visible cs K1; Some (v, if v then set_flag SYMBOL_DEF_USER s K else K) })"
    if "store_wf K1" for a b s K1
    using that Menu.IH by (auto simp: settles_user intro!: returns_bind returns_any)
  show ?case
    using Menu.prems
    by (auto split: option.split intro!: returns_bind returns_visible_if returns_opt returns_calc hidden)
qed

section \<open>Jumps\<close>

text \<open>Texts only grow, and a jump points at the line of an entry.\<close>

definition gs_le :: "gstr \<Rightarrow> gstr \<Rightarrow> bool" where
  "gs_le gs gs' \<longleftrightarrow> (\<exists>t. gs_s gs' = gs_s gs @ t)"

definition at_line :: "gstr \<Rightarrow> nat \<Rightarrow> bool" where
  "at_line gs off \<longleftrightarrow> (\<exists>j \<ge> 4. starts_with (replicate j CHR '' '' @ ''-> '') (drop off (gs_s gs)))"

lemma gs_le_refl [simp]: "gs_le gs gs"
  by (simp add: gs_le_def)

lemma gs_le_trans: "gs_le a b \<Longrightarrow> gs_le b c \<Longrightarrow> gs_le a c"
  by (auto simp: gs_le_def)

lemma gs_le_append [simp]: "gs_le gs (str_append s gs)"
  by (simp add: gs_le_def str_append_def Let_def split: option.split)

lemma gs_le_printf [simp]: "gs_le gs (str_printf s gs)"
  by (simp add: str_printf_def)

lemma gs_le_into [simp, intro]: "gs_le a b \<Longrightarrow> gs_le a (str_append s b)" "gs_le a b \<Longrightarrow> gs_le a (str_printf t b)"
  by (auto intro: gs_le_trans)

lemma gs_le_out: "gs_le (str_append s a) b \<Longrightarrow> gs_le a b" "gs_le (str_printf t a) b \<Longrightarrow> gs_le a b"
  by (auto intro: gs_le_trans [OF gs_le_append] gs_le_trans [OF gs_le_printf])

lemma at_line_le: "at_line gs off \<Longrightarrow> gs_le gs gs' \<Longrightarrow> at_line gs' off"
  by (auto simp: at_line_def gs_le_def starts_with_iff drop_append)

lemma gs_le_helper: "expr_print_gstr_helper K gs c = Some gs' \<Longrightarrow> gs_le gs gs'"
  by (auto simp: expr_print_gstr_helper_def Let_def split: if_splits option.splits prod.splits
      intro: gs_le_trans [OF gs_le_append gs_le_printf] gs_le_trans [OF gs_le_append gs_le_append]
        gs_le_trans [OF gs_le_append gs_le_trans [OF gs_le_append gs_le_printf]])

lemma gs_le_calls: "print_calls K cs gs = Some gs' \<Longrightarrow> gs_le gs gs'"
  by (induction cs arbitrary: gs) (auto simp: bind_eq_Some_conv dest!: gs_le_helper intro: gs_le_trans)

lemma gs_le_print: "expr_gstr_print K e gs = Some gs' \<Longrightarrow> gs_le gs gs'"
  "expr_gstr_print_revdep K e' gs t title = Some gs' \<Longrightarrow> gs_le gs gs'"
  by (auto simp: expr_gstr_print_def expr_gstr_print_revdep_def dest: gs_le_calls)

lemma gs_le_props: "props_text K ps lead gs = Some gs' \<Longrightarrow> gs_le gs gs'"
  by (induction ps arbitrary: gs lead)
    (auto simp: bind_eq_Some_conv dest!: gs_le_print gs_le_out intro: gs_le_trans)

lemma gs_le_rest: "symbol_rest place s K gs = Some gs' \<Longrightarrow> gs_le gs gs'"
proof -
  have p: "get_symbol_props_str s tok lead K g = Some g' \<Longrightarrow> gs_le g g'" for tok lead g g'
    by (auto simp: get_symbol_props_str_def Let_def bind_eq_Some_conv dest!: gs_le_props)
  have r: "revdeps e u K g = Some g' \<Longrightarrow> gs_le g g'" for e u g g'
    by (auto simp: revdeps_def bind_eq_Some_conv dest!: gs_le_print(2) split: option.splits intro: gs_le_trans)
  have d: "defined_at place s K g = Some g' \<Longrightarrow> gs_le g g'" for g g'
    by (auto simp: defined_at_def Let_def bind_eq_Some_conv dest!: gs_le_print(1) gs_le_out split: option.splits if_splits)
  assume "symbol_rest place s K gs = Some gs'"
  then show ?thesis
    by (auto simp: symbol_rest_def bind_eq_Some_conv dest!: p r d intro!: gs_le_into) (meson gs_le_trans)
qed

lemma gs_le_head: "symbol_head s gs K = Some (gs', K') \<Longrightarrow> gs_le gs gs'"
  by (auto simp: symbol_head_def Let_def bind_eq_Some_conv dest!: gs_le_print(1) gs_le_out
      split: option.splits if_splits prod.splits)

lemma location_lines_keep:
  assumes "location_lines ms j location off gs K = Some (off', gs', K')" "4 \<le> j" "j + 2 * length ms < 9990"
    "\<forall>x. off = Some x \<longrightarrow> at_line gs x"
  shows "gs_le gs gs' \<and> (\<forall>x. off' = Some x \<longrightarrow> at_line gs' x) \<and>
    (off \<noteq> None \<or> (\<exists>m \<in> set ms. location = Some (n_id (m_node m))) \<longrightarrow> off' \<noteq> None)"
  using assms
proof (induction ms arbitrary: j off gs K)
  case (Cons m ms)
  define g1 where "g1 = str_printf (replicate j CHR '' '' @ ''-> '' @ printable (menu_get_prompt (k_tab K) (m_node m))) gs"
  define o1 where "o1 = (if location = Some (n_id (m_node m)) then Some (length (gs_s gs)) else off)"
  obtain g2 K2 where 2: "location_symbol (m_node m) g1 K = Some (g2, K2)"
    "location_lines ms (j + 2) location o1 (str_append (Some newline) g2) K2 = Some (off', gs', K')"
    using Cons.prems(1) unfolding location_lines.simps Let_def g1_def [symmetric] o1_def [symmetric]
    by (auto simp: bind_eq_Some_conv)
  have le: "gs_le gs g1" "gs_le g1 g2"
    using 2(1) by (auto simp: g1_def location_symbol_def bind_eq_Some_conv split: option.splits)
  have "take 9999 (replicate j CHR '' '' @ ''-> '' @ t) = replicate j CHR '' '' @ ''-> '' @ take (9996 - j) t" for t
  proof -
    have "9999 - j = Suc (Suc (Suc (9996 - j)))" using Cons.prems(3) by simp
    then show ?thesis using Cons.prems(3) by simp
  qed
  then have "at_line g1 (length (gs_s gs))"
    using Cons.prems(2) by (auto simp: at_line_def g1_def str_printf_def str_append_def Let_def starts_with_iff)
  then have "at_line (str_append (Some newline) g2) (length (gs_s gs))"
    by (rule at_line_le) (use le in auto)
  moreover have "at_line (str_append (Some newline) g2) x" if "at_line gs x" for x
    by (rule at_line_le [OF that]) (use gs_le_trans [OF le] in auto)
  ultimately have "\<forall>x. o1 = Some x \<longrightarrow> at_line (str_append (Some newline) g2) x"
    using Cons.prems(4) by (auto simp: o1_def)
  from Cons.IH [OF 2(2) _ _ this] Cons.prems(2,3) show ?case
    using le by (auto simp: o1_def dest!: gs_le_out intro: gs_le_trans)
qed simp

lemma innermost_in: "innermost_visible ms loc K = Some (loc', K') \<Longrightarrow> loc' = loc \<or> (\<exists>m \<in> set ms. loc' = Some m)"
  by (induction ms arbitrary: loc K) (fastforce simp: bind_eq_Some_conv split: if_splits)+

definition jumps_ok :: "gstr \<Rightarrow> jump_key list \<Rightarrow> bool" where
  "jumps_ok gs ks \<longleftrightarrow> map jk_index ks = [0..<length ks] \<and>
     (\<forall>k \<in> set ks. \<exists>off. jk_offset k = Some off \<and> at_line gs off)"

lemma jumps_ok_le: "jumps_ok gs ks \<Longrightarrow> gs_le gs gs' \<Longrightarrow> jumps_ok gs' ks"
  by (fastforce simp: jumps_ok_def intro: at_line_le)

lemma next_index_length: "map jk_index ks = [0..<length ks] \<Longrightarrow> next_index ks = length ks"
proof (cases ks rule: rev_cases)
  case (snoc xs k)
  assume "map jk_index ks = [0..<length ks]"
  then show ?thesis by (simp add: snoc next_index_def)
qed (simp add: next_index_def)

lemma print_locations_keep:
  assumes "print_locations ms l gs K = Some (off, gs', K')" "length ms \<le> 8" "\<forall>m. l = Some m \<longrightarrow> m \<in> set ms"
  shows "gs_le gs gs' \<and> (l \<noteq> None \<longrightarrow> (\<exists>x. off = Some x \<and> at_line gs' x))"
proof (cases "ms = []")
  case True
  then show ?thesis using assms by (cases l) (auto simp: print_locations_def)
next
  case False
  define g2 where "g2 = str_printf (''  Location:'' @ newline) gs"
  have lines: "location_lines (rev ms) 4 (map_option (\<lambda>m. n_id (m_node m)) l) None g2 K = Some (off, gs', K')"
    using assms(1) False by (simp add: print_locations_def g2_def)
  have "gs_le g2 gs' \<and> (\<forall>x. off = Some x \<longrightarrow> at_line gs' x) \<and> (l \<noteq> None \<longrightarrow> off \<noteq> None)"
    using location_lines_keep [OF lines] assms(2,3) by auto
  moreover have "gs_le gs g2" by (simp add: g2_def)
  ultimately show ?thesis using gs_le_trans by blast
qed

lemma print_prompt_jumps:
  assumes "print_prompt entry ms (gs, Some ks, K) = Some (gs', head', K')" "length ms \<le> 8" "jumps_ok gs ks"
  shows "\<exists>ks'. head' = Some ks' \<and> jumps_ok gs' ks'"
proof -
  obtain loc K1 where loc: "innermost_visible ms None K = Some (loc, K1)"
    using assms(1) by (auto simp: print_prompt_def bind_eq_Some_conv)
  show ?thesis
  proof (cases loc)
    case None
    with assms(1) loc obtain off K3 where "print_locations ms None gs K1 = Some (off, gs', K3)" "head' = Some ks"
      by (auto simp: print_prompt_def bind_eq_Some_conv)
    with print_locations_keep [OF this(1) assms(2)] jumps_ok_le [OF assms(3)] show ?thesis by auto
  next
    case (Some l)
    with assms(1) loc obtain t K2 off K3 where 1: "print_locations ms loc gs K2 = Some (off, gs', K3)"
      "head' = Some (ks @ [\<lparr>jk_target = t, jk_index = next_index ks, jk_offset = off\<rparr>])"
      by (auto simp: print_prompt_def bind_eq_Some_conv)
    have "l \<in> set ms" using innermost_in [OF loc] Some by auto
    with print_locations_keep [OF 1(1) assms(2)] Some obtain x where "off = Some x" "at_line gs' x" "gs_le gs gs'" by auto
    with 1(2) jumps_ok_le [OF assms(3)] assms(3) show ?thesis
      by (auto simp: jumps_ok_def next_index_length)
  qed
qed

lemma prompt_jumps:
  assumes "get_prompt_str root p (gs, Some ks, K) = Some (gs', head', K')" "jumps_ok gs ks"
  shows "\<exists>ks'. head' = Some ks' \<and> jumps_ok gs' ks'"
proof -
  define g1 where "g1 = str_printf (''Prompt: '' @ printable (p_text p) @ newline) gs"
  obtain entry ms where "print_prompt entry ms (g1, Some ks, K) = Some (gs', head', K')" "length ms \<le> 8"
    using assms(1) by (auto simp: get_prompt_str_def g1_def bind_eq_Some_conv split: if_splits)
  from print_prompt_jumps [OF this(1,2) jumps_ok_le [OF assms(2)]] show ?thesis by (simp add: g1_def)
qed

lemma prompts_jumps:
  "prompts_str root ps (gs, Some ks, K) = Some (gs', head', K') \<Longrightarrow> jumps_ok gs ks \<Longrightarrow>
     \<exists>ks'. head' = Some ks' \<and> jumps_ok gs' ks'"
proof (induction ps arbitrary: gs ks K)
  case (Cons p ps)
  show ?case
  proof (cases "p_text p = None")
    case True
    then show ?thesis using Cons by simp
  next
    case False
    with Cons.prems(1) obtain g1 h1 K1 where 1: "get_prompt_str root p (gs, Some ks, K) = Some (g1, h1, K1)"
      "prompts_str root ps (g1, h1, K1) = Some (gs', head', K')" by (auto simp: bind_eq_Some_conv)
    from prompt_jumps [OF 1(1) Cons.prems(2)] obtain k1 where k1: "h1 = Some k1" "jumps_ok g1 k1" by blast
    from Cons.IH [OF 1(2) [unfolded k1(1)] k1(2)] show ?thesis .
  qed
qed auto

lemma relations_jumps:
  "relations root place ss (gs, Some ks, K) = Some (gs', head', K') \<Longrightarrow> jumps_ok gs ks \<Longrightarrow>
     \<exists>ks'. head' = Some ks' \<and> jumps_ok gs' ks'"
proof (induction ss arbitrary: gs ks K)
  case (Cons s ss)
  then obtain g1 K1 g2 h2 K2 g3 where 1: "symbol_head s gs K = Some (g1, K1)"
    "prompts_str root (s_prop (k_tab K1 s)) (g1, Some ks, K1) = Some (g2, h2, K2)"
    "symbol_rest place s K2 g2 = Some g3" "relations root place ss (g3, h2, K2) = Some (gs', head', K')"
    by (auto simp: get_symbol_str_def bind_eq_Some_conv)
  from prompts_jumps [OF 1(2) jumps_ok_le [OF Cons.prems(2) gs_le_head [OF 1(1)]]] obtain k2 where
    2: "h2 = Some k2" "jumps_ok g2 k2" by blast
  from Cons.IH [OF 1(4) [unfolded 2(1)] jumps_ok_le [OF 2(2) gs_le_rest [OF 1(3)]]] show ?case .
qed auto

section \<open>Properties\<close>

text \<open>
  C28: when all symbols are calculated, \<open>menu_is_visible\<close> decides the declarative
  predicate \<open>visible_now\<close>, and its only effect is that every symbol on the way down to
  the entry that makes a hidden one visible counts as set by the user.
\<close>

theorem menu_is_visible_exact:
  assumes "settled K"
  shows "menu_is_visible m K = Some (visible_now K m, foldr (set_flag SYMBOL_DEF_USER) (opened K m) K)"
  using assms by (rule visible_settled)


text \<open>A menu with a hidden option that is selected, and a visible one below it.\<close>

definition view_prop :: "string \<Rightarrow> tristate \<Rightarrow> nat \<Rightarrow> property" where
  "view_prop t v m = \<lparr>p_type = P_PROMPT, p_text = Some t, p_vis_expr = None, p_vis_tri = v, p_expr = None, p_menu = Some m\<rparr>"

definition view_symbol :: "string \<Rightarrow> property list \<Rightarrow> symbol" where
  "view_symbol nm ps = (new_symbol (Some nm) {SYMBOL_VALID})
     \<lparr>s_type := S_BOOLEAN, s_curr := \<lparr>sv_val = CNull, sv_tri = tri_yes\<rparr>, s_prop := ps\<rparr>"

definition view_store :: kstate where
  "view_store = empty_table\<lparr>k_tab := (\<lambda>t. if t = Sym 0 then view_symbol ''A'' [view_prop ''a'' tri_no 1]
     else if t = Sym 1 then view_symbol ''B'' [view_prop ''b'' tri_yes 2] else view_symbol ''C'' []), k_nsyms := 2\<rparr>"

definition view_node :: "nat \<Rightarrow> symref option \<Rightarrow> prompt_ref option \<Rightarrow> menu_node" where
  "view_node i s p = \<lparr>n_id = i, n_sym = s, n_prompt = p, n_visibility = None, n_dep = None, n_help = None\<rparr>"

definition view_entry :: menu where
  "view_entry = Menu (view_node 1 (Some (Sym 0)) (Some (Sym_prompt 0)))
     [Menu (view_node 2 (Some (Sym 1)) (Some (Sym_prompt 0))) []]"

definition view_root :: menu where
  "view_root = Menu (view_node 0 None (Some (Own_prompt (view_prop ''Main'' tri_yes 0)))) [view_entry]"

lemma view_settled: "settled view_store"
  by (simp add: settled_def has_flag_def view_store_def view_symbol_def new_symbol_def)

theorem menu_is_visible_exact_witness:
  "menu_is_visible view_entry view_store = Some (True, set_flag SYMBOL_DEF_USER (Sym 0) view_store)"
  using menu_is_visible_exact [OF view_settled, of view_entry]
  by (simp add: view_entry_def view_node_def prompt_prop_def view_store_def view_symbol_def view_prop_def
      new_symbol_def empty_table_def prompt_tri_def sym_get_tristate_value_def)

lemma printf_short: "length s < 9999 \<Longrightarrow> str_printf s gs = str_append (Some s) gs"
  by (simp add: str_printf_def)

lemma view_tab:
  "s_name (k_tab view_store t) = Some (if t = Sym 0 then ''A'' else if t = Sym 1 then ''B'' else ''C'')"
  "s_type (k_tab view_store t) = S_BOOLEAN" "sv_tri (s_curr (k_tab view_store t)) = tri_yes"
  "s_prop (k_tab view_store t) =
     (if t = Sym 0 then [view_prop ''a'' tri_no 1] else if t = Sym 1 then [view_prop ''b'' tri_yes 2] else [])"
  "s_rev_dep (k_tab view_store t) = None" "s_implied (k_tab view_store t) = None"
  by (simp_all add: view_store_def view_symbol_def new_symbol_def)

lemma view_marked: "settled (set_flag SYMBOL_DEF_USER s view_store)"
  using view_settled by (simp add: settled_def)

lemma view_marked_tab:
  "s_name (k_tab (set_flag fl u K) t) = s_name (k_tab K t)"
  "s_type (k_tab (set_flag fl u K) t) = s_type (k_tab K t)" "s_curr (k_tab (set_flag fl u K) t) = s_curr (k_tab K t)"
  "s_prop (k_tab (set_flag fl u K) t) = s_prop (k_tab K t)"
  "s_rev_dep (k_tab (set_flag fl u K) t) = s_rev_dep (k_tab K t)" "s_implied (k_tab (set_flag fl u K) t) = s_implied (k_tab K t)"
  by (simp_all add: set_flag_def k_tab_upd)

lemma view_relations:
  "map_option (\<lambda>(gs, ks, K). ks) (get_relations_str view_root (\<lambda>_. (''Config.in'', 7)) [Sym 1] (Some []) view_store) =
     Some (Some [\<lparr>jk_target = 2, jk_index = 0, jk_offset = Some 50\<rparr>])"
  by (simp add: get_relations_str_def get_symbol_str_def symbol_head_def settled_get_string [OF view_settled] view_tab
      sym_get_string_value_def sym_get_tristate_value_def get_prompt_str_def view_prop_def view_root_def view_entry_def view_node_def
      print_prompt_def visible_settled(1) [OF view_settled] visible_settled(1) [OF view_marked] prompt_prop_def prompt_tri_def
      view_marked_tab jump_target_def print_locations_def location_symbol_def settled_get_string [OF view_marked]
      printf_short newline_def str_append_def str_new_def symbol_rest_def defined_at_def get_symbol_prop_def
      get_symbol_props_str_def revdeps_def next_index_def menu_get_prompt_def printable_def Let_def del: menu_is_visible.simps)


end
