(* ===== verification/Conf_Read.thy ===== *)
theory Conf_Read
  imports Symtab
begin

text \<open>
  Reading a configuration (confdata.c): values of symbols, lines, files. The state
  is the symbol store and the number of warnings. \<open>None\<close> is a null pointer or a
  read behind the end of a line. \<open>CONFIG_\<close>, the prefix of names, is a parameter
  (in this repository it is empty unless the environment sets it), and so are the
  files. A text holds no NUL.
\<close>

section \<open>Default values\<close>

datatype def_kind = S_DEF_USER | S_DEF_AUTO

fun def_flag :: "def_kind \<Rightarrow> symflag" where
  "def_flag S_DEF_USER = SYMBOL_DEF_USER"
| "def_flag S_DEF_AUTO = SYMBOL_DEF_AUTO"

fun get_def :: "def_kind \<Rightarrow> symbol \<Rightarrow> symbol_value" where
  "get_def S_DEF_USER r = s_def_user r"
| "get_def S_DEF_AUTO r = s_def_auto r"

fun set_def :: "def_kind \<Rightarrow> symbol_value \<Rightarrow> symbol \<Rightarrow> symbol" where
  "set_def S_DEF_USER v r = r\<lparr>s_def_user := v\<rparr>"
| "set_def S_DEF_AUTO v r = r\<lparr>s_def_auto := v\<rparr>"

type_synonym conf = "kstate \<times> nat"

definition def_tri :: "def_kind \<Rightarrow> symref \<Rightarrow> kstate \<Rightarrow> tristate" where
  "def_tri def s K = sv_tri (get_def def (k_tab K s))"

definition set_def_tri :: "def_kind \<Rightarrow> symref \<Rightarrow> tristate \<Rightarrow> kstate \<Rightarrow> kstate" where
  "set_def_tri def s t K = upd_sym s (\<lambda>r. set_def def ((get_def def r)\<lparr>sv_tri := t\<rparr>) r) K"

definition set_def_val :: "def_kind \<Rightarrow> symref \<Rightarrow> cval \<Rightarrow> kstate \<Rightarrow> kstate" where
  "set_def_val def s v K = upd_sym s (\<lambda>r. set_def def ((get_def def r)\<lparr>sv_val := v\<rparr>) r) K"

section \<open>\<open>conf_set_sym_val\<close>\<close>

text \<open>
  The string between the quotes: a backslash is removed and the character behind it
  kept; \<open>None\<close> when the closing quote is missing.
\<close>

fun unquote :: "string \<Rightarrow> string option" where
  "unquote [] = None"
| "unquote (c # cs) =
     (if c = CHR 0x22 then Some []
      else if c = CHR 0x5c then
        (case cs of [] \<Rightarrow> None | d # ds \<Rightarrow> map_option ((#) d) (unquote ds))
      else map_option ((#) c) (unquote cs))"

definition begins :: "char \<Rightarrow> string \<Rightarrow> bool" where
  "begins c p \<longleftrightarrow> (case p of [] \<Rightarrow> False | d # _ \<Rightarrow> d = c)"

definition warn :: "def_kind \<Rightarrow> nat \<Rightarrow> nat" where
  "warn def w = (if def \<noteq> S_DEF_AUTO then w + 1 else w)"

definition set_tri_val :: "symref \<Rightarrow> def_kind \<Rightarrow> tristate \<Rightarrow> conf \<Rightarrow> bool \<times> conf" where
  "set_tri_val s def t C = (False, set_flag (def_flag def) s (set_def_tri def s t (fst C)), snd C)"

text \<open>The label \<open>done\<close>.\<close>

definition set_string_val :: "symref \<Rightarrow> def_kind \<Rightarrow> string \<Rightarrow> conf \<Rightarrow> bool \<times> conf" where
  "set_string_val s def p C =
     (if sym_string_valid (s_type (k_tab (fst C) s)) p
      then (False, set_flag (def_flag def) s (set_def_val def s (CStr p) (fst C)), snd C)
      else (True, fst C, warn def (snd C)))"

definition set_quoted_val :: "symref \<Rightarrow> def_kind \<Rightarrow> string \<Rightarrow> conf \<Rightarrow> bool \<times> conf" where
  "set_quoted_val s def p C =
     (if \<not> begins CHR 0x22 p then (False, C)
      else (case unquote (tl p) of
              None \<Rightarrow> (True, fst C, warn def (snd C))
            | Some q \<Rightarrow> set_string_val s def q C))"

definition conf_set_sym_val :: "symref \<Rightarrow> def_kind \<Rightarrow> string \<Rightarrow> conf \<Rightarrow> bool \<times> conf" where
  "conf_set_sym_val s def p C =
     (let ty = s_type (k_tab (fst C) s) in
      if ty = S_TRISTATE \<and> begins CHR ''m'' p then set_tri_val s def tri_mod C
      else if ty = S_TRISTATE \<or> ty = S_BOOLEAN then
        (if begins CHR ''y'' p then set_tri_val s def tri_yes C
         else if begins CHR ''n'' p then set_tri_val s def tri_no C
         else (True, fst C, warn def (snd C)))
      else if ty = S_OTHER then
        (if \<not> begins CHR 0x22 p
         then set_string_val s def p (upd_sym s (\<lambda>r. r\<lparr>s_type := S_STRING\<rparr>) (fst C), snd C)
         else set_quoted_val s def p C)
      else if ty = S_STRING then set_quoted_val s def p C
      else if ty = S_INT \<or> ty = S_HEX then set_string_val s def p C
      else (False, C))"

section \<open>Lines\<close>

text \<open>\<open>compat_getline\<close>: the text up to and with the next newline.\<close>

fun compat_getline :: "string \<Rightarrow> (string \<times> string) option" where
  "compat_getline [] = None"
| "compat_getline (c # cs) =
     (if c = CHR 0x0a then Some ([c], cs)
      else (case compat_getline cs of
              None \<Rightarrow> Some ([c], [])
            | Some (line, rest) \<Rightarrow> Some (c # line, rest)))"

text \<open>\<open>strchr\<close>: the parts before and behind the first \<open>c\<close>.\<close>

definition split_at :: "char \<Rightarrow> string \<Rightarrow> (string \<times> string) option" where
  "split_at c s =
     (case dropWhile (\<lambda>d. d \<noteq> c) s of [] \<Rightarrow> None | _ # rest \<Rightarrow> Some (takeWhile (\<lambda>d. d \<noteq> c) s, rest))"

text \<open>The value without the end of the line.\<close>

definition chop :: "string \<Rightarrow> string" where
  "chop p =
     (case split_at CHR 0x0a p of
        None \<Rightarrow> p
      | Some (v, _) \<Rightarrow> if v \<noteq> [] \<and> last v = CHR 0x0d then butlast v else v)"

text \<open>The symbol a line is about, and the override warning.\<close>

definition conf_target :: "def_kind \<Rightarrow> symbol_type \<Rightarrow> string \<Rightarrow> conf \<Rightarrow> symref option \<times> conf" where
  "conf_target def ty name C =
     (case def of
        S_DEF_USER \<Rightarrow>
          (case sym_find (Some name) (fst C) of
             None \<Rightarrow> (None, sym_add_change_count 1 (fst C), snd C)
           | Some s \<Rightarrow> (Some s, fst C, if has_flag (def_flag def) s (fst C) then snd C + 1 else snd C))
      | S_DEF_AUTO \<Rightarrow>
          (case sym_lookup (Some name) {} (fst C) of
             (s, K) \<Rightarrow>
               (let K = (if s_type (k_tab K s) = S_UNKNOWN then upd_sym s (\<lambda>r. r\<lparr>s_type := ty\<rparr>) K else K)
                in (Some s, K, if has_flag (def_flag def) s K then snd C + 1 else snd C))))"

text \<open>The label \<open>setsym\<close>: the value of a member of a choice.\<close>

definition conf_set_choice :: "symref \<Rightarrow> def_kind \<Rightarrow> conf \<Rightarrow> conf option" where
  "conf_set_choice s def C =
     (if \<not> sym_is_choice_value (fst C) s then Some C
      else do {
        p \<leftarrow> sym_get_choice_prop (fst C) s;
        cs \<leftarrow> prop_get_symbol p;
        let t = def_tri def s (fst C);
        let K = fst C;
        let w = snd C;
        let (K, w) =
          (case t of
             tri_no \<Rightarrow> (K, w)
           | tri_mod \<Rightarrow> if def_tri def cs K = tri_yes then (clear_flag (def_flag def) cs K, w + 1) else (K, w)
           | tri_yes \<Rightarrow> (set_def_val def cs (CSym s) K, if def_tri def cs K \<noteq> tri_no then w + 1 else w));
        Some (set_def_tri def cs (EXPR_OR (def_tri def cs K) (def_tri def s K)) K, w) })"

definition conf_comment :: "string \<Rightarrow> def_kind \<Rightarrow> string \<Rightarrow> conf \<Rightarrow> conf option" where
  "conf_comment cfg def line C =
     (if length line < 2 then None
      else if \<not> starts_with cfg (drop 2 line) then Some C
      else (case split_at CHR '' '' (drop (2 + length cfg) line) of
        None \<Rightarrow> Some C
      | Some (name, p) \<Rightarrow>
          if \<not> starts_with ''is not set'' p then Some C
          else (case conf_target def S_BOOLEAN name C of
            (None, C) \<Rightarrow> Some C
          | (Some s, C) \<Rightarrow>
              let ty = s_type (k_tab (fst C) s);
                  C = (if ty = S_BOOLEAN \<or> ty = S_TRISTATE then snd (set_tri_val s def tri_no C) else C)
              in conf_set_choice s def C)))"

definition conf_assignment :: "string \<Rightarrow> def_kind \<Rightarrow> string \<Rightarrow> conf \<Rightarrow> conf option" where
  "conf_assignment cfg def line C =
     (case split_at CHR ''='' (drop (length cfg) line) of
        None \<Rightarrow> Some C
      | Some (name, p) \<Rightarrow>
          (case conf_target def S_OTHER name C of
             (None, C) \<Rightarrow> Some C
           | (Some s, C) \<Rightarrow>
               (case conf_set_sym_val s def (chop p) C of
                  (failed, C) \<Rightarrow> if failed then Some C else conf_set_choice s def C)))"

definition conf_line :: "string \<Rightarrow> def_kind \<Rightarrow> string \<Rightarrow> conf \<Rightarrow> conf option" where
  "conf_line cfg def line C =
     (if begins CHR ''#'' line then conf_comment cfg def line C
      else if starts_with cfg line then conf_assignment cfg def line C
      else Some (if \<not> begins CHR 0x0d line \<and> \<not> begins CHR 0x0a line then (fst C, snd C + 1) else C))"

section \<open>\<open>conf_read_simple\<close>\<close>

text \<open>The loop over all symbols that forgets the old values.\<close>

definition reset_def :: "def_kind \<Rightarrow> symbol \<Rightarrow> symbol" where
  "reset_def def r =
     (let r = r\<lparr>s_flags := insert SYMBOL_CHANGED (s_flags r) - {def_flag def, SYMBOL_VALID}\<rparr>;
          r = (if SYMBOL_CHOICE \<in> s_flags r then r\<lparr>s_flags := insert (def_flag def) (s_flags r)\<rparr> else r)
      in set_def def \<lparr>sv_val = CNull, sv_tri = tri_no\<rparr> r)"

definition conf_reset :: "def_kind \<Rightarrow> kstate \<Rightarrow> kstate" where
  "conf_reset def K =
     fold (\<lambda>s K. if s_type (k_tab K s) = S_OTHER then K else upd_sym s (reset_def def) K) (all_symbols K) K"

lemma getline_shorter: "compat_getline inp = Some (line, rest) \<Longrightarrow> length rest < length inp"
proof (induction inp arbitrary: line rest)
  case (Cons c cs)
  then show ?case by (cases "compat_getline cs") (fastforce split: if_splits)+
qed simp

function conf_lines :: "string \<Rightarrow> def_kind \<Rightarrow> string \<Rightarrow> conf \<Rightarrow> conf option" where
  "conf_lines cfg def inp C =
     (case compat_getline inp of
        None \<Rightarrow> Some C
      | Some (line, rest) \<Rightarrow>
          (case conf_line cfg def line C of
             None \<Rightarrow> None
           | Some C \<Rightarrow> conf_lines cfg def rest C))"
  by pat_completeness auto
termination conf_lines
  by (relation "measure (\<lambda>(_, _, inp, _). length inp)") (auto dest: getline_shorter)

declare conf_lines.simps [simp del]

text \<open>The part from the label \<open>load\<close> on: the number of warnings starts at zero.\<close>

definition conf_load :: "string \<Rightarrow> def_kind \<Rightarrow> string \<Rightarrow> kstate \<Rightarrow> conf option" where
  "conf_load cfg def inp K = conf_lines cfg def inp (conf_reset def K, 0)"

text \<open>
  \<open>conf_expand_value\<close>, whose buffers \<open>res_value\<close> and \<open>name\<close> have
  \<open>SYMBOL_MAXLENGTH\<close> bytes; it looks the names up and so may make symbols.
\<close>

function conf_expand_loop :: "string \<Rightarrow> string \<Rightarrow> kstate \<Rightarrow> (string \<times> kstate) option" where
  "conf_expand_loop res inp K =
     (if CHR ''$'' \<notin> set inp then
        (if length res + length inp + 1 > SYMBOL_MAXLENGTH then None else Some (res @ inp, K))
      else
        (let pre = takeWhile (\<lambda>c. c \<noteq> CHR ''$'') inp;
             src = tl (dropWhile (\<lambda>c. c \<noteq> CHR ''$'') inp);
             name = takeWhile name_char src
         in if length res + length pre + 1 > SYMBOL_MAXLENGTH then None
            else if length name \<ge> SYMBOL_MAXLENGTH then None
            else
              (case sym_lookup (Some name) {} K of
                 (s, K) \<Rightarrow> do {
                   (_, K) \<leftarrow> calc_sym s K;
                   (symval, K) \<leftarrow> get_string_value calc_sym s K;
                   if length res + length pre + length symval + 1 > SYMBOL_MAXLENGTH then None
                   else conf_expand_loop (res @ pre @ symval) (dropWhile name_char src) K })))"
  by pat_completeness auto
termination conf_expand_loop
  by (relation "measure (\<lambda>(_, inp, _). length inp)") (auto simp: expand_decreases)

declare conf_expand_loop.simps [simp del]

definition conf_expand_value :: "string \<Rightarrow> kstate \<Rightarrow> (string \<times> kstate) option" where
  "conf_expand_value inp K = conf_expand_loop [] inp K"

text \<open>The files \<open>sym_defconfig_list\<close> names, up to the first that exists.\<close>

fun find_defconfig :: "(string \<Rightarrow> string option) \<Rightarrow> property list \<Rightarrow> kstate \<Rightarrow> (string option \<times> kstate) option" where
  "find_defconfig files [] K = Some (None, K)"
| "find_defconfig files (p # ps) K =
     (if p_type p \<noteq> P_DEFAULT then find_defconfig files ps K
      else do {
        (vis, K) \<leftarrow> calc_opt calc_sym (p_vis_expr p) K;
        (case (vis, p_expr p) of
           (tri_no, _) \<Rightarrow> find_defconfig files ps K
         | (_, Some (Esym s)) \<Rightarrow> do {
             nm \<leftarrow> s_name (k_tab K s);
             (name, K) \<leftarrow> conf_expand_value nm K;
             (case files name of
                Some inp \<Rightarrow> Some (Some inp, K)
              | None \<Rightarrow> find_defconfig files ps K) }
         | (_, Some _) \<Rightarrow> find_defconfig files ps K
         | (_, None) \<Rightarrow> None) })"

text \<open>
  The result 1 (\<open>True\<close>) when no file is found; \<open>configname\<close> is what
  \<open>conf_get_configname\<close> returns, \<open>warnings\<close> the count before the call.
\<close>

definition conf_read_simple ::
  "string \<Rightarrow> (string \<Rightarrow> string option) \<Rightarrow> string \<Rightarrow> symref option \<Rightarrow> string option \<Rightarrow> def_kind \<Rightarrow> conf \<Rightarrow>
   (bool \<times> conf) option" where
  "conf_read_simple cfg files configname defconfig_list name def C =
     (let load = (\<lambda>inp K. map_option (Pair False) (conf_load cfg def inp K)) in
      case name of
        Some name \<Rightarrow>
          (case files name of None \<Rightarrow> Some (True, C) | Some inp \<Rightarrow> load inp (fst C))
      | None \<Rightarrow>
          (case files configname of
             Some inp \<Rightarrow> load inp (fst C)
           | None \<Rightarrow>
               let K = sym_add_change_count 1 (fst C) in
               (case defconfig_list of
                  None \<Rightarrow> Some (True, K, snd C)
                | Some d \<Rightarrow> do {
                    (found, K) \<leftarrow> find_defconfig files (s_prop (k_tab K d)) K;
                    (case found of None \<Rightarrow> Some (True, K, snd C) | Some inp \<Rightarrow> load inp K) })))"

end
