(* ===== verification/Conf_Write.thy ===== *)
theory Conf_Write
  imports Conf_Read
begin

text \<open>
  The printers of confdata.c for configurations, headers and tristate files, and
  the round trip of a configuration: what \<open>conf_write_symbol\<close> prints,
  \<open>conf_read_simple\<close> reads back.
\<close>

section \<open>Printers\<close>

text \<open>\<open>kconfig_print_symbol\<close>; \<open>skip_unset\<close> is whether \<open>arg\<close> is not null.\<close>

definition kconfig_print_symbol :: "string \<Rightarrow> symbol_type \<Rightarrow> string \<Rightarrow> string \<Rightarrow> bool \<Rightarrow> string" where
  "kconfig_print_symbol cfg ty name val skip_unset =
     (if (ty = S_BOOLEAN \<or> ty = S_TRISTATE) \<and> begins CHR ''n'' val then
        (if skip_unset then [] else ''# '' @ cfg @ name @ '' is not set'' @ [CHR 0x0a])
      else cfg @ name @ ''='' @ val @ [CHR 0x0a])"

text \<open>\<open>header_print_symbol\<close>: macros for C.\<close>

definition header_print_symbol :: "string \<Rightarrow> symbol_type \<Rightarrow> string \<Rightarrow> string \<Rightarrow> bool \<Rightarrow> string" where
  "header_print_symbol cfg ty name val arg =
     (if ty = S_BOOLEAN \<or> ty = S_TRISTATE then
        (if begins CHR ''n'' val then []
         else ''#define '' @ cfg @ name @ (if begins CHR ''m'' val then ''_MODULE'' else []) @ '' 1'' @ [CHR 0x0a])
      else if ty = S_HEX then
        ''#define '' @ cfg @ name @ '' '' @ (if has_0x val then [] else ''0x'') @ val @ [CHR 0x0a]
      else if ty = S_STRING \<or> ty = S_INT then
        ''#define '' @ cfg @ name @ '' '' @ val @ [CHR 0x0a]
      else [])"

definition c_toupper :: "char \<Rightarrow> char" where
  "c_toupper c = (let n = (of_char c :: nat) in if 97 \<le> n \<and> n \<le> 122 then char_of (n - 32) else c)"

definition tristate_print_symbol :: "string \<Rightarrow> symbol_type \<Rightarrow> string \<Rightarrow> string \<Rightarrow> bool \<Rightarrow> string" where
  "tristate_print_symbol cfg ty name val arg =
     (if ty = S_TRISTATE \<and> \<not> begins CHR ''n'' val
      then cfg @ name @ ''='' @ [c_toupper (case val of [] \<Rightarrow> CHR 0x00 | c # _ \<Rightarrow> c)] @ [CHR 0x0a]
      else [])"

text \<open>The loop of the comment printers over the lines of a text.\<close>

function comment_lines :: "string \<Rightarrow> string \<Rightarrow> string" where
  "comment_lines lead p =
     (let l = takeWhile (\<lambda>c. c \<noteq> CHR 0x0a) p;
          out = lead @ (if l \<noteq> [] then '' '' @ l else []) @ [CHR 0x0a]
      in case dropWhile (\<lambda>c. c \<noteq> CHR 0x0a) p of
           [] \<Rightarrow> out
         | _ # rest \<Rightarrow> out @ comment_lines lead rest)"
  by pat_completeness auto
termination comment_lines
proof (relation "measure (\<lambda>(_, p). length p)")
  fix lead p l :: string and x and out d rest
  assume "dropWhile (\<lambda>c. c \<noteq> CHR 0x0a) p = d # rest"
  then show "((lead, rest), lead, p) \<in> measure (\<lambda>(_, p). length p)"
    using length_dropWhile_le [of "\<lambda>c. c \<noteq> CHR 0x0a" p] by simp
qed simp

declare comment_lines.simps [simp del]

definition kconfig_print_comment :: "string \<Rightarrow> string" where
  "kconfig_print_comment p = comment_lines ''#'' p"

definition header_print_comment :: "string \<Rightarrow> string" where
  "header_print_comment p = ''/*'' @ [CHR 0x0a] @ comment_lines '' *'' p @ '' */'' @ [CHR 0x0a]"

text \<open>\<open>conf_write_symbol\<close> with one of the printers.\<close>

definition conf_write_symbol ::
  "(string \<Rightarrow> symbol_type \<Rightarrow> string \<Rightarrow> string \<Rightarrow> bool \<Rightarrow> string) \<Rightarrow> string \<Rightarrow> bool \<Rightarrow> symref \<Rightarrow> kstate \<Rightarrow>
   (string \<times> kstate) option" where
  "conf_write_symbol printer cfg arg s K =
     (let ty = s_type (k_tab K s) in
      if ty = S_OTHER \<or> ty = S_UNKNOWN then Some ([], K)
      else do {
        name \<leftarrow> s_name (k_tab K s);
        (str, K) \<leftarrow> get_string_value calc_sym s K;
        (if ty = S_STRING then do {
           str \<leftarrow> sym_escape_string_value str;
           Some (printer cfg ty name str arg, K) }
         else Some (printer cfg ty name str arg, K)) })"

text \<open>\<open>conf_write_heading\<close>; \<open>snprintf\<close> cuts the text to the 256 bytes of the buffer.\<close>

definition conf_write_heading :: "(string \<Rightarrow> string) \<Rightarrow> string \<Rightarrow> string" where
  "conf_write_heading print_comment title =
     print_comment (take 255 ([CHR 0x0a] @ ''Automatically generated file; DO NOT EDIT.'' @ [CHR 0x0a] @ title @ [CHR 0x0a]))"

section \<open>Quoting\<close>

lemma unquote_escape: "unquote (escape_body s @ CHR 0x22 # rest) = Some s"
  by (induction s) (auto simp: is_special_def)

lemma length_escape_body: "length (escape_body s) = length s + length (filter is_special s)"
  by (induction s) simp_all

lemma escape_fits: "sym_escape_string_value s = Some (CHR 0x22 # escape_body s @ [CHR 0x22])"
  by (simp add: sym_escape_string_value_def escape_size_def length_escape_body)

text \<open>
  C17: \<open>sym_escape_string_value\<close> fills its buffer exactly, and the reader takes the
  quoted text, whatever follows it, for the string it came from.
\<close>

theorem escape_roundtrip:
  "\<exists>q. sym_escape_string_value s = Some q \<and> length q + 1 = escape_size s \<and>
       begins CHR 0x22 q \<and> unquote (tl q @ rest) = Some s"
  by (simp add: escape_fits escape_size_def length_escape_body begins_def unquote_escape)

section \<open>One line\<close>

definition tri_value :: "string \<Rightarrow> tristate" where
  "tri_value v = (if v = ''y'' then tri_yes else if v = ''m'' then tri_mod else tri_no)"

text \<open>The user value that the printed value stands for.\<close>

definition user_set :: "symbol_type \<Rightarrow> string \<Rightarrow> symref \<Rightarrow> kstate \<Rightarrow> kstate" where
  "user_set ty v s K =
     set_flag SYMBOL_DEF_USER s
       (if ty = S_BOOLEAN \<or> ty = S_TRISTATE then set_def_tri S_DEF_USER s (tri_value v) K
        else set_def_val S_DEF_USER s (CStr v) K)"

text \<open>The values a symbol of a type can have, as \<open>sym_get_string_value\<close> returns them.\<close>

definition value_fits :: "symbol_type \<Rightarrow> string \<Rightarrow> bool" where
  "value_fits ty v =
     (if ty = S_BOOLEAN then v = ''y'' \<or> v = ''n''
      else if ty = S_TRISTATE then v = ''y'' \<or> v = ''m'' \<or> v = ''n''
      else if ty = S_STRING then CHR 0x0a \<notin> set v
      else if ty = S_INT \<or> ty = S_HEX then sym_string_valid ty v
      else False)"

definition name_fits :: "string \<Rightarrow> bool" where
  "name_fits name \<longleftrightarrow> name \<noteq> [] \<and> list_all name_char name"

definition printed :: "string \<Rightarrow> symbol_type \<Rightarrow> string \<Rightarrow> string \<Rightarrow> string" where
  "printed cfg ty name v =
     kconfig_print_symbol cfg ty name (if ty = S_STRING then CHR 0x22 # escape_body v @ [CHR 0x22] else v) False"

lemma name_char_not:
  "\<not> name_char CHR '' ''" "\<not> name_char CHR ''=''" "\<not> name_char CHR 0x0a" "\<not> name_char CHR ''#''" "\<not> name_char CHR 0x0d"
  by (simp_all add: name_char_def digit_val_def Let_def)

lemma name_avoids:
  "list_all name_char name \<Longrightarrow> \<not> name_char c \<Longrightarrow> c \<notin> set name"
  by (auto simp: list_all_iff)

lemma split_at_append: "c \<notin> set xs \<Longrightarrow> split_at c (xs @ c # ys) = Some (xs, ys)"
proof -
  assume c: "c \<notin> set xs"
  then have "\<And>d. d \<in> set xs \<Longrightarrow> d \<noteq> c" by blast
  then have "dropWhile (\<lambda>d. d \<noteq> c) (xs @ c # ys) = c # ys" "takeWhile (\<lambda>d. d \<noteq> c) (xs @ c # ys) = xs"
    by (simp_all add: dropWhile_append2 takeWhile_append2)
  then show ?thesis by (simp add: split_at_def)
qed

lemma chop_line: "CHR 0x0a \<notin> set v \<Longrightarrow> v = [] \<or> last v \<noteq> CHR 0x0d \<Longrightarrow> chop (v @ [CHR 0x0a]) = v"
  by (auto simp: chop_def split_at_append)

lemma digit_name_char: "is_digit_of b c \<Longrightarrow> name_char c"
  by (auto simp: is_digit_of_def name_char_def split: option.splits)

lemma numeral_chars: "ty = S_INT \<or> ty = S_HEX \<Longrightarrow> sym_string_valid ty v \<Longrightarrow> c \<in> set v \<Longrightarrow> c = CHR ''-'' \<or> name_char c"
proof -
  assume ty: "ty = S_INT \<or> ty = S_HEX" and v: "sym_string_valid ty v" and c: "c \<in> set v"
  have "int_valid v \<or> hex_valid v" using ty v by (auto simp: sym_string_valid_def)
  then show ?thesis
  proof
    assume "int_valid v"
    then show ?thesis
      using c digit_name_char by (cases v) (auto simp: int_valid_def list_all_iff split: if_splits list.splits)
  next
    assume hex: "hex_valid v"
    have x: "name_char CHR ''0''" "name_char CHR ''x''" "name_char CHR ''X''"
      by (simp_all add: name_char_def digit_val_def Let_def)
    show ?thesis
    proof (cases "has_0x v")
      case True
      have digits: "list_all c_isxdigit (drop 2 v)" using hex True by (simp add: hex_valid_def Let_def)
      have "c \<in> set (take 2 v) \<or> c \<in> set (drop 2 v)" using c by (metis Un_iff append_take_drop_id set_append)
      then show ?thesis
      proof
        assume "c \<in> set (take 2 v)"
        then show ?thesis using True x by (auto simp: has_0x_def)
      next
        assume "c \<in> set (drop 2 v)"
        then show ?thesis using digits digit_name_char by (auto simp: list_all_iff)
      qed
    next
      case False
      then have "list_all c_isxdigit v" using hex by (simp add: hex_valid_def Let_def)
      then show ?thesis using c digit_name_char by (auto simp: list_all_iff)
    qed
  qed
qed

lemma escape_no_newline: "CHR 0x0a \<notin> set v \<Longrightarrow> CHR 0x0a \<notin> set (escape_body v)"
  by (induction v) (auto simp: is_special_def)

lemma begins_simps [simp]: "begins c (d # ds) = (d = c)" "\<not> begins c []"
  by (simp_all add: begins_def)

text \<open>An assignment, for a value whose end the reader finds.\<close>

lemma conf_line_assignment:
  assumes "list_all name_char cfg" "name_fits name" "sym_find (Some name) K = Some s"
    and "CHR 0x0a \<notin> set v" "v = [] \<or> last v \<noteq> CHR 0x0d"
  shows "conf_line cfg S_DEF_USER (cfg @ name @ ''='' @ v @ [CHR 0x0a]) (K, w) =
           (case conf_set_sym_val s S_DEF_USER v (K, if has_flag SYMBOL_DEF_USER s K then w + 1 else w) of
              (failed, C) \<Rightarrow> if failed then Some C else conf_set_choice s S_DEF_USER C)"
proof -
  have all: "list_all name_char (cfg @ name)" "cfg @ name \<noteq> []"
    using assms(1,2) by (simp_all add: name_fits_def)
  then have first: "\<not> begins CHR ''#'' (cfg @ name @ rest)" for rest
  proof (cases cfg)
    case Nil
    then show ?thesis using all name_char_not by (cases name) auto
  next
    case (Cons c cs)
    then show ?thesis using all name_char_not by auto
  qed
  have "CHR ''='' \<notin> set name"
    using assms(2) name_char_not by (intro name_avoids) (simp_all add: name_fits_def)
  then have "split_at CHR ''='' (name @ ''='' @ v @ [CHR 0x0a]) = Some (name, v @ [CHR 0x0a])"
    by (simp add: split_at_append)
  then show ?thesis
    using first assms(3) chop_line [OF assms(4,5)]
    by (simp add: conf_line_def conf_assignment_def conf_target_def)
qed

text \<open>A printed line sets the user value, and the choice the symbol belongs to follows.\<close>

lemma conf_line_sets:
  assumes "list_all name_char cfg" "name_fits name"
    and "sym_find (Some name) K = Some s" "s_type (k_tab K s) = ty"
    and "value_fits ty v"
  shows "conf_line cfg S_DEF_USER (printed cfg ty name v) (K, w) =
           conf_set_choice s S_DEF_USER (user_set ty v s K, if has_flag SYMBOL_DEF_USER s K then w + 1 else w)"
proof -
  let ?w = "if has_flag SYMBOL_DEF_USER s K then w + 1 else w"
  have tri: "set_tri_val s S_DEF_USER (tri_value v) (K, ?w) = (False, user_set ty v s K, ?w)"
    if "ty = S_BOOLEAN \<or> ty = S_TRISTATE"
    using that by (auto simp: set_tri_val_def user_set_def)
  consider (unset) "ty = S_BOOLEAN \<or> ty = S_TRISTATE" "v = ''n''"
    | (bool) "ty = S_BOOLEAN \<or> ty = S_TRISTATE" "v = ''y'' \<or> (v = ''m'' \<and> ty = S_TRISTATE)"
    | (string) "ty = S_STRING" "CHR 0x0a \<notin> set v"
    | (number) "ty = S_INT \<or> ty = S_HEX" "sym_string_valid ty v"
    using assms(5) by (auto simp: value_fits_def split: if_splits)
  then show ?thesis
  proof cases
    case unset
    have "CHR '' '' \<notin> set name"
      using assms(2) name_char_not by (intro name_avoids) (simp_all add: name_fits_def)
    then have "split_at CHR '' '' (name @ '' is not set'' @ [CHR 0x0a]) = Some (name, ''is not set'' @ [CHR 0x0a])"
      using split_at_append [of "CHR '' ''" name "''is not set'' @ [CHR 0x0a]"] by simp
    moreover have "starts_with ''is not set'' (''is not set'' @ [CHR 0x0a])" by (rule starts_with_append)
    ultimately show ?thesis
      using unset assms(3,4) tri [OF unset(1)]
      by (auto simp: printed_def kconfig_print_symbol_def conf_line_def conf_comment_def conf_target_def tri_value_def)
  next
    case bool
    have "conf_line cfg S_DEF_USER (cfg @ name @ ''='' @ v @ [CHR 0x0a]) (K, w) = conf_set_choice s S_DEF_USER (user_set ty v s K, ?w)"
      using bool assms(4) tri [OF bool(1)]
      by (subst conf_line_assignment [OF assms(1-3)]) (auto simp: conf_set_sym_val_def tri_value_def)
    then show ?thesis using bool by (auto simp: printed_def kconfig_print_symbol_def)
  next
    case string
    have "conf_line cfg S_DEF_USER (cfg @ name @ ''='' @ (CHR 0x22 # escape_body v @ [CHR 0x22]) @ [CHR 0x0a]) (K, w) =
        conf_set_choice s S_DEF_USER (user_set ty v s K, ?w)"
      using string assms(4)
      by (subst conf_line_assignment [OF assms(1-3)])
         (auto simp: escape_no_newline conf_set_sym_val_def set_quoted_val_def unquote_escape set_string_val_def
            sym_string_valid_def user_set_def)
    then show ?thesis using string by (simp add: printed_def kconfig_print_symbol_def)
  next
    case number
    have no: "CHR 0x0a \<notin> set v" "CHR 0x0d \<notin> set v"
      using numeral_chars [OF number, of "CHR 0x0a"] numeral_chars [OF number, of "CHR 0x0d"] name_char_not by auto
    then have chars: "CHR 0x0a \<notin> set v" "v = [] \<or> last v \<noteq> CHR 0x0d" by (metis last_in_set)+
    have "conf_line cfg S_DEF_USER (cfg @ name @ ''='' @ v @ [CHR 0x0a]) (K, w) = conf_set_choice s S_DEF_USER (user_set ty v s K, ?w)"
      using number assms(4)
      by (subst conf_line_assignment [OF assms(1-3) chars])
         (auto simp: conf_set_sym_val_def set_string_val_def user_set_def)
    then show ?thesis using number by (auto simp: printed_def kconfig_print_symbol_def)
  qed
qed

text \<open>
  A line that \<open>conf_write_symbol\<close> prints for a symbol that is no member of a
  choice sets, when it is read, the user value of just this symbol to the printed
  value; the line gives a warning only if the symbol was set before.
\<close>

theorem config_line_roundtrip:
  assumes "list_all name_char cfg" "name_fits name"
    and "sym_find (Some name) K = Some s" "s_type (k_tab K s) = ty" "\<not> sym_is_choice_value K s"
    and "value_fits ty v"
  shows "conf_line cfg S_DEF_USER (printed cfg ty name v) (K, w) =
           Some (user_set ty v s K, if has_flag SYMBOL_DEF_USER s K then w + 1 else w)"
  using assms(5)
  by (simp add: conf_line_sets [OF assms(1-4,6)] conf_set_choice_def user_set_def sym_is_choice_value_def has_flag_def
      set_flag_def set_def_tri_def set_def_val_def upd_sym_def)

text \<open>A store with a boolean, a string and a hexadecimal symbol.\<close>

definition conf_symbol :: "string \<Rightarrow> symbol_type \<Rightarrow> symbol" where
  "conf_symbol name ty = (new_symbol (Some name) {})\<lparr>s_type := ty\<rparr>"

definition conf_sample :: kstate where
  "conf_sample =
     empty_table\<lparr>k_tab := (k_tab empty_table)(Sym 0 := conf_symbol ''BR2_ARM'' S_BOOLEAN,
         Sym 1 := conf_symbol ''BR2_HOST'' S_STRING, Sym 2 := conf_symbol ''BR2_BASE'' S_HEX),
       k_nsyms := 3,
       k_hash := (\<lambda>_. [Sym 2, Sym 1, Sym 0])\<rparr>"

lemma conf_sample_find:
  "sym_find (Some ''BR2_ARM'') conf_sample = Some (Sym 0)"
  "sym_find (Some ''BR2_HOST'') conf_sample = Some (Sym (Suc 0))"
  "sym_find (Some ''BR2_BASE'') conf_sample = Some (Sym 2)"
  by (simp_all add: sym_find_def static_sym_def conf_sample_def conf_symbol_def new_symbol_def empty_table_def)

lemma conf_sample_types:
  "s_type (k_tab conf_sample (Sym 0)) = S_BOOLEAN" "s_type (k_tab conf_sample (Sym (Suc 0))) = S_STRING"
  "s_type (k_tab conf_sample (Sym 2)) = S_HEX" "s_flags (k_tab conf_sample s) = {}"
  by (simp_all add: conf_sample_def conf_symbol_def new_symbol_def empty_table_def)

lemma conf_sample_names: "name_fits ''BR2_ARM''" "name_fits ''BR2_HOST''" "name_fits ''BR2_BASE''"
  by (simp_all add: name_fits_def name_char_def digit_val_def)

theorem config_line_roundtrip_witness:
  "conf_line [] S_DEF_USER (''BR2_HOST='' @ [CHR 0x22] @ ''a'' @ [CHR 0x5c, CHR 0x22, CHR 0x22, CHR 0x0a]) (conf_sample, 0) =
     Some (user_set S_STRING [CHR ''a'', CHR 0x22] (Sym 1) conf_sample, 0)"
  using config_line_roundtrip [of "[]" "''BR2_HOST''" conf_sample "Sym 1" S_STRING "[CHR ''a'', CHR 0x22]" 0]
  by (simp add: conf_sample_find conf_sample_types conf_sample_names value_fits_def sym_is_choice_value_def has_flag_def
      printed_def kconfig_print_symbol_def is_special_def)

section \<open>A whole configuration\<close>

type_synonym conf_item = "symref \<times> symbol_type \<times> string \<times> string"

text \<open>The items are symbols of the store with their type, name and value.\<close>

fun item_ok :: "kstate \<Rightarrow> conf_item \<Rightarrow> bool" where
  "item_ok K (s, ty, name, v) \<longleftrightarrow>
     name_fits name \<and> sym_find (Some name) K = Some s \<and> s_type (k_tab K s) = ty \<and>
     \<not> sym_is_choice_value K s \<and> \<not> has_flag SYMBOL_DEF_USER s K \<and> value_fits ty v"

fun print_item :: "string \<Rightarrow> conf_item \<Rightarrow> string" where
  "print_item cfg (s, ty, name, v) = printed cfg ty name v"

fun set_item :: "conf_item \<Rightarrow> kstate \<Rightarrow> kstate" where
  "set_item (s, ty, name, v) K = user_set ty v s K"

text \<open>What the reader leaves for an item.\<close>

fun item_read :: "kstate \<Rightarrow> conf_item \<Rightarrow> bool" where
  "item_read K (s, ty, name, v) \<longleftrightarrow>
     has_flag SYMBOL_DEF_USER s K \<and>
     (if ty = S_BOOLEAN \<or> ty = S_TRISTATE then def_tri S_DEF_USER s K = tri_value v
      else sv_val (s_def_user (k_tab K s)) = CStr v)"

lemma user_set_tab:
  "k_tab (user_set ty v s K) t =
     (if t = s then (k_tab K s)\<lparr>s_def_user := (if ty = S_BOOLEAN \<or> ty = S_TRISTATE
           then (s_def_user (k_tab K s))\<lparr>sv_tri := tri_value v\<rparr> else (s_def_user (k_tab K s))\<lparr>sv_val := CStr v\<rparr>),
         s_flags := insert SYMBOL_DEF_USER (s_flags (k_tab K s))\<rparr> else k_tab K t)"
  by (simp add: user_set_def set_flag_def upd_sym_def set_def_tri_def set_def_val_def)

lemma user_set_hash: "k_hash (user_set ty v s K) = k_hash K"
  by (simp add: user_set_def set_flag_def upd_sym_def set_def_tri_def set_def_val_def)

lemma user_set_find: "sym_find name (user_set ty v s K) = sym_find name K"
proof -
  have "s_name (k_tab (user_set ty v s K) t) = s_name (k_tab K t)"
       "SYMBOL_CONST \<in> s_flags (k_tab (user_set ty v s K) t) \<longleftrightarrow> SYMBOL_CONST \<in> s_flags (k_tab K t)" for t
    by (simp_all add: user_set_tab)
  then show ?thesis by (simp add: sym_find_def user_set_hash cong: option.case_cong)
qed

lemma item_ok_keeps:
  "item_ok K (s, ty, name, v) \<Longrightarrow> s \<noteq> fst i \<Longrightarrow> item_ok (set_item i K) (s, ty, name, v)"
  by (cases i) (simp add: user_set_find user_set_tab sym_is_choice_value_def has_flag_def)

lemma item_read_keeps:
  "item_read K (s, ty, name, v) \<Longrightarrow> s \<noteq> fst i \<Longrightarrow> item_read (set_item i K) (s, ty, name, v)"
  by (cases i) (auto simp: user_set_tab has_flag_def def_tri_def)

lemma item_read_set: "item_read (set_item i K) i"
  by (cases i) (simp add: user_set_tab has_flag_def def_tri_def)

lemma getline_line: "CHR 0x0a \<notin> set xs \<Longrightarrow> compat_getline (xs @ CHR 0x0a # rest) = Some (xs @ [CHR 0x0a], rest)"
  by (induction xs) auto

lemma printed_line:
  assumes "list_all name_char cfg" "name_fits name" "value_fits ty v"
  obtains body where "printed cfg ty name v = body @ [CHR 0x0a]" "CHR 0x0a \<notin> set body"
proof -
  have no: "CHR 0x0a \<notin> set cfg" "CHR 0x0a \<notin> set name"
    using assms(1,2) name_avoids [OF _ name_char_not(3)] by (auto simp: name_fits_def)
  have v: "CHR 0x0a \<notin> set v"
    using assms(3) numeral_chars [of ty v "CHR 0x0a"] name_char_not by (auto simp: value_fits_def split: if_splits)
  have "CHR 0x0a \<notin> set (butlast (printed cfg ty name v))" "last (printed cfg ty name v) = CHR 0x0a" "printed cfg ty name v \<noteq> []"
    using no v escape_no_newline [OF v] by (auto simp: printed_def kconfig_print_symbol_def butlast_append)
  then show thesis using that by (metis append_butlast_last_id)
qed

lemma read_items:
  "list_all name_char cfg \<Longrightarrow> list_all (item_ok K) items \<Longrightarrow> distinct (map fst items) \<Longrightarrow>
     conf_lines cfg S_DEF_USER (concat (map (print_item cfg) items)) (K, w) = Some (fold set_item items K, w)"
proof (induction items arbitrary: K)
  case Nil
  then show ?case by (subst conf_lines.simps) simp
next
  case (Cons i items)
  obtain s ty name v where i: "i = (s, ty, name, v)" by (cases i) auto
  have ok: "item_ok K (s, ty, name, v)" using Cons.prems(2) by (simp add: i)
  obtain body where body: "printed cfg ty name v = body @ [CHR 0x0a]" "CHR 0x0a \<notin> set body"
    using printed_line [OF Cons.prems(1), of name ty v] ok by auto
  have line: "conf_line cfg S_DEF_USER (body @ [CHR 0x0a]) (K, w) = Some (set_item i K, w)"
    using config_line_roundtrip [OF Cons.prems(1), of name K s ty v w] ok body(1) by (simp add: i)
  have "list_all (item_ok (set_item i K)) items"
    unfolding list_all_iff
  proof
    fix j assume j: "j \<in> set items"
    obtain s' ty' name' v' where j': "j = (s', ty', name', v')" by (cases j) auto
    have "fst i \<notin> fst ` set items" using Cons.prems(3) by simp
    then have "s' \<noteq> fst i" using imageI [OF j, of fst] by (metis j' fst_conv)
    moreover have "item_ok K j" using Cons.prems(2) j by (simp add: list_all_iff)
    ultimately show "item_ok (set_item i K) j" unfolding j' by (intro item_ok_keeps)
  qed
  then have "conf_lines cfg S_DEF_USER (concat (map (print_item cfg) items)) (set_item i K, w) =
      Some (fold set_item items (set_item i K), w)"
    using Cons.prems by (intro Cons.IH) simp_all
  then show ?case
    using line getline_line [OF body(2)] by (subst conf_lines.simps) (simp add: i body(1))
qed

lemma fold_items_read:
  "distinct (map fst items) \<Longrightarrow> i \<in> set items \<Longrightarrow> item_read (fold set_item items K) i"
proof (induction items arbitrary: K rule: rev_induct)
  case (snoc j items)
  show ?case
  proof (cases "i = j")
    case True
    then show ?thesis by (simp add: item_read_set)
  next
    case False
    obtain s ty name v where i: "i = (s, ty, name, v)" by (cases i) auto
    have "i \<in> set items" "s \<noteq> fst j" using snoc.prems False by (auto simp: i rev_image_eqI)
    then show ?thesis using snoc item_read_keeps [of "fold set_item items K" s ty name v j] by (simp add: i)
  qed
qed simp

text \<open>
  C18: a configuration is read as it was written. When the lines of any number of
  different symbols, none a member of a choice, are printed one after the other, the
  reader gives no warning, and leaves every one of these symbols with the value that
  was printed as its user value.
\<close>

theorem config_roundtrip:
  assumes "list_all name_char cfg" "list_all (item_ok K) items" "distinct (map fst items)"
  shows "\<exists>K'. conf_lines cfg S_DEF_USER (concat (map (print_item cfg) items)) (K, w) = Some (K', w) \<and>
              list_all (item_read K') items"
  using read_items [OF assms] fold_items_read [OF assms(3)] by (auto simp: list_all_iff)

theorem config_roundtrip_witness:
  "\<exists>K'. conf_lines [] S_DEF_USER
          (''# BR2_ARM is not set'' @ [CHR 0x0a] @ ''BR2_HOST='' @ [CHR 0x22, CHR ''a'', CHR 0x22, CHR 0x0a] @ ''BR2_BASE=0x1f'' @ [CHR 0x0a])
          (conf_sample, 0) = Some (K', 0) \<and>
        sv_val (s_def_user (k_tab K' (Sym 2))) = CStr ''0x1f''"
proof -
  let ?items = "[(Sym 0, S_BOOLEAN, ''BR2_ARM'', ''n''), (Sym 1, S_STRING, ''BR2_HOST'', ''a''), (Sym 2, S_HEX, ''BR2_BASE'', ''0x1f'')]"
  have "hex_valid ''0x1f''" by code_simp
  then have "list_all (item_ok conf_sample) ?items"
    by (simp add: conf_sample_find conf_sample_types conf_sample_names value_fits_def sym_is_choice_value_def has_flag_def sym_string_valid_def)
  from config_roundtrip [OF _ this, of "[]" 0] show ?thesis
    by (simp add: printed_def kconfig_print_symbol_def is_special_def has_flag_def) blast
qed

end
