(* ===== verification/Conf_Files.thy ===== *)
theory Conf_Files
  imports Conf_Write Menu_View Symbol_Write
begin

text \<open>
  The files of a configuration (confdata.c): \<open>conf_read\<close>, \<open>conf_write\<close>,
  \<open>conf_write_defconfig\<close>, \<open>conf_split_config\<close> and \<open>conf_write_autoconf\<close>, on a disk that
  gives every file name its contents. Two names are different files, and a file whose
  write was allowed holds what was printed to it. \<open>None\<close> is a null pointer or a name
  longer than its buffer; the result \<open>True\<close> is the 1 of the code.
\<close>

section \<open>The system\<close>

record disk =
  d_text :: "string \<Rightarrow> string option"
  d_dir :: "string \<Rightarrow> bool"
  d_cwd :: string

text \<open>What the system allows, and its environment.\<close>

record os =
  os_env :: "string \<Rightarrow> string option"
  os_may_write :: "string \<Rightarrow> bool"
  os_may_rename :: "string \<Rightarrow> string \<Rightarrow> bool"
  os_may_mkdir :: "string \<Rightarrow> bool"
  os_may_leave :: bool
  os_pid :: nat

definition PATH_MAX :: nat where "PATH_MAX = 4096"

definition slash :: char where "slash = CHR ''/''"

text \<open>A name as the current directory gives it.\<close>

definition resolve :: "disk \<Rightarrow> string \<Rightarrow> string" where
  "resolve d p = (if Conf_Read.begins slash p \<or> d_cwd d = [] then p else d_cwd d @ slash # p)"

definition get_text :: "disk \<Rightarrow> string \<Rightarrow> string option" where
  "get_text d p = d_text d (resolve d p)"

text \<open>Opening for writing, the contents up to the close included.\<close>

definition put_text :: "os \<Rightarrow> string \<Rightarrow> string \<Rightarrow> disk \<Rightarrow> disk" where
  "put_text S p out d = d\<lparr>d_text := (d_text d)(resolve d p \<mapsto> out)\<rparr>"

definition can_open :: "os \<Rightarrow> disk \<Rightarrow> string \<Rightarrow> bool" where
  "can_open S d p \<longleftrightarrow> os_may_write S (resolve d p) \<and> \<not> d_dir d (resolve d p)"

definition rename :: "os \<Rightarrow> string \<Rightarrow> string \<Rightarrow> disk \<Rightarrow> disk option" where
  "rename S a b d =
     (case d_text d (resolve d a) of
        None \<Rightarrow> None
      | Some out \<Rightarrow>
          if os_may_rename S (resolve d a) (resolve d b)
          then Some (d\<lparr>d_text := (d_text d)(resolve d a := None, resolve d b \<mapsto> out)\<rparr>) else None)"

text \<open>\<open>strrchr\<close>: the parts before and behind the last \<open>c\<close>.\<close>

definition rsplit :: "char \<Rightarrow> string \<Rightarrow> (string \<times> string) option" where
  "rsplit c s =
     (case dropWhile (\<lambda>d. d \<noteq> c) (rev s) of
        [] \<Rightarrow> None
      | _ # before \<Rightarrow> Some (rev before, rev (takeWhile (\<lambda>d. d \<noteq> c) (rev s))))"

section \<open>Names\<close>

definition conf_get_configname :: "os \<Rightarrow> string" where
  "conf_get_configname S = (case os_env S ''BR2_CONFIG'' of Some n \<Rightarrow> n | None \<Rightarrow> ''.config'')"

definition conf_get_autoconfig_name :: "os \<Rightarrow> string option" where
  "conf_get_autoconfig_name S = os_env S ''KCONFIG_AUTOCONFIG''"

text \<open>The default configuration; \<open>SRCTREE\<close> is the name of the variable.\<close>

definition conf_get_default_confname :: "os \<Rightarrow> disk \<Rightarrow> kstate \<Rightarrow> (string \<times> kstate) option" where
  "conf_get_default_confname S d K = do {
     (name, K) \<leftarrow> conf_expand_value ''.defconfig'' K;
     (case os_env S ''srctree'' of
        None \<Rightarrow> Some (name, K)
      | Some env \<Rightarrow>
          let fullname = env @ slash # name in
          if length fullname > PATH_MAX then None
          else Some (if get_text d fullname \<noteq> None \<or> d_dir d (resolve d fullname) then fullname else name, K)) }"

section \<open>The change counter\<close>

text \<open>The callback of the graphical programs is not modelled.\<close>

definition sym_set_change_count :: "int \<Rightarrow> kstate \<Rightarrow> kstate" where
  "sym_set_change_count n K = K\<lparr>k_changes := n\<rparr>"

definition conf_get_changed :: "kstate \<Rightarrow> bool" where
  "conf_get_changed K \<longleftrightarrow> k_changes K \<noteq> 0"

section \<open>\<open>conf_read\<close>\<close>

text \<open>\<open>for_all_symbols\<close>, in the order of the hash table.\<close>

definition hashed_symbols :: "kstate \<Rightarrow> symref list" where
  "hashed_symbols K =
     filter (\<lambda>s. s_type (k_tab K s) \<noteq> S_OTHER) (concat (map (k_hash K) [0..<SYMBOL_HASHSIZE]))"

fun for_syms :: "(symref \<Rightarrow> 'a \<times> kstate \<Rightarrow> ('a \<times> kstate) option) \<Rightarrow> symref list \<Rightarrow> 'a \<times> kstate \<Rightarrow> ('a \<times> kstate) option" where
  "for_syms f [] C = Some C"
| "for_syms f (s # ss) C = do { C \<leftarrow> f s C; for_syms f ss C }"

text \<open>The first loop: does the calculated value agree with the saved one?\<close>

definition check_saved :: "symref \<Rightarrow> nat \<times> kstate \<Rightarrow> (nat \<times> kstate) option" where
  "check_saved s C = (case C of (unsaved, K) \<Rightarrow> do {
     (_, K) \<leftarrow> calc_sym s K;
     (if sym_is_choice K s \<or> has_flag SYMBOL_AUTO s K then Some (unsaved, K)
      else if sym_has_value K s \<and> has_flag SYMBOL_WRITE s K then
        (let ty = s_type (k_tab K s) in
         if ty = S_BOOLEAN \<or> ty = S_TRISTATE then
           Some (if def_tri S_DEF_USER s K \<noteq> sym_get_tristate_value K s then unsaved + 1 else unsaved, K)
         else (case (sv_val (s_curr (k_tab K s)), sv_val (s_def_user (k_tab K s))) of
             (CStr a, CStr b) \<Rightarrow> Some (if a = b then unsaved else unsaved + 1, K)
           | _ \<Rightarrow> None))
      else if \<not> sym_has_value K s \<and> \<not> has_flag SYMBOL_WRITE s K then Some (unsaved, K)
      else Some (unsaved + 1, K)) })"

text \<open>The second loop.\<close>

definition reset_saved :: "symref \<Rightarrow> nat \<times> kstate \<Rightarrow> (nat \<times> kstate) option" where
  "reset_saved s C = (case C of (unsaved, K) \<Rightarrow>
     if \<not> sym_has_value K s \<or> sym_is_choice_value K s then Some (unsaved, K)
     else
       (let K = (if s_visible (k_tab K s) = tri_no \<and> unsaved = 0 then clear_flag SYMBOL_DEF_USER s K else K);
            ty = s_type (k_tab K s)
        in if ty \<noteq> S_STRING \<and> ty \<noteq> S_INT \<and> ty \<noteq> S_HEX then Some (unsaved, K)
           else (case sv_val (s_def_user (k_tab K s)) of
               CStr v \<Rightarrow> do {
                 (ok, K) \<leftarrow> sym_string_within_range s v K;
                 Some (if ok then (unsaved, K)
                       else (unsaved + 1, clear_flag SYMBOL_DEF_USER s (clear_flag SYMBOL_VALID s K))) }
             | _ \<Rightarrow> if ty = S_STRING then Some (unsaved, K) else None)))"

definition conf_read ::
  "string \<Rightarrow> (string \<Rightarrow> string option) \<Rightarrow> string \<Rightarrow> symref option \<Rightarrow> string option \<Rightarrow> conf \<Rightarrow> (bool \<times> conf) option" where
  "conf_read cfg files configname defconfig_list name C = do {
     (failed, K, warnings) \<leftarrow> conf_read_simple cfg files configname defconfig_list name S_DEF_USER
        (sym_set_change_count 0 (fst C), snd C);
     (_, K) \<leftarrow> calc_sym (k_modules_sym K) K;
     (if failed then Some (True, K, warnings)
      else do {
        (unsaved, K) \<leftarrow> for_syms check_saved (hashed_symbols K) (0, K);
        (unsaved, K) \<leftarrow> for_syms reset_saved (hashed_symbols K) (unsaved, K);
        Some (False, sym_add_change_count (if warnings \<noteq> 0 \<or> unsaved \<noteq> 0 then 1 else 0) K, warnings) }) }"

section \<open>Walking the menus\<close>

text \<open>
  The loops of \<open>conf_write\<close> and \<open>conf_write_defconfig\<close>: from an entry to the first below
  it, else to the next one, else to the next of the closest entry around it that has one.
  The stack holds what is left of the lists around the entry.
\<close>

function walk :: "(menu \<Rightarrow> 's \<Rightarrow> 's option) \<Rightarrow> menu list list \<Rightarrow> 's \<Rightarrow> 's option" where
  "walk f [] x = Some x"
| "walk f ([] # st) x = walk f st x"
| "walk f ((m # ms) # st) x = do {
     x \<leftarrow> f m x;
     walk f (if m_list m \<noteq> [] then m_list m # ms # st else ms # st) x }"
  by pat_completeness auto
termination walk
proof (relation "measure (\<lambda>(f, st, x). 2 * sum_list (map list_size st) + length st)", goal_cases)
  case (3 f m ms st x y)
  then show ?case by (cases m) auto
qed simp_all

section \<open>\<open>conf_write\<close>\<close>

definition write_entry :: "string \<Rightarrow> menu \<Rightarrow> string \<times> kstate \<Rightarrow> (string \<times> kstate) option" where
  "write_entry cfg m C = (case C of (out, K) \<Rightarrow>
     (case n_sym (m_node m) of
        None \<Rightarrow> do {
          (v, K) \<leftarrow> menu_is_visible m K;
          Some (if v then out @ newline @ ''#'' @ newline @ ''# '' @
                  printable (menu_get_prompt (k_tab K) (m_node m)) @ newline @ ''#'' @ newline
                else out, K) }
      | Some s \<Rightarrow>
          if has_flag SYMBOL_CHOICE s K then Some (out, K)
          else do {
            (_, K) \<leftarrow> calc_sym s K;
            (if \<not> has_flag SYMBOL_WRITE s K then Some (out, K)
             else do {
               (line, K) \<leftarrow> conf_write_symbol kconfig_print_symbol cfg False s (clear_flag SYMBOL_WRITE s K);
               Some (out @ line, K) }) }))"

text \<open>The directory and the base name to write to.\<close>

definition write_name :: "os \<Rightarrow> disk \<Rightarrow> string \<Rightarrow> string \<times> string" where
  "write_name S d name =
     (if name = [] then ([], conf_get_configname S)
      else if d_dir d (resolve d name) then (name @ [slash], conf_get_configname S)
      else (case rsplit slash name of
          Some (dir, base) \<Rightarrow> (dir @ [slash], if base \<noteq> [] then base else conf_get_configname S)
        | None \<Rightarrow> ([], name)))"

definition overwrites :: "os \<Rightarrow> bool" where
  "overwrites S \<longleftrightarrow> (case os_env S ''KCONFIG_OVERWRITECONFIG'' of None \<Rightarrow> False | Some e \<Rightarrow> e \<noteq> [])"

definition temp_name :: "os \<Rightarrow> string \<Rightarrow> string" where
  "temp_name S dir = dir @ ''.tmpconfig.'' @ show_nat 10 (os_pid S)"

definition root_title :: "kstate \<Rightarrow> menu \<Rightarrow> string option" where
  "root_title K root = (case prompt_prop (k_tab K) (m_node root) of Some p \<Rightarrow> p_text p | None \<Rightarrow> None)"

text \<open>The text of a configuration.\<close>

definition config_text :: "string \<Rightarrow> menu \<Rightarrow> kstate \<Rightarrow> (string \<times> kstate) option" where
  "config_text cfg root K = do {
     title \<leftarrow> root_title K root;
     (_, K) \<leftarrow> (if conf_get_changed K then Some ((), K) else sym_clear_all_valid K);
     walk (write_entry cfg) [m_list root] (conf_write_heading kconfig_print_comment title, K) }"

definition conf_write :: "os \<Rightarrow> string \<Rightarrow> menu \<Rightarrow> string option \<Rightarrow> disk \<Rightarrow> kstate \<Rightarrow> (bool \<times> disk \<times> kstate) option" where
  "conf_write S cfg root name d K =
     (let (dir, base) = write_name S d (case name of Some n \<Rightarrow> n | None \<Rightarrow> conf_get_configname S);
          new = dir @ base;
          tmp = temp_name S dir;
          target = (if overwrites S then new else tmp)
      in if length dir > PATH_MAX \<or> length new > PATH_MAX \<or> length target > PATH_MAX then None
         else if \<not> can_open S d target then Some (True, d, K)
         else do {
           (out, K) \<leftarrow> config_text cfg root K;
           let d = put_text S target out d;
           (if overwrites S then Some (False, d, sym_set_change_count 0 K)
            else if length (new @ ''.old'') > PATH_MAX then None
            else
              (let d = (case rename S new (new @ ''.old'') d of Some d \<Rightarrow> d | None \<Rightarrow> d) in
               case rename S tmp new d of
                 None \<Rightarrow> Some (True, d, K)
               | Some d \<Rightarrow> Some (False, d, sym_set_change_count 0 K))) })"

section \<open>\<open>conf_write_defconfig\<close>\<close>

text \<open>A value of a choice that is the default of it, and need not be written.\<close>

definition default_of_choice :: "symref \<Rightarrow> kstate \<Rightarrow> (bool \<times> kstate) option" where
  "default_of_choice s K =
     (if \<not> sym_is_choice_value K s then Some (False, K)
      else do {
        p \<leftarrow> sym_get_choice_prop K s;
        cs \<leftarrow> prop_get_symbol p;
        (ds, K) \<leftarrow> sym_choice_default calc_sym cs K;
        Some (\<not> has_flag SYMBOL_OPTIONAL cs K \<and> ds = Some s \<and>
              s_type (k_tab K s) = S_BOOLEAN \<and> sym_get_tristate_value K s = tri_yes, K) })"

definition defconfig_entry :: "string \<Rightarrow> menu \<Rightarrow> string \<times> kstate \<Rightarrow> (string \<times> kstate) option" where
  "defconfig_entry cfg m C = (case C of (out, K) \<Rightarrow>
     (case n_sym (m_node m) of
        None \<Rightarrow> do { (_, K) \<leftarrow> menu_is_visible m K; Some (out, K) }
      | Some s \<Rightarrow>
          if sym_is_choice K s then Some (out, K)
          else do {
            (_, K) \<leftarrow> calc_sym s K;
            (if \<not> has_flag SYMBOL_WRITE s K then Some (out, K)
             else
               (let K = clear_flag SYMBOL_WRITE s K in
                if \<not> sym_is_changable K s then Some (out, K)
                else do {
                  (v, K) \<leftarrow> get_string_value calc_sym s K;
                  (dflt, K) \<leftarrow> sym_get_string_default s K;
                  (if v = dflt then Some (out, K)
                   else do {
                     (skip, K) \<leftarrow> default_of_choice s K;
                     (if skip then Some (out, K)
                      else do {
                        (line, K) \<leftarrow> conf_write_symbol kconfig_print_symbol cfg False s K;
                        Some (out @ line, K) }) }) })) }))"

definition conf_write_defconfig :: "os \<Rightarrow> string \<Rightarrow> menu \<Rightarrow> string \<Rightarrow> disk \<Rightarrow> kstate \<Rightarrow> (bool \<times> disk \<times> kstate) option" where
  "conf_write_defconfig S cfg root name d K =
     (if \<not> can_open S d name then Some (True, d, K)
      else do {
        (_, K) \<leftarrow> sym_clear_all_valid K;
        (out, K) \<leftarrow> walk (defconfig_entry cfg) [m_list root] ([], K);
        Some (False, put_text S name out d, K) })"

end
