(* ===== verification/Conf_Save.thy ===== *)
theory Conf_Save
  imports Conf_Files
begin

text \<open>
  What \<open>conf_write\<close> writes: every entry of the menus is visited once, the text consists
  of titles and lines for symbols, the reader takes it back, and the file that was there
  is not lost.
\<close>

section \<open>The walk\<close>

fun menus_of :: "menu \<Rightarrow> menu list" where
  "menus_of (Menu n cs) = Menu n cs # concat (map menus_of cs)"

fun each_menu :: "(menu \<Rightarrow> 's \<Rightarrow> 's option) \<Rightarrow> menu list \<Rightarrow> 's \<Rightarrow> 's option" where
  "each_menu f [] x = Some x"
| "each_menu f (m # ms) x = do { x \<leftarrow> f m x; each_menu f ms x }"

lemma walk_preorder: "walk f st x = each_menu f (concat (map (\<lambda>ms. concat (map menus_of ms)) st)) x"
proof (induction f st x rule: walk.induct)
  case (3 f m ms st x)
  have "concat (map menus_of (m # ms)) = m # concat (map menus_of (m_list m)) @ concat (map menus_of ms)"
    by (cases m) simp
  with 3 show ?case by (cases "f m x") auto
qed simp_all

lemma walk_root: "walk f [m_list root] x = each_menu f (tl (menus_of root)) x"
  by (cases root) (simp add: walk_preorder)

text \<open>
  The loop of \<open>conf_write\<close> and \<open>conf_write_defconfig\<close>, which goes from entry to entry
  by the pointers, ends and handles every entry below the root exactly once, each before
  the entries below it.
\<close>

theorem walk_visits_each_entry: "walk f [m_list root] x = each_menu f (tl (menus_of root)) x"
  by (rule walk_root)

section \<open>The text\<close>

datatype piece = Title string | Setting conf_item

fun piece_text :: "string \<Rightarrow> piece \<Rightarrow> string" where
  "piece_text cfg (Title t) = newline @ ''#'' @ newline @ ''# '' @ t @ newline @ ''#'' @ newline"
| "piece_text cfg (Setting i) = print_item cfg i"

definition value_settled :: "kstate \<Rightarrow> symref \<Rightarrow> bool" where
  "value_settled K s \<longleftrightarrow> has_flag SYMBOL_VALID s K \<and>
     ((s_type (k_tab K s) = S_BOOLEAN \<or> s_type (k_tab K s) = S_TRISTATE) \<and> sym_get_tristate_value K s = tri_mod \<longrightarrow>
        has_flag SYMBOL_VALID (k_modules_sym K) K)"

text \<open>Like \<open>settles\<close>, but the symbols of a set may lose their mark.\<close>

definition unmarks :: "symref set \<Rightarrow> kstate \<Rightarrow> kstate \<Rightarrow> bool" where
  "unmarks S K K' \<longleftrightarrow> edits K K' \<and>
     (\<forall>t. has_flag SYMBOL_VALID t K \<longrightarrow>
        has_flag SYMBOL_VALID t K' \<and> s_curr (k_tab K' t) = s_curr (k_tab K t) \<and>
        (\<not> sym_is_choice_value K t \<longrightarrow> (has_flag SYMBOL_WRITE t K' \<longrightarrow> has_flag SYMBOL_WRITE t K) \<and>
           (has_flag SYMBOL_WRITE t K \<and> t \<notin> S \<longrightarrow> has_flag SYMBOL_WRITE t K')))"

lemma unmarks_edits: "unmarks S K K' \<Longrightarrow> edits K K'"
  by (simp add: unmarks_def)

lemma settles_unmarks: "settles K K' \<Longrightarrow> unmarks S K K'"
  by (simp add: unmarks_def settles_def)

lemma unmarks_trans: "unmarks S K K1 \<Longrightarrow> unmarks T K1 K2 \<Longrightarrow> S \<union> T \<subseteq> U \<Longrightarrow> unmarks U K K2"
  using edits_fields(4) [OF unmarks_edits, of S K K1] edits_trans
  unfolding unmarks_def by (smt (verit, best) UnCI subsetD)

lemma unmarks_clear: "unmarks {s} K (clear_flag SYMBOL_WRITE s K)"
proof -
  have "step {s} K (clear_flag SYMBOL_WRITE s K)" by (rule step_clear_flag) simp
  from step_edits [OF this] show ?thesis by (auto simp: unmarks_def) (simp add: clear_flag_def k_tab_upd)
qed

lemma unmarks_wf: "store_wf K \<Longrightarrow> unmarks S K K' \<Longrightarrow> store_wf K'"
  by (rule edits_wf [OF unmarks_edits])

lemma settled_value_keeps:
  assumes "unmarks S K K'" "value_settled K s"
  shows "value_settled K' s" "sym_get_string_value K' s = sym_get_string_value K s"
proof -
  have keep: "has_flag SYMBOL_VALID t K' \<and> s_curr (k_tab K' t) = s_curr (k_tab K t)" if "has_flag SYMBOL_VALID t K" for t
    using assms(1) that by (simp add: unmarks_def)
  note f = edits_fields [OF unmarks_edits [OF assms(1)]]
  show "value_settled K' s" "sym_get_string_value K' s = sym_get_string_value K s"
    using assms(2) keep [of s] keep [of "k_modules_sym K"]
    by (auto simp: value_settled_def sym_get_tristate_value_def sym_get_string_value_def f split: tristate.split)
qed

lemma string_settles:
  assumes "store_wf K" "has_flag SYMBOL_VALID s K" "\<not> sym_is_choice K (k_modules_sym K)"
    "get_string_value calc_sym s K = Some (v, K')"
  shows "settles K K'" "value_settled K' s" "v = sym_get_string_value K' s"
proof -
  show st: "settles K K'" using returns_string [OF assms(1), of s] assms(4) by (simp add: returns_def)
  note f = edits_fields [OF settles_edits [OF st]]
  have v: "has_flag SYMBOL_VALID s K'" "s_curr (k_tab K' s) = s_curr (k_tab K s)"
    using st assms(2) by (auto simp: settles_def)
  have ty: "s_type (k_tab K' s) = s_type (k_tab K s)" "sym_get_tristate_value K' s = sym_get_tristate_value K s"
    "k_modules_sym K' = k_modules_sym K"
    by (simp_all add: f v sym_get_tristate_value_def)
  show "value_settled K' s" "v = sym_get_string_value K' s"
  proof -
    consider (other) "\<not> (s_type (k_tab K s) = S_BOOLEAN \<or> s_type (k_tab K s) = S_TRISTATE)"
      | (tri) "s_type (k_tab K s) = S_BOOLEAN \<or> s_type (k_tab K s) = S_TRISTATE" "sym_get_tristate_value K s \<noteq> tri_mod"
      | (m) "s_type (k_tab K s) = S_BOOLEAN \<or> s_type (k_tab K s) = S_TRISTATE" "sym_get_tristate_value K s = tri_mod"
      by blast
    then have "value_settled K' s \<and> v = sym_get_string_value K' s"
    proof cases
      case other
      then have "v = cstr (sv_val (s_curr (k_tab K s)))" "K' = K" using assms(4) by (auto simp: get_string_value_def)
      with other v show ?thesis by (simp add: value_settled_def sym_get_string_value_def)
    next
      case tri
      then have "v = (if sym_get_tristate_value K s = tri_yes then ''y'' else ''n'')" "K' = K"
        using assms(4) by (auto simp: get_string_value_def split: tristate.splits if_splits)
      with tri v show ?thesis
        by (cases "sym_get_tristate_value K s") (auto simp: value_settled_def sym_get_string_value_def)
    next
      case m
      then obtain u where u: "calc_sym (k_modules_sym K) K = Some (u, K')"
        "v = (if sv_tri (s_curr (k_tab K' (k_modules_sym K'))) = tri_no then ''n'' else ''m'')"
        using assms(4) by (auto simp: get_string_value_def bind_eq_Some_conv)
      have "has_flag SYMBOL_VALID (k_modules_sym K) K'" by (rule calc_valid [OF assms(1) u(1) assms(3)])
      with m u(2) v(1) ty show ?thesis by (auto simp: value_settled_def sym_get_string_value_def)
    qed
    then show "value_settled K' s" "v = sym_get_string_value K' s" by simp_all
  qed
qed

text \<open>What is known of a piece of an entry, in the store after it.\<close>

fun piece_ok :: "kstate \<Rightarrow> menu \<Rightarrow> piece \<Rightarrow> bool" where
  "piece_ok K m (Title t) \<longleftrightarrow> n_sym (m_node m) = None \<and> t = printable (menu_get_prompt (k_tab K) (m_node m))"
| "piece_ok K m (Setting (s, ty, name, v)) \<longleftrightarrow>
     n_sym (m_node m) = Some s \<and> s_type (k_tab K s) = ty \<and> ty \<noteq> S_OTHER \<and> ty \<noteq> S_UNKNOWN \<and>
     s_name (k_tab K s) = Some name \<and> \<not> sym_is_choice K s \<and>
     value_settled K s \<and> v = sym_get_string_value K s"

lemma piece_ok_keeps: "unmarks S K K' \<Longrightarrow> piece_ok K m p \<Longrightarrow> piece_ok K' m p"
proof (cases p)
  case (Title t)
  assume "unmarks S K K'" "piece_ok K m p"
  then show ?thesis using Title by (auto simp: menu_get_prompt_def prompt_prop_def split: option.split prompt_ref.split)
next
  case (Setting i)
  assume "unmarks S K K'" "piece_ok K m p"
  then show ?thesis
    using settled_value_keeps [of S K K'] edits_fields [OF unmarks_edits, of S K K'] by (cases i) (auto simp: Setting)
qed

definition settings :: "piece list \<Rightarrow> conf_item list" where
  "settings ps = List.map_filter (\<lambda>p. case p of Setting i \<Rightarrow> Some i | Title t \<Rightarrow> None) ps"

lemma settings_simps [simp]: "settings [] = []" "settings (Title t # ps) = settings ps"
  "settings (Setting i # ps) = i # settings ps" "settings (ps @ qs) = settings ps @ settings qs"
  by (simp_all add: settings_def List.map_filter_simps) (simp add: List.map_filter_def)

text \<open>The symbols written that belong to no choice.\<close>

definition plain_symbols :: "kstate \<Rightarrow> piece list \<Rightarrow> symref list" where
  "plain_symbols K ps = filter (\<lambda>s. \<not> sym_is_choice_value K s) (map fst (settings ps))"

text \<open>Symbols of these types are never written.\<close>

definition odd_symbols :: "kstate \<Rightarrow> symref set" where
  "odd_symbols K = {s. s_type (k_tab K s) = S_OTHER \<or> s_type (k_tab K s) = S_UNKNOWN}"

lemma plain_edits: "edits K K' \<Longrightarrow> plain_symbols K' ps = plain_symbols K ps" "edits K K' \<Longrightarrow> odd_symbols K' = odd_symbols K"
  by (simp_all add: plain_symbols_def edits_fields odd_symbols_def)

lemma write_symbol_line:
  assumes "store_wf K" "has_flag SYMBOL_VALID s K" "\<not> sym_is_choice K (k_modules_sym K)" "\<not> sym_is_choice K s"
    "conf_write_symbol kconfig_print_symbol cfg False s K = Some (line, K')" "n_sym (m_node m) = Some s"
  shows "settles K K' \<and> (\<exists>ps. line = concat (map (piece_text cfg) ps) \<and> (\<forall>p \<in> set ps. piece_ok K' m p) \<and>
    (ps = [] \<and> s \<in> odd_symbols K \<or> (\<exists>i. ps = [Setting i])))"
proof (cases "s_type (k_tab K s) = S_OTHER \<or> s_type (k_tab K s) = S_UNKNOWN")
  case True
  then have "line = []" "K' = K" using assms(5) by (simp_all add: conf_write_symbol_def)
  then show ?thesis using True by (intro conjI exI [of _ "[]"]) (simp_all add: odd_symbols_def)
next
  case False
  then obtain name v where nv: "s_name (k_tab K s) = Some name" "get_string_value calc_sym s K = Some (v, K')"
    "line = printed cfg (s_type (k_tab K s)) name v"
    using assms(5) by (auto simp: conf_write_symbol_def Let_def bind_eq_Some_conv escape_fits printed_def split: if_splits)
  note str = string_settles [OF assms(1-3) nv(2)]
  note f = edits_fields [OF settles_edits [OF str(1)]]
  have "piece_ok K' m (Setting (s, s_type (k_tab K s), name, v))"
    using False nv(1) str(2,3) assms(4,6) by (simp add: f)
  then show ?thesis using str(1) nv(3) by (intro conjI exI [of _ "[Setting (s, s_type (k_tab K s), name, v)]"]) simp_all
qed

text \<open>
  The effect of an entry on the text and the marks: at most one piece, and a line for
  the symbol if it was calculated and marked before.
\<close>

definition entry_effect :: "string \<Rightarrow> menu list \<Rightarrow> string \<Rightarrow> kstate \<Rightarrow> string \<Rightarrow> kstate \<Rightarrow> piece list \<Rightarrow> bool" where
  "entry_effect cfg ms out K out' K' ps \<longleftrightarrow>
     out' = out @ concat (map (piece_text cfg) ps) \<and> (\<forall>p \<in> set ps. \<exists>m \<in> set ms. piece_ok K' m p) \<and>
     unmarks (set (plain_symbols K ps) \<union> odd_symbols K) K K' \<and> distinct (plain_symbols K ps) \<and>
     (\<forall>s \<in> set (plain_symbols K ps). has_flag SYMBOL_VALID s K' \<and> \<not> has_flag SYMBOL_WRITE s K' \<and>
        (has_flag SYMBOL_VALID s K \<longrightarrow> has_flag SYMBOL_WRITE s K)) \<and>
     (\<forall>m \<in> set ms. \<forall>s. n_sym (m_node m) = Some s \<and> \<not> sym_is_choice K s \<and> \<not> sym_is_choice_value K s \<and>
        s \<notin> odd_symbols K \<and> has_flag SYMBOL_VALID s K \<and> has_flag SYMBOL_WRITE s K \<longrightarrow> s \<in> set (plain_symbols K ps))"

lemma plain_one: "plain_symbols K [] = []" "plain_symbols K [Title t] = []"
  "plain_symbols K [Setting i] = (if sym_is_choice_value K (fst i) then [] else [fst i])"
  by (simp_all add: plain_symbols_def)

lemma write_entry_effect:
  assumes K: "store_wf K" and mods: "\<not> sym_is_choice K (k_modules_sym K)"
    and r: "write_entry cfg m (out, K) = Some (out', K')"
  shows "\<exists>ps. entry_effect cfg [m] out K out' K' ps"
proof (cases "n_sym (m_node m)")
  case None
  define t where "t = printable (menu_get_prompt (k_tab K') (m_node m))"
  obtain v where v: "menu_is_visible m K = Some (v, K')" "out' = (if v then out @ piece_text cfg (Title t) else out)"
    using r None by (auto simp: write_entry_def bind_eq_Some_conv newline_def t_def)
  have st: "settles K K'" using returns_visible [OF K, of m] v(1) by (simp add: returns_def)
  have "entry_effect cfg [m] out K out' K' (if v then [Title t] else [])"
    using None v(2) settles_unmarks [OF st] by (auto simp: entry_effect_def plain_one t_def)
  then show ?thesis by blast
next
  case sym: (Some s)
  show ?thesis
  proof (cases "sym_is_choice K s")
    case True
    then have "out' = out" "K' = K" using r sym by (simp_all add: write_entry_def sym_is_choice_def)
    then have "entry_effect cfg [m] out K out' K' []"
      using True sym settles_unmarks [OF settles_refl] by (simp add: entry_effect_def plain_one)
    then show ?thesis by blast
  next
    case ch: False
    obtain u K1 where K1: "calc_sym s K = Some (u, K1)" "settles K K1"
      using returns_calc [OF K, of s] by (auto simp: returns_def)
    have V1: "has_flag SYMBOL_VALID s K1" by (rule calc_valid [OF K K1(1) ch])
    show ?thesis
    proof (cases "has_flag SYMBOL_WRITE s K1")
      case False
      then have o: "out' = out" "K' = K1" using r sym ch K1(1) by (simp_all add: write_entry_def sym_is_choice_def)
      have "\<not> (\<not> sym_is_choice_value K s \<and> has_flag SYMBOL_VALID s K \<and> has_flag SYMBOL_WRITE s K)"
        using K1(2) False by (auto simp: settles_def)
      then have "entry_effect cfg [m] out K out' K' []"
        using o sym settles_unmarks [OF K1(2)] by (simp add: entry_effect_def plain_one) blast
      then show ?thesis by blast
    next
      case W: True
      define K2 where "K2 = clear_flag SYMBOL_WRITE s K1"
      have s02: "unmarks {s} K K2"
        unfolding K2_def by (rule unmarks_trans [OF settles_unmarks [OF K1(2), of "{}"] unmarks_clear]) simp
      note f = edits_fields [OF unmarks_edits [OF s02]]
      obtain line where line: "conf_write_symbol kconfig_print_symbol cfg False s K2 = Some (line, K')" "out' = out @ line"
        using r sym ch K1(1) W by (auto simp: write_entry_def sym_is_choice_def K2_def bind_eq_Some_conv)
      have V2: "has_flag SYMBOL_VALID s K2" "\<not> has_flag SYMBOL_WRITE s K2" using V1 by (simp_all add: K2_def)
      have "\<not> sym_is_choice K2 (k_modules_sym K2)" "\<not> sym_is_choice K2 s" using mods ch by (simp_all add: f)
      from write_symbol_line [OF unmarks_wf [OF K s02] V2(1) this line(1) sym]
      obtain ps where ps: "settles K2 K'" "line = concat (map (piece_text cfg) ps)" "\<forall>p \<in> set ps. piece_ok K' m p"
        "ps = [] \<and> s \<in> odd_symbols K2 \<or> (\<exists>i. ps = [Setting i])" by blast
      note u = unmarks_trans [OF s02 settles_unmarks [OF ps(1), of "{}"]]
      have fst: "fst i = s" if "ps = [Setting i]" for i using ps(3) sym that by (cases i) auto
      have odd: "odd_symbols K2 = odd_symbols K" by (rule plain_edits(2) [OF unmarks_edits [OF s02]])
      have cv: "sym_is_choice_value K2 s = sym_is_choice_value K s" "sym_is_choice_value K1 s = sym_is_choice_value K s"
        using f(4) edits_fields(4) [OF settles_edits [OF K1(2)]] by simp_all
      have w: "has_flag SYMBOL_VALID s K' \<and> \<not> has_flag SYMBOL_WRITE s K' \<and>
          (has_flag SYMBOL_VALID s K \<longrightarrow> has_flag SYMBOL_WRITE s K)" if "\<not> sym_is_choice_value K s"
        using that ps(1) V2 W K1(2) cv by (auto simp: settles_def)
      have um: "unmarks (set (plain_symbols K ps) \<union> odd_symbols K) K K'" (is "unmarks ?U K K'")
      proof (cases "s \<in> ?U")
        case True
        then show ?thesis by (intro u) simp
      next
        case False
        with ps(4) odd obtain i where i: "ps = [Setting i]" by auto
        with False fst [OF i] have "sym_is_choice_value K s" by (cases "sym_is_choice_value K s") (simp_all add: plain_one)
        with u [of "{s}"] show ?thesis by (auto simp: unmarks_def)
      qed
      have "distinct (plain_symbols K ps)" "\<forall>t \<in> set (plain_symbols K ps). t = s \<and> \<not> sym_is_choice_value K s"
        using ps(4) fst by (auto simp: plain_one split: if_splits)
      moreover have "s \<in> set (plain_symbols K ps)" if "\<not> sym_is_choice_value K s" "s \<notin> odd_symbols K"
        using ps(4) fst that odd by (auto simp: plain_one)
      ultimately have "entry_effect cfg [m] out K out' K' ps"
        using um ps(2,3) line(2) w sym by (auto simp: entry_effect_def)
      then show ?thesis by blast
    qed
  qed
qed

lemma entry_effect_append:
  assumes 1: "entry_effect cfg ms out K o1 K1 qs" and 2: "entry_effect cfg ns o1 K1 out' K' ps"
  shows "entry_effect cfg (ms @ ns) out K out' K' (qs @ ps)"
proof -
  have u1: "unmarks (set (plain_symbols K qs) \<union> odd_symbols K) K K1"
    and u2: "unmarks (set (plain_symbols K1 ps) \<union> odd_symbols K1) K1 K'"
    using 1 2 by (simp_all add: entry_effect_def)
  note e = unmarks_edits [OF u1]
  note f = edits_fields [OF e]
  have pl: "plain_symbols K1 xs = plain_symbols K xs" "odd_symbols K1 = odd_symbols K" for xs
    using plain_edits [OF e] by simp_all
  have app: "plain_symbols K (qs @ ps) = plain_symbols K qs @ plain_symbols K ps" by (simp add: plain_symbols_def)
  have cv: "\<not> sym_is_choice_value K s" if "s \<in> set (plain_symbols K xs)" for s xs
    using that by (simp add: plain_symbols_def)
  have q: "has_flag SYMBOL_VALID s K1 \<and> \<not> has_flag SYMBOL_WRITE s K1 \<and> (has_flag SYMBOL_VALID s K \<longrightarrow> has_flag SYMBOL_WRITE s K)"
    if "s \<in> set (plain_symbols K qs)" for s using 1 that by (simp add: entry_effect_def)
  have p: "has_flag SYMBOL_VALID s K' \<and> \<not> has_flag SYMBOL_WRITE s K' \<and> (has_flag SYMBOL_VALID s K1 \<longrightarrow> has_flag SYMBOL_WRITE s K1)"
    if "s \<in> set (plain_symbols K ps)" for s using 2 that by (simp add: entry_effect_def pl)
  have disj: "set (plain_symbols K qs) \<inter> set (plain_symbols K ps) = {}" using q p by blast
  have w: "has_flag SYMBOL_VALID s K' \<and> \<not> has_flag SYMBOL_WRITE s K' \<and> (has_flag SYMBOL_VALID s K \<longrightarrow> has_flag SYMBOL_WRITE s K)"
    if "s \<in> set (plain_symbols K (qs @ ps))" for s
  proof (cases "s \<in> set (plain_symbols K qs)")
    case True
    then have "\<not> sym_is_choice_value K1 s" using cv f(4) by simp
    with q [OF True] u2 show ?thesis by (auto simp: unmarks_def)
  next
    case False
    with that have s: "s \<in> set (plain_symbols K ps)" by (simp add: app)
    with p [OF s] u1 cv [OF s] show ?thesis by (auto simp: unmarks_def)
  qed
  have comp: "s \<in> set (plain_symbols K (qs @ ps))"
    if m: "m \<in> set (ms @ ns)" "n_sym (m_node m) = Some s" "\<not> sym_is_choice K s" "\<not> sym_is_choice_value K s"
      "s \<notin> odd_symbols K" "has_flag SYMBOL_VALID s K" "has_flag SYMBOL_WRITE s K" for m s
  proof (cases "m \<in> set ms \<or> s \<in> set (plain_symbols K qs)")
    case True
    then show ?thesis using 1 m by (auto simp: entry_effect_def app)
  next
    case False
    then have "has_flag SYMBOL_VALID s K1" "has_flag SYMBOL_WRITE s K1" "m \<in> set ns"
      using u1 m by (auto simp: unmarks_def)
    then show ?thesis using 2 m by (auto simp: entry_effect_def app pl f)
  qed
  have "\<forall>p \<in> set (qs @ ps). \<exists>m \<in> set (ms @ ns). piece_ok K' m p"
    using 1 2 piece_ok_keeps [OF u2] by (fastforce simp: entry_effect_def)
  moreover have "unmarks (set (plain_symbols K (qs @ ps)) \<union> odd_symbols K) K K'"
    by (rule unmarks_trans [OF u1 u2]) (auto simp: app pl)
  moreover have "distinct (plain_symbols K (qs @ ps))"
    using 1 2 disj by (simp add: entry_effect_def app pl)
  moreover have "out' = out @ concat (map (piece_text cfg) (qs @ ps))" using 1 2 by (simp add: entry_effect_def)
  ultimately show ?thesis using w comp unfolding entry_effect_def by blast
qed

lemma each_menu_effect:
  "store_wf K \<Longrightarrow> \<not> sym_is_choice K (k_modules_sym K) \<Longrightarrow> each_menu (write_entry cfg) ms (out, K) = Some (out', K') \<Longrightarrow>
   \<exists>ps. entry_effect cfg ms out K out' K' ps"
proof (induction ms arbitrary: K out)
  case Nil
  then show ?case by (auto intro!: exI [of _ "[]"] simp: entry_effect_def plain_one settles_unmarks)
next
  case (Cons m ms)
  obtain o1 K1 where 1: "write_entry cfg m (out, K) = Some (o1, K1)"
    "each_menu (write_entry cfg) ms (o1, K1) = Some (out', K')"
    using Cons.prems(3) by (auto simp: bind_eq_Some_conv)
  from write_entry_effect [OF Cons.prems(1,2) 1(1)] obtain qs where qs: "entry_effect cfg [m] out K o1 K1 qs" by blast
  then have u: "unmarks (set (plain_symbols K qs) \<union> odd_symbols K) K K1" by (simp add: entry_effect_def)
  have "\<not> sym_is_choice K1 (k_modules_sym K1)"
    using Cons.prems(2) by (simp add: edits_fields [OF unmarks_edits [OF u]])
  from Cons.IH [OF unmarks_wf [OF Cons.prems(1) u] this 1(2)] obtain ps where "entry_effect cfg ms o1 K1 out' K' ps" by blast
  from entry_effect_append [OF qs this] show ?case by auto
qed

text \<open>The text and the store of \<open>conf_write\<close>, from the store the walk begins with.\<close>

definition write_start :: "kstate \<Rightarrow> kstate \<Rightarrow> bool" where
  "write_start K K1 \<longleftrightarrow> (if conf_get_changed K then K1 = K else sym_clear_all_valid K = Some ((), K1))"

lemma config_text_effect:
  assumes "store_wf K" "\<not> sym_is_choice K (k_modules_sym K)" "config_text cfg root K = Some (out, K')"
  obtains K1 title ps where "write_start K K1" "edits K K1" "root_title K root = Some title"
    "entry_effect cfg (tl (menus_of root)) (conf_write_heading kconfig_print_comment title) K1 out K' ps"
proof -
  obtain title K1 where K1: "root_title K root = Some title" "write_start K K1"
    "each_menu (write_entry cfg) (tl (menus_of root)) (conf_write_heading kconfig_print_comment title, K1) = Some (out, K')"
    using assms(3) by (auto simp: config_text_def walk_root bind_eq_Some_conv write_start_def split: if_splits)
  have e: "edits K K1" using K1(2) clear_all_total [OF assms(1)] by (auto simp: write_start_def split: if_splits)
  have "\<not> sym_is_choice K1 (k_modules_sym K1)" using assms(2) by (simp add: edits_fields [OF e])
  from each_menu_effect [OF edits_wf [OF e assms(1)] this K1(3)] that K1(1,2) e show thesis by blast
qed

section \<open>Reading it back\<close>

text \<open>What the reader leaves alone: everything but user values and some marks.\<close>

definition reader_flags :: "symflag set" where
  "reader_flags = {SYMBOL_DEF_USER, SYMBOL_VALID, SYMBOL_CHANGED}"

definition same_symbols :: "kstate \<Rightarrow> kstate \<Rightarrow> bool" where
  "same_symbols R R' \<longleftrightarrow> k_hash R' = k_hash R \<and>
     (\<forall>t. s_name (k_tab R' t) = s_name (k_tab R t) \<and> s_type (k_tab R' t) = s_type (k_tab R t) \<and>
        s_prop (k_tab R' t) = s_prop (k_tab R t) \<and>
        s_flags (k_tab R' t) - reader_flags = s_flags (k_tab R t) - reader_flags)"

lemma same_refl [simp]: "same_symbols R R"
  by (simp add: same_symbols_def)

lemma same_trans [trans]: "same_symbols R R1 \<Longrightarrow> same_symbols R1 R2 \<Longrightarrow> same_symbols R R2"
  by (simp add: same_symbols_def)

lemma same_flag: "same_symbols R R' \<Longrightarrow> fl \<notin> reader_flags \<Longrightarrow> has_flag fl t R' = has_flag fl t R"
  unfolding same_symbols_def has_flag_def by (metis Diff_iff)

lemma same_find:
  assumes "same_symbols R R'"
  shows "sym_find name R' = sym_find name R"
proof -
  have "s_name (k_tab R' t) = s_name (k_tab R t)"
       "SYMBOL_CONST \<in> s_flags (k_tab R' t) \<longleftrightarrow> SYMBOL_CONST \<in> s_flags (k_tab R t)" for t
    using assms same_flag [OF assms, of SYMBOL_CONST t] by (simp_all add: same_symbols_def has_flag_def reader_flags_def)
  moreover have "k_hash R' = k_hash R" using assms by (simp add: same_symbols_def)
  ultimately show ?thesis by (simp add: sym_find_def cong: option.case_cong)
qed

fun item_fits :: "kstate \<Rightarrow> conf_item \<Rightarrow> bool" where
  "item_fits R (s, ty, name, v) \<longleftrightarrow>
     name_fits name \<and> sym_find (Some name) R = Some s \<and> s_type (k_tab R s) = ty \<and> value_fits ty v \<and>
     \<not> sym_is_choice R s \<and>
     (sym_is_choice_value R s \<longrightarrow> (\<exists>cs. choice_of R s = Some (Some cs) \<and> sym_is_choice R cs))"

lemma same_choice_of: "same_symbols R R' \<Longrightarrow> choice_of R' s = choice_of R s"
  by (simp add: choice_of_def sym_get_choice_prop_def same_symbols_def)

lemma same_item: "same_symbols R R' \<Longrightarrow> item_fits R i \<Longrightarrow> item_fits R' i"
  using same_flag [of R R'] same_find [of R R'] same_choice_of [of R R']
  by (cases i) (auto simp: sym_is_choice_def sym_is_choice_value_def same_symbols_def reader_flags_def)

lemma same_user_set: "same_symbols R (user_set ty v s R)"
  by (auto simp: same_symbols_def user_set_tab user_set_hash reader_flags_def)

lemma same_reset: "same_symbols K (conf_reset S_DEF_USER K)"
proof -
  have one: "same_symbols K1 (upd_sym s (reset_def S_DEF_USER) K1)" for s K1
    by (auto simp: same_symbols_def k_tab_upd reset_def_def Let_def reader_flags_def)
  have "same_symbols K1 (fold (\<lambda>s K. if s_type (k_tab K s) = S_OTHER then K else upd_sym s (reset_def S_DEF_USER) K) ss K1)" for ss K1
  proof (induction ss arbitrary: K1)
    case (Cons s ss)
    have "same_symbols K1 (if s_type (k_tab K1 s) = S_OTHER then K1 else upd_sym s (reset_def S_DEF_USER) K1)"
      using one by simp
    from same_trans [OF this Cons.IH] show ?case by simp
  qed simp
  then show ?thesis by (simp add: conf_reset_def)
qed

text \<open>A choice follows its values; no other symbol changes.\<close>

lemma set_choice_result:
  assumes "sym_is_choice_value (fst C) s \<longrightarrow> (\<exists>cs. choice_of (fst C) s = Some (Some cs) \<and> sym_is_choice (fst C) cs)"
  obtains C' where "conf_set_choice s S_DEF_USER C = Some C'" "same_symbols (fst C) (fst C')"
    "\<forall>t. \<not> sym_is_choice (fst C) t \<longrightarrow> k_tab (fst C') t = k_tab (fst C) t"
proof (cases "sym_is_choice_value (fst C) s")
  case False
  then show ?thesis using that by (simp add: conf_set_choice_def)
next
  case True
  with assms obtain cs p where cs: "sym_get_choice_prop (fst C) s = Some p" "prop_get_symbol p = Some cs" "sym_is_choice (fst C) cs"
    by (auto simp: choice_of_def split: option.splits)
  have only: "k_tab K' t = k_tab K t" if "t \<noteq> cs" "K' \<in> {clear_flag fl cs K, set_def_val S_DEF_USER cs x K, set_def_tri S_DEF_USER cs y K}"
    for K K' t fl x y
    using that by (auto simp: clear_flag_def set_def_val_def set_def_tri_def k_tab_upd)
  have same: "same_symbols K (clear_flag SYMBOL_DEF_USER cs K)" "same_symbols K (set_def_val S_DEF_USER cs x K)"
    "same_symbols K (set_def_tri S_DEF_USER cs y K)" for K x y
    by (auto simp: same_symbols_def clear_flag_def set_def_val_def set_def_tri_def k_tab_upd reader_flags_def)
  have "\<exists>K1 w1 y. conf_set_choice s S_DEF_USER C = Some (set_def_tri S_DEF_USER cs y K1, w1) \<and>
      (K1 = fst C \<or> K1 = clear_flag SYMBOL_DEF_USER cs (fst C) \<or> (\<exists>x. K1 = set_def_val S_DEF_USER cs x (fst C)))"
    using True cs
    by (cases C, cases "def_tri S_DEF_USER s (fst C)") (auto simp: conf_set_choice_def Let_def)
  then obtain C' K1 w1 y where C': "conf_set_choice s S_DEF_USER C = Some C'"
    and 1: "C' = (set_def_tri S_DEF_USER cs y K1, w1)" "K1 = fst C \<or> K1 = clear_flag SYMBOL_DEF_USER cs (fst C) \<or>
      (\<exists>x. K1 = set_def_val S_DEF_USER cs x (fst C))"
    by blast
  have "same_symbols (fst C) K1" using 1(2) same same_refl by metis
  then have "same_symbols (fst C) (fst C')" using 1(1) same(3) same_trans by auto
  moreover have "k_tab K1 t = k_tab (fst C) t" if "t \<noteq> cs" for t using 1(2) only [OF that] by blast
  then have "k_tab (fst C') t = k_tab (fst C) t" if "t \<noteq> cs" for t using that 1(1) by (simp add: set_def_tri_def k_tab_upd)
  ultimately show ?thesis using that C' cs(3) by metis
qed

lemma item_line:
  assumes "list_all name_char cfg" "item_fits R i"
  obtains R' w' where "conf_line cfg S_DEF_USER (print_item cfg i) (R, w) = Some (R', w')" "same_symbols R R'"
    "item_read R' i" "\<And>j. item_read R j \<Longrightarrow> fst j \<noteq> fst i \<Longrightarrow> \<not> sym_is_choice R (fst j) \<Longrightarrow> item_read R' j"
proof -
  obtain s ty name v where i: "i = (s, ty, name, v)" by (cases i) auto
  define R1 where "R1 = user_set ty v s R"
  have s1: "same_symbols R R1" by (simp add: R1_def same_user_set)
  have line: "conf_line cfg S_DEF_USER (print_item cfg i) (R, w) =
      conf_set_choice s S_DEF_USER (R1, if has_flag SYMBOL_DEF_USER s R then w + 1 else w)"
    using conf_line_sets [OF assms(1), of name R s ty v w] assms(2) by (simp add: i R1_def)
  have f1: "item_fits R1 i" by (rule same_item [OF s1 assms(2)])
  obtain C' where C': "conf_set_choice s S_DEF_USER (R1, if has_flag SYMBOL_DEF_USER s R then w + 1 else w) = Some C'"
    "same_symbols R1 (fst C')" "\<forall>t. \<not> sym_is_choice R1 t \<longrightarrow> k_tab (fst C') t = k_tab R1 t"
    using set_choice_result [of "(R1, if has_flag SYMBOL_DEF_USER s R then w + 1 else w)" s] f1 by (auto simp: i)
  have "\<not> sym_is_choice R1 s" using f1 by (simp add: i)
  then have "k_tab (fst C') s = k_tab R1 s" using C'(3) by blast
  moreover have "item_read R1 i" using item_read_set [of i R] by (simp add: i R1_def)
  ultimately have ri: "item_read (fst C') i" by (auto simp: i has_flag_def def_tri_def split: if_splits)
  have keep: "item_read (fst C') j" if "item_read R j" "fst j \<noteq> fst i" "\<not> sym_is_choice R (fst j)" for j
  proof -
    obtain s' ty' name' v' where j: "j = (s', ty', name', v')" by (cases j) auto
    have "item_read R1 j" using item_read_keeps [of R s' ty' name' v' i] that by (simp add: i j R1_def)
    moreover have "\<not> sym_is_choice R1 s'" using same_flag [OF s1] that(3) by (simp add: j sym_is_choice_def reader_flags_def)
    then have "k_tab (fst C') s' = k_tab R1 s'" using C'(3) by blast
    ultimately show ?thesis by (auto simp: j has_flag_def def_tri_def split: if_splits)
  qed
  show thesis
    by (rule that [of "fst C'" "snd C'"]) (use line C' same_trans [OF s1] ri keep in auto)
qed

text \<open>A line that the reader takes for an unset option, and texts of comments that are not.\<close>

definition unset_line :: "string \<Rightarrow> string \<Rightarrow> bool" where
  "unset_line cfg line \<longleftrightarrow> starts_with cfg line \<and>
     (\<exists>n p. split_at CHR '' '' (drop (length cfg) line) = Some (n, p) \<and> starts_with ''is not set'' p)"

definition harmless :: "string \<Rightarrow> string \<Rightarrow> bool" where
  "harmless cfg t \<longleftrightarrow> CHR 0x0a \<notin> set t \<and> \<not> unset_line cfg (t @ newline)"

lemma comment_skipped: "harmless cfg t \<Longrightarrow> conf_line cfg def (''# '' @ t @ newline) C = Some C"
  by (auto simp: harmless_def unset_line_def conf_line_def conf_comment_def split: option.split)

lemma short_skipped:
  "conf_line cfg def (''#'' @ newline) C = Some C" "list_all name_char cfg \<Longrightarrow> conf_line cfg def newline C = Some C"
proof -
  show "conf_line cfg def (''#'' @ newline) C = Some C"
    by (cases "cfg = []") (simp_all add: conf_line_def conf_comment_def newline_def split_at_def starts_with_def)
  assume "list_all name_char cfg"
  then show "conf_line cfg def newline C = Some C"
    using name_char_not by (cases cfg)
      (auto simp: conf_line_def conf_assignment_def newline_def split_at_def starts_with_def)
qed

lemma lines_step:
  "CHR 0x0a \<notin> set body \<Longrightarrow> conf_line cfg def (body @ newline) C = Some C1 \<Longrightarrow>
     conf_lines cfg def (body @ newline @ rest) C = conf_lines cfg def rest C1"
  by (subst conf_lines.simps) (simp add: newline_def getline_line)

lemma title_skipped:
  assumes "list_all name_char cfg" "harmless cfg t"
  shows "conf_lines cfg def (piece_text cfg (Title t) @ rest) C = conf_lines cfg def rest C"
proof -
  have "conf_lines cfg def (piece_text cfg (Title t) @ rest) C =
      conf_lines cfg def ([] @ newline @ ''#'' @ newline @ (''# '' @ t) @ newline @ ''#'' @ newline @ rest) C" by simp
  also have "\<dots> = conf_lines cfg def (''#'' @ newline @ (''# '' @ t) @ newline @ ''#'' @ newline @ rest) C"
    by (rule lines_step) (simp_all add: short_skipped(2) [OF assms(1)])
  also have "\<dots> = conf_lines cfg def ((''# '' @ t) @ newline @ ''#'' @ newline @ rest) C"
    by (rule lines_step) (simp_all only: short_skipped(1), simp)
  also have "\<dots> = conf_lines cfg def (''#'' @ newline @ rest) C"
    by (rule lines_step) (use assms(2) comment_skipped [OF assms(2), of def C] in \<open>auto simp: harmless_def\<close>)
  also have "\<dots> = conf_lines cfg def rest C"
    by (rule lines_step) (simp_all only: short_skipped(1), simp)
  finally show ?thesis .
qed

definition heading_text :: string where
  "heading_text = ''Automatically generated file; DO NOT EDIT.''"

lemma heading_skipped:
  assumes "harmless cfg heading_text" "harmless cfg title" "title \<noteq> []" "length title \<le> 200"
  shows "conf_lines cfg def (conf_write_heading kconfig_print_comment title @ rest) C = conf_lines cfg def rest C"
proof -
  have nl: "CHR 0x0a \<notin> set title" using assms(2) by (simp add: harmless_def)
  then have "\<And>d. d \<in> set title \<Longrightarrow> d \<noteq> CHR 0x0a" by blast
  then have tw: "takeWhile (\<lambda>c. c \<noteq> CHR 0x0a) (title @ [CHR 0x0a]) = title" "dropWhile (\<lambda>c. c \<noteq> CHR 0x0a) (title @ [CHR 0x0a]) = [CHR 0x0a]"
    by (simp_all add: takeWhile_append2 dropWhile_append2)
  have "conf_write_heading kconfig_print_comment title =
      comment_lines ''#'' ([CHR 0x0a] @ heading_text @ [CHR 0x0a] @ title @ [CHR 0x0a])"
    using assms(4) by (simp add: conf_write_heading_def kconfig_print_comment_def heading_text_def)
  also have "\<dots> = ''#'' @ newline @ (''# '' @ heading_text) @ newline @ (''# '' @ title) @ newline @ ''#'' @ newline"
    using assms(3) tw
    by (simp add: comment_lines.simps [of _ "CHR 0x0a # _"] comment_lines.simps [of _ "[]"] heading_text_def
        comment_lines.simps [of _ "CHR ''A'' # _"] comment_lines.simps [of _ "title @ _"] newline_def Let_def)
  finally have h: "conf_write_heading kconfig_print_comment title @ rest =
      ''#'' @ newline @ (''# '' @ heading_text) @ newline @ (''# '' @ title) @ newline @ ''#'' @ newline @ rest" by simp
  have "conf_lines cfg def (''#'' @ newline @ (''# '' @ heading_text) @ newline @ (''# '' @ title) @ newline @ ''#'' @ newline @ rest) C =
      conf_lines cfg def ((''# '' @ heading_text) @ newline @ (''# '' @ title) @ newline @ ''#'' @ newline @ rest) C"
    by (rule lines_step) (simp_all only: short_skipped(1), simp)
  also have "\<dots> = conf_lines cfg def ((''# '' @ title) @ newline @ ''#'' @ newline @ rest) C"
    by (rule lines_step) (use assms(1) comment_skipped [OF assms(1), of def C] in \<open>auto simp: harmless_def\<close>)
  also have "\<dots> = conf_lines cfg def (''#'' @ newline @ rest) C"
    by (rule lines_step) (use assms(2) comment_skipped [OF assms(2), of def C] in \<open>auto simp: harmless_def\<close>)
  also have "\<dots> = conf_lines cfg def rest C"
    by (rule lines_step) (simp_all only: short_skipped(1), simp)
  finally show ?thesis by (simp only: h)
qed

lemma read_pieces:
  assumes "list_all name_char cfg"
  shows "\<forall>t. Title t \<in> set ps \<longrightarrow> harmless cfg t \<Longrightarrow> \<forall>i \<in> set (settings ps). item_fits R i \<Longrightarrow>
    \<forall>i \<in> set (settings ps). \<forall>j \<in> set (settings ps). fst i = fst j \<longrightarrow> i = j \<Longrightarrow>
    \<exists>R' w'. conf_lines cfg S_DEF_USER (concat (map (piece_text cfg) ps)) (R, w) = Some (R', w') \<and>
      (\<forall>i \<in> set (settings ps). item_read R' i) \<and>
      (\<forall>j. item_read R j \<and> \<not> sym_is_choice R (fst j) \<and> (\<forall>i \<in> set (settings ps). fst i = fst j \<longrightarrow> i = j) \<longrightarrow> item_read R' j)"
proof (induction ps arbitrary: R w)
  case Nil
  then show ?case by (subst conf_lines.simps) simp
next
  case (Cons p ps)
  show ?case
  proof (cases p)
    case (Title t)
    have "harmless cfg t" using Cons.prems(1) Title by simp
    with Cons.IH [of R w] Cons.prems show ?thesis
      by (simp add: Title title_skipped [OF assms] del: piece_text.simps(1))
  next
    case (Setting i)
    have fits: "item_fits R i" using Cons.prems(2) Setting by simp
    obtain R1 w1 where 1: "conf_line cfg S_DEF_USER (print_item cfg i) (R, w) = Some (R1, w1)" "same_symbols R R1"
      "item_read R1 i" "\<And>j. item_read R j \<Longrightarrow> fst j \<noteq> fst i \<Longrightarrow> \<not> sym_is_choice R (fst j) \<Longrightarrow> item_read R1 j"
      using item_line [OF assms fits, of w] by metis
    obtain s ty name v where i: "i = (s, ty, name, v)" by (cases i) auto
    obtain body where body: "print_item cfg i = body @ [CHR 0x0a]" "CHR 0x0a \<notin> set body"
      using printed_line [OF assms, of name ty v] fits by (auto simp: i)
    have step: "conf_lines cfg S_DEF_USER (concat (map (piece_text cfg) (p # ps))) (R, w) =
        conf_lines cfg S_DEF_USER (concat (map (piece_text cfg) ps)) (R1, w1)"
      using lines_step [OF body(2), of cfg S_DEF_USER "(R, w)" "(R1, w1)"] 1(1) by (simp add: Setting body(1) newline_def)
    have "\<forall>j \<in> set (settings ps). item_fits R1 j" using Cons.prems(2) Setting same_item [OF 1(2)] by simp
    moreover have "\<forall>t. Title t \<in> set ps \<longrightarrow> harmless cfg t" using Cons.prems(1) by simp
    moreover have "\<forall>i \<in> set (settings ps). \<forall>j \<in> set (settings ps). fst i = fst j \<longrightarrow> i = j"
      using Cons.prems(3) Setting by simp
    ultimately obtain R' w' where R': "conf_lines cfg S_DEF_USER (concat (map (piece_text cfg) ps)) (R1, w1) = Some (R', w')"
      "\<forall>j \<in> set (settings ps). item_read R' j"
      "\<And>j. item_read R1 j \<Longrightarrow> \<not> sym_is_choice R1 (fst j) \<Longrightarrow> (\<forall>i \<in> set (settings ps). fst i = fst j \<longrightarrow> i = j) \<Longrightarrow> item_read R' j"
      using Cons.IH [of R1 w1] by blast
    have ch: "sym_is_choice R1 t = sym_is_choice R t" for t
      using same_flag [OF 1(2)] by (simp add: sym_is_choice_def reader_flags_def)
    have "\<not> sym_is_choice R s" using fits by (simp add: i)
    then have "item_read R' i"
      using R'(3) [OF 1(3)] Cons.prems(3) ch by (auto simp: Setting i)
    then have all: "\<forall>i \<in> set (settings (p # ps)). item_read R' i" using R'(2) by (simp add: Setting)
    have keep: "item_read R' j"
      if "item_read R j" "\<not> sym_is_choice R (fst j)" "\<forall>i \<in> set (settings (p # ps)). fst i = fst j \<longrightarrow> i = j" for j
    proof (cases "fst j = fst i")
      case True
      with that(3) have "i = j" by (simp add: Setting)
      with all show ?thesis by (simp add: Setting)
    next
      case False
      from R'(3) [OF 1(4) [OF that(1) False that(2)]] that(2,3) ch show ?thesis by (simp add: Setting)
    qed
    show ?thesis unfolding step using R'(1) all keep by blast
  qed
qed

text \<open>A symbol whose line the reader understands, and one that it restores.\<close>

definition readable_symbol :: "kstate \<Rightarrow> symref \<Rightarrow> bool" where
  "readable_symbol K s \<longleftrightarrow> (\<forall>name. s_name (k_tab K s) = Some name \<longrightarrow>
     name_fits name \<and> sym_find (Some name) K = Some s \<and> value_fits (s_type (k_tab K s)) (sym_get_string_value K s))"

definition restored :: "kstate \<Rightarrow> kstate \<Rightarrow> symref \<Rightarrow> bool" where
  "restored K R s \<longleftrightarrow> has_flag SYMBOL_DEF_USER s R \<and>
     (let v = sym_get_string_value K s; ty = s_type (k_tab K s)
      in if ty = S_BOOLEAN \<or> ty = S_TRISTATE then def_tri S_DEF_USER s R = tri_value v
         else sv_val (s_def_user (k_tab R s)) = CStr v)"


text \<open>A boolean and a string, calculated and to be written.\<close>

definition save_symbol :: "string \<Rightarrow> symbol_type \<Rightarrow> symbol_value \<Rightarrow> symbol" where
  "save_symbol nm ty v = (new_symbol (Some nm) {SYMBOL_VALID, SYMBOL_WRITE})\<lparr>s_type := ty, s_curr := v\<rparr>"

definition save_sample :: kstate where
  "save_sample = empty_table
     \<lparr>k_tab := (\<lambda>t. if t = Sym 0 then save_symbol ''BR2_ARM'' S_BOOLEAN \<lparr>sv_val = CNull, sv_tri = tri_yes\<rparr>
         else if t = Sym 1 then save_symbol ''BR2_HOST'' S_STRING \<lparr>sv_val = CStr ''a'', sv_tri = tri_no\<rparr>
         else new_symbol None {SYMBOL_VALID}),
       k_nsyms := 2, k_changes := 1, k_hash := (\<lambda>_. [Sym 1, Sym 0])\<rparr>"

definition save_root :: menu where
  "save_root = Menu (view_node 0 None (Some (Own_prompt (view_prop ''Main'' tri_yes 0))))
     [Menu (view_node 1 (Some (Sym 0)) None) [], Menu (view_node 2 (Some (Sym 1)) None) []]"

definition saved :: kstate where
  "saved = clear_flag SYMBOL_WRITE (Sym 1) (clear_flag SYMBOL_WRITE (Sym 0) save_sample)"

definition saved_text :: string where
  "saved_text = conf_write_heading kconfig_print_comment ''Main'' @ ''BR2_ARM=y'' @ newline @
     ''BR2_HOST='' @ [CHR 0x22, CHR ''a'', CHR 0x22] @ newline"

lemma save_tab:
  "s_name (k_tab save_sample t) = (if t = Sym 0 then Some ''BR2_ARM'' else if t = Sym 1 then Some ''BR2_HOST'' else None)"
  "s_type (k_tab save_sample t) = (if t = Sym 0 then S_BOOLEAN else if t = Sym 1 then S_STRING else S_UNKNOWN)"
  "s_curr (k_tab save_sample t) = (if t = Sym 0 then \<lparr>sv_val = CNull, sv_tri = tri_yes\<rparr>
     else if t = Sym 1 then \<lparr>sv_val = CStr ''a'', sv_tri = tri_no\<rparr> else s_curr (new_symbol None {}))"
  "s_flags (k_tab save_sample t) = (if t = Sym 0 \<or> t = Sym 1 then {SYMBOL_VALID, SYMBOL_WRITE} else {SYMBOL_VALID})"
  "s_prop (k_tab save_sample t) = []" "k_modules_sym save_sample = symbol_no"
  "k_hash save_sample = (\<lambda>_. [Sym 1, Sym 0])" "k_changes save_sample = 1"
  by (simp_all add: save_sample_def save_symbol_def new_symbol_def empty_table_def)

lemma saved_tab:
  "s_name (k_tab saved t) = s_name (k_tab save_sample t)" "s_type (k_tab saved t) = s_type (k_tab save_sample t)"
  "s_curr (k_tab saved t) = s_curr (k_tab save_sample t)" "s_flags (k_tab saved t) = {SYMBOL_VALID}"
  "k_hash saved = (\<lambda>_. [Sym 1, Sym 0])"
  by (auto simp: saved_def clear_flag_def k_tab_upd save_tab upd_sym_def)

lemma save_wf: "store_wf save_sample"
  by (simp add: store_wf_def symbol_wf_def save_tab has_flag_def)

lemma saved_find: "sym_find (Some ''BR2_ARM'') saved = Some (Sym 0)" "sym_find (Some ''BR2_HOST'') saved = Some (Sym 1)"
  by (simp_all add: sym_find_def static_sym_def saved_tab save_tab)

lemma settled_line:
  assumes "settled K" "s_name (k_tab K s) = Some name" "s_type (k_tab K s) \<noteq> S_OTHER" "s_type (k_tab K s) \<noteq> S_UNKNOWN"
  shows "conf_write_symbol kconfig_print_symbol cfg False s K =
    Some (printed cfg (s_type (k_tab K s)) name (sym_get_string_value K s), K)"
  using assms(2-4) by (simp add: conf_write_symbol_def Let_def settled_get_string [OF assms(1)] escape_fits printed_def)

lemma settled_entry:
  assumes "settled K" "n_sym (m_node m) = Some s" "\<not> has_flag SYMBOL_CHOICE s K" "has_flag SYMBOL_WRITE s K"
    "s_name (k_tab K s) = Some name" "s_type (k_tab K s) \<noteq> S_OTHER" "s_type (k_tab K s) \<noteq> S_UNKNOWN"
  shows "write_entry cfg m (out, K) = Some (out @ printed cfg (s_type (k_tab K s)) name
    (sym_get_string_value (clear_flag SYMBOL_WRITE s K) s), clear_flag SYMBOL_WRITE s K)"
proof -
  have "settled (clear_flag SYMBOL_WRITE s K)" using assms(1) by (simp add: settled_def)
  from settled_line [OF this, of s name] assms show ?thesis
    by (simp add: write_entry_def settled_calc [OF assms(1)] clear_flag_def k_tab_upd upd_sym_def)
qed

lemma saved_text_lines: "saved_text = conf_write_heading kconfig_print_comment ''Main'' @
    printed [] S_BOOLEAN ''BR2_ARM'' ''y'' @ printed [] S_STRING ''BR2_HOST'' ''a''"
  by (simp add: saved_text_def printed_def kconfig_print_symbol_def newline_def is_special_def)

lemma save_text: "config_text [] save_root save_sample = Some (saved_text, saved)"
proof -
  define K where "K = clear_flag SYMBOL_WRITE (Sym 0) save_sample"
  have 1: "settled save_sample" by (simp add: settled_def has_flag_def save_tab)
  have 2: "settled K" using 1 by (simp add: settled_def K_def)
  have t: "s_type (k_tab K t) = s_type (k_tab save_sample t)" "s_name (k_tab K t) = s_name (k_tab save_sample t)"
    "s_curr (k_tab K t) = s_curr (k_tab save_sample t)" for t
    by (simp_all add: K_def clear_flag_def k_tab_upd upd_sym_def)
  have fl: "s_flags (k_tab K (Sym (Suc 0))) = {SYMBOL_VALID, SYMBOL_WRITE}"
    by (simp add: K_def clear_flag_def k_tab_upd upd_sym_def save_tab)
  have K: "clear_flag SYMBOL_WRITE (Sym (Suc 0)) K = saved" by (simp add: saved_def K_def)
  have v: "sym_get_string_value K (Sym 0) = ''y''" "sym_get_string_value saved (Sym (Suc 0)) = ''a''"
    by (simp_all add: sym_get_string_value_def sym_get_tristate_value_def t saved_tab save_tab)
  have e: "write_entry [] (Menu (view_node (Suc 0) (Some (Sym 0)) None) []) (out, save_sample) = Some (out @ printed [] S_BOOLEAN ''BR2_ARM'' ''y'', K)"
    for out using settled_entry [OF 1, of "Menu (view_node (Suc 0) (Some (Sym 0)) None) []" "Sym 0" "''BR2_ARM''" "[]" out]
    by (simp add: view_node_def has_flag_def save_tab v K_def [symmetric])
  have f: "write_entry [] (Menu (view_node 2 (Some (Sym (Suc 0))) None) []) (out, K) = Some (out @ printed [] S_STRING ''BR2_HOST'' ''a'', saved)"
    for out using settled_entry [OF 2, of "Menu (view_node 2 (Some (Sym (Suc 0))) None) []" "Sym (Suc 0)" "''BR2_HOST''" "[]" out]
    by (simp add: view_node_def t v K fl has_flag_def save_tab)
  show ?thesis
    by (simp add: config_text_def root_title_def save_root_def prompt_prop_def conf_get_changed_def save_tab walk_root
        view_prop_def e f saved_text_lines) (simp add: view_node_def view_prop_def)
qed

lemma unset_line_test: "unset_line cfg line \<longleftrightarrow> starts_with cfg line \<and>
    (case split_at CHR '' '' (drop (length cfg) line) of None \<Rightarrow> False | Some (n, p) \<Rightarrow> starts_with ''is not set'' p)"
  by (auto simp: unset_line_def split: option.split)

lemma save_harmless: "harmless [] heading_text" "harmless [] ''Main''"
  unfolding harmless_def unset_line_test by code_simp+


section \<open>The file that was there\<close>

lemma last_show_nat: "last (show_nat 10 n) \<noteq> CHR ''d'' \<and> show_nat 10 n \<noteq> []"
proof -
  have "last (show_nat 10 n) \<in> set (show_nat 10 n)" using show_nat_dec [of n] by simp
  then have "is_digit_of 10 (last (show_nat 10 n))" using show_nat_dec [of n] by (auto simp: list_all_iff)
  then show ?thesis using show_nat_dec [of n] by (auto simp: is_digit_of_def digit_val_def)
qed

lemma resolve_last: "p \<noteq> [] \<Longrightarrow> last (resolve d p) = last p"
  by (simp add: resolve_def)

text \<open>The three steps that put the new text in place of the old.\<close>

lemma replaced:
  assumes "d1 = put_text S t out d" "d2 = (case rename S n b d1 of Some d \<Rightarrow> d | None \<Rightarrow> d1)"
    and "resolve d t \<noteq> resolve d n" "resolve d t \<noteq> resolve d b" "resolve d n \<noteq> resolve d b"
    and "get_text d n = Some old" "os_may_rename S (resolve d n) (resolve d b)"
  shows "get_text d2 b = Some old" "rename S t n d2 = Some d3 \<Longrightarrow> get_text d3 n = Some out \<and> get_text d3 b = Some old"
proof -
  have r: "resolve (d\<lparr>d_text := f\<rparr>) p = resolve d p" for f p by (simp add: resolve_def)
  have d2: "d2 = d\<lparr>d_text := (d_text d)(resolve d t \<mapsto> out, resolve d n := None, resolve d b \<mapsto> old)\<rparr>"
    using assms(3-7) by (simp add: assms(1,2) rename_def put_text_def get_text_def r)
  show "get_text d2 b = Some old" using assms(3-5) by (simp add: d2 get_text_def r)
  show "get_text d3 n = Some out \<and> get_text d3 b = Some old" if "rename S t n d2 = Some d3"
    using that assms(3-5) by (auto simp: d2 get_text_def rename_def r split: if_splits)
qed


definition save_disk :: disk where
  "save_disk = \<lparr>d_text = (\<lambda>p. if p = ''/work/.config'' then Some ''old'' else None), d_dir = (\<lambda>p. p = ''/work''), d_cwd = ''/work''\<rparr>"

definition save_os :: os where
  "save_os = \<lparr>os_env = (\<lambda>_. None), os_may_write = (\<lambda>_. True), os_may_rename = (\<lambda>_ _. True), os_may_mkdir = (\<lambda>_. True),
     os_may_leave = True, os_pid = 7\<rparr>"


end
