(* ===== verification/Conf_Auto.thy ===== *)
theory Conf_Auto
  imports Conf_Save
begin

text \<open>
  The files that a build reads (confdata.c, util.c): \<open>conf_write_autoconf\<close>, which
  touches a header for every symbol that changed, and \<open>file_write_dep\<close>, the dependencies
  on the description of the options.
\<close>

section \<open>\<open>file_write_dep\<close>\<close>

text \<open>The directory part of a name, its last slash included.\<close>

definition config_dir :: "string \<Rightarrow> string" where
  "config_dir name = (case rsplit slash name of Some (dir, _) \<Rightarrow> dir @ [slash] | None \<Rightarrow> [])"

definition tab_char :: string where "tab_char = [CHR 0x09]"

definition backslash :: string where "backslash = [CHR 0x5c]"

fun dep_files :: "string list \<Rightarrow> string" where
  "dep_files [] = []"
| "dep_files (f # fs) = tab_char @ f @ (if fs \<noteq> [] then '' '' @ backslash else []) @ newline @ dep_files fs"

definition dquote :: string where "dquote = [CHR 0x22]"

text \<open>The lines for a symbol set from the environment; none if it names no variable.\<close>

definition dep_env :: "os \<Rightarrow> kstate \<Rightarrow> string \<Rightarrow> symref \<Rightarrow> string option" where
  "dep_env S K auto s = do {
     prop \<leftarrow> sym_get_env_prop K s;
     (case prop_get_symbol prop of
        None \<Rightarrow> Some []
      | Some e \<Rightarrow> do {
          nm \<leftarrow> s_name (k_tab K e);
          let val = (case os_env S nm of Some v \<Rightarrow> v | None \<Rightarrow> []);
          Some (''ifneq '' @ dquote @ ''$('' @ nm @ '')'' @ dquote @ '' '' @ dquote @ val @ dquote @ newline @
                auto @ '': FORCE'' @ newline @ ''endif'' @ newline) }) }"

fun dep_envs :: "os \<Rightarrow> kstate \<Rightarrow> string \<Rightarrow> symref list \<Rightarrow> string option" where
  "dep_envs S K auto [] = Some []"
| "dep_envs S K auto (s # ss) = do {
     t \<leftarrow> dep_env S K auto s;
     ts \<leftarrow> dep_envs S K auto ss;
     Some (t @ ts) }"

text \<open>
  \<open>files\<close> is \<open>file_list\<close>, \<open>envs\<close> the symbols of \<open>sym_env_list\<close>. A name that is missing
  is printed as \<open>(null)\<close>. Whether the file could be renamed is not looked at.
\<close>

definition file_write_dep :: "os \<Rightarrow> string list \<Rightarrow> symref list \<Rightarrow> kstate \<Rightarrow> string option \<Rightarrow> disk \<Rightarrow> (bool \<times> disk) option" where
  "file_write_dep S files envs K name d =
     (let name = (case name of Some n \<Rightarrow> n | None \<Rightarrow> ''.kconfig.d'');
          dir = config_dir (conf_get_configname S);
          auto = printable (conf_get_autoconfig_name S);
          tmp = dir @ ''..config.tmp''
      in if length (conf_get_configname S) > PATH_MAX \<or> length tmp > PATH_MAX then None
         else if \<not> can_open S d tmp then Some (True, d)
         else do {
           envs \<leftarrow> dep_envs S K auto envs;
           let d = put_text S tmp (''deps_config := '' @ backslash @ newline @ dep_files files @
             newline @ auto @ '': '' @ backslash @ newline @ tab_char @ ''$(deps_config)'' @ newline @ newline @ envs @
             newline @ ''$(deps_config): ;'' @ newline) d;
           (if length (dir @ name) > PATH_MAX then None
            else Some (False, case rename S tmp (dir @ name) d of Some d \<Rightarrow> d | None \<Rightarrow> d)) })"

section \<open>\<open>conf_split_config\<close>\<close>

text \<open>Is there something to rebuild for the symbol? Its old value is the one of \<open>auto.conf\<close>.\<close>

definition needs_touch :: "kstate \<Rightarrow> symref \<Rightarrow> (bool \<times> kstate) option" where
  "needs_touch K s =
     (let ty = s_type (k_tab K s) in
      if has_flag SYMBOL_WRITE s K then
        (if has_flag SYMBOL_DEF_AUTO s K then
           (if ty = S_BOOLEAN \<or> ty = S_TRISTATE
            then Some (sym_get_tristate_value K s \<noteq> def_tri S_DEF_AUTO s K, K)
            else if ty = S_STRING \<or> ty = S_HEX \<or> ty = S_INT then
              (case sv_val (s_def_auto (k_tab K s)) of
                 CStr old \<Rightarrow> do { (v, K) \<leftarrow> get_string_value calc_sym s K; Some (v \<noteq> old, K) }
               | _ \<Rightarrow> None)
            else Some (True, K))
         else Some (\<not> ((ty = S_BOOLEAN \<or> ty = S_TRISTATE) \<and> sym_get_tristate_value K s = tri_no), K))
      else Some (has_flag SYMBOL_DEF_AUTO s K, K))"

definition c_tolower :: "char \<Rightarrow> char" where
  "c_tolower c = (let n = (of_char c :: nat) in if 65 \<le> n \<and> n \<le> 90 then char_of (n + 32) else c)"

text \<open>The header of a symbol: every underscore starts a directory.\<close>

definition touch_path :: "string \<Rightarrow> string" where
  "touch_path name = map (\<lambda>c. let c = c_tolower c in if c = CHR ''_'' then slash else c) name @ ''.h''"

text \<open>
  \<open>open\<close> with \<open>O_CREAT | O_TRUNC\<close>: \<open>ENOENT\<close> when the directory of the file is missing.
  The root and the current directory always exist.
\<close>

datatype opened_file = Opened disk | Missing_dir | Not_allowed

definition parent_exists :: "disk \<Rightarrow> string \<Rightarrow> bool" where
  "parent_exists d p = (case rsplit slash p of None \<Rightarrow> True | Some (dir, _) \<Rightarrow> dir = [] \<or> d_dir d (resolve d dir))"

definition open_truncate :: "os \<Rightarrow> string \<Rightarrow> disk \<Rightarrow> opened_file" where
  "open_truncate S p d =
     (if \<not> parent_exists d p then Missing_dir
      else if can_open S d p then Opened (put_text S p [] d) else Not_allowed)"

definition mkdir :: "os \<Rightarrow> string \<Rightarrow> disk \<Rightarrow> disk option" where
  "mkdir S p d =
     (if p \<noteq> [] \<and> parent_exists d p \<and> d_text d (resolve d p) = None \<and> os_may_mkdir S (resolve d p)
      then Some (d\<lparr>d_dir := (d_dir d)(resolve d p := True)\<rparr>) else None)"

definition exists_name :: "disk \<Rightarrow> string \<Rightarrow> bool" where
  "exists_name d p \<longleftrightarrow> p \<noteq> [] \<and> (d_dir d (resolve d p) \<or> d_text d (resolve d p) \<noteq> None)"

text \<open>The directories up to every slash of the name; \<open>done\<close> is what is behind.\<close>

fun make_dirs :: "os \<Rightarrow> string \<Rightarrow> string \<Rightarrow> disk \<Rightarrow> disk option" where
  "make_dirs S seen [] d = Some d"
| "make_dirs S seen (c # cs) d =
     (if c = slash then
        (if exists_name d seen then make_dirs S (seen @ [c]) cs d
         else (case mkdir S seen d of None \<Rightarrow> None | Some d \<Rightarrow> make_dirs S (seen @ [c]) cs d))
      else make_dirs S (seen @ [c]) cs d)"

definition touch :: "os \<Rightarrow> string \<Rightarrow> disk \<Rightarrow> disk option" where
  "touch S p d =
     (case open_truncate S p d of
        Opened d \<Rightarrow> Some d
      | Not_allowed \<Rightarrow> None
      | Missing_dir \<Rightarrow>
          (case make_dirs S [] p d of
             None \<Rightarrow> None
           | Some d \<Rightarrow> (case open_truncate S p d of Opened d \<Rightarrow> Some d | _ \<Rightarrow> None)))"

text \<open>
  The loop over the symbols; it stops at the first file that cannot be made. The log
  keeps the symbols whose header was touched.
\<close>

fun split_loop :: "os \<Rightarrow> symref list \<Rightarrow> symref list \<Rightarrow> disk \<Rightarrow> kstate \<Rightarrow> (bool \<times> symref list \<times> disk \<times> kstate) option" where
  "split_loop S [] log d K = Some (False, log, d, K)"
| "split_loop S (s # ss) log d K = do {
     (_, K) \<leftarrow> calc_sym s K;
     (case s_name (k_tab K s) of
        None \<Rightarrow> split_loop S ss log d K
      | Some name \<Rightarrow>
          if has_flag SYMBOL_AUTO s K then split_loop S ss log d K
          else do {
            (change, K) \<leftarrow> needs_touch K s;
            (if \<not> change then split_loop S ss log d K
             else if length (touch_path name) > PATH_MAX then None
             else (case touch S (touch_path name) d of
                 None \<Rightarrow> Some (True, log, d, K)
               | Some d \<Rightarrow> split_loop S ss (log @ [s]) d K)) }) }"

text \<open>\<open>dirname\<close> of the C library.\<close>

definition dirname :: "string \<Rightarrow> string" where
  "dirname p =
     (let r = dropWhile (\<lambda>c. c = slash) (rev p); up = dropWhile (\<lambda>c. c \<noteq> slash) r
      in if r = [] then (if p = [] then ''.'' else [slash])
         else if up = [] then ''.''
         else (case dropWhile (\<lambda>c. c = slash) up of [] \<Rightarrow> [slash] | q \<Rightarrow> rev q))"

definition chdir :: "string \<Rightarrow> disk \<Rightarrow> disk option" where
  "chdir p d = (if p = ''.'' then Some d else if d_dir d (resolve d p) then Some (d\<lparr>d_cwd := resolve d p\<rparr>) else None)"

text \<open>\<open>zconf_fopen\<close> (zconf.l): the contents of a file, of this directory or the source tree.\<close>

definition zconf_fopen :: "os \<Rightarrow> disk \<Rightarrow> string \<Rightarrow> string option" where
  "zconf_fopen S d name =
     (case get_text d name of
        Some t \<Rightarrow> Some t
      | None \<Rightarrow>
          if Conf_Read.begins slash name then None
          else (case os_env S ''srctree'' of Some e \<Rightarrow> get_text d (e @ slash # name) | None \<Rightarrow> None))"

text \<open>A missing name is a null pointer that \<open>strdup\<close> gets.\<close>

definition conf_split_config :: "os \<Rightarrow> string \<Rightarrow> disk \<Rightarrow> conf \<Rightarrow> (bool \<times> symref list \<times> disk \<times> conf) option" where
  "conf_split_config S cfg d C = do {
     name \<leftarrow> conf_get_autoconfig_name S;
     (_, K, w) \<leftarrow> conf_read_simple cfg (zconf_fopen S d) (conf_get_configname S) None (Some name) S_DEF_AUTO C;
     (_, K) \<leftarrow> calc_sym (k_modules_sym K) K;
     (case chdir (dirname name) d of
        None \<Rightarrow> Some (True, [], d, K, w)
      | Some d1 \<Rightarrow> do {
          (failed, log, d2, K) \<leftarrow> split_loop S (hashed_symbols K) [] d1 K;
          Some (failed \<or> \<not> os_may_leave S, log, if os_may_leave S then d2\<lparr>d_cwd := d_cwd d\<rparr> else d2, K, w) }) }"

section \<open>\<open>conf_write_autoconf\<close>\<close>

text \<open>The texts of \<open>auto.conf\<close>, \<open>tristate.conf\<close> and the header, one symbol after the other.\<close>

type_synonym auto_texts = "string \<times> string \<times> string"

definition auto_entry :: "string \<Rightarrow> symref \<Rightarrow> auto_texts \<times> kstate \<Rightarrow> (auto_texts \<times> kstate) option" where
  "auto_entry cfg s C = (case C of ((out, tri, hdr), K) \<Rightarrow> do {
     (_, K) \<leftarrow> calc_sym s K;
     (if \<not> has_flag SYMBOL_WRITE s K \<or> s_name (k_tab K s) = None then Some ((out, tri, hdr), K)
      else do {
        (l1, K) \<leftarrow> conf_write_symbol kconfig_print_symbol cfg True s K;
        (l2, K) \<leftarrow> conf_write_symbol tristate_print_symbol cfg True s K;
        (l3, K) \<leftarrow> conf_write_symbol header_print_symbol cfg False s K;
        Some ((out @ l1, tri @ l2, hdr @ l3), K) }) })"

definition env_or :: "os \<Rightarrow> string \<Rightarrow> string \<Rightarrow> string" where
  "env_or S var dflt = (case os_env S var of Some v \<Rightarrow> v | None \<Rightarrow> dflt)"

text \<open>The three files replace the old ones, \<open>auto.conf\<close> last.\<close>

definition install_auto :: "os \<Rightarrow> string \<Rightarrow> disk \<Rightarrow> (bool \<times> disk) option" where
  "install_auto S dir d =
     (case rename S (dir @ ''.tmpconfig.h'') (env_or S ''KCONFIG_AUTOHEADER'' ''include/generated/autoconf.h'') d of
        None \<Rightarrow> Some (True, d)
      | Some d \<Rightarrow>
          (case rename S (dir @ ''.tmpconfig_tristate'') (env_or S ''KCONFIG_TRISTATE'' ''include/config/tristate.conf'') d of
             None \<Rightarrow> Some (True, d)
           | Some d \<Rightarrow> do {
               name \<leftarrow> conf_get_autoconfig_name S;
               Some (case rename S (dir @ ''.tmpconfig'') name d of None \<Rightarrow> (True, d) | Some d \<Rightarrow> (False, d)) }))"

definition conf_write_autoconf ::
  "os \<Rightarrow> string \<Rightarrow> menu \<Rightarrow> string list \<Rightarrow> symref list \<Rightarrow> disk \<Rightarrow> conf \<Rightarrow> (bool \<times> disk \<times> conf) option" where
  "conf_write_autoconf S cfg root files envs d C =
     (let dir = config_dir (conf_get_configname S)
      in if length (conf_get_configname S) > PATH_MAX \<or> length (dir @ ''.tmpconfig_tristate'') > PATH_MAX then None
      else do {
        (_, K) \<leftarrow> sym_clear_all_valid (fst C);
        (_, d) \<leftarrow> file_write_dep S files envs K (Some (dir @ ''.config.cmd'')) d;
        (failed, _, d, K, w) \<leftarrow> conf_split_config S cfg d (K, snd C);
        (if failed \<or> \<not> can_open S d (dir @ ''.tmpconfig'') then Some (True, d, K, w)
         else
           (let d = put_text S (dir @ ''.tmpconfig'') [] d in
            if \<not> can_open S d (dir @ ''.tmpconfig_tristate'') then Some (True, d, K, w)
            else
              (let d = put_text S (dir @ ''.tmpconfig_tristate'') [] d in
               if \<not> can_open S d (dir @ ''.tmpconfig.h'') then Some (True, d, K, w)
               else do {
                 title \<leftarrow> root_title K root;
                 ((out, tri, hdr), K) \<leftarrow> for_syms (auto_entry cfg) (hashed_symbols K)
                   ((conf_write_heading kconfig_print_comment title, conf_write_heading kconfig_print_comment title,
                     conf_write_heading header_print_comment title), K);
                 let d = put_text S (dir @ ''.tmpconfig.h'') hdr
                   (put_text S (dir @ ''.tmpconfig_tristate'') tri (put_text S (dir @ ''.tmpconfig'') out d));
                 (failed, d) \<leftarrow> install_auto S dir d;
                 Some (failed, d, K, w) }))) })"

section \<open>What is touched\<close>

text \<open>Does a symbol differ from what \<open>auto.conf\<close> says of it?\<close>

definition auto_changed :: "kstate \<Rightarrow> symref \<Rightarrow> bool" where
  "auto_changed K s \<longleftrightarrow> s_name (k_tab K s) \<noteq> None \<and> \<not> has_flag SYMBOL_AUTO s K \<and>
     (let ty = s_type (k_tab K s); tri = (ty = S_BOOLEAN \<or> ty = S_TRISTATE); old = has_flag SYMBOL_DEF_AUTO s K
      in if \<not> has_flag SYMBOL_WRITE s K then old
         else if \<not> old then \<not> (tri \<and> sym_get_tristate_value K s = tri_no)
         else if tri then sym_get_tristate_value K s \<noteq> def_tri S_DEF_AUTO s K
         else if ty = S_STRING \<or> ty = S_HEX \<or> ty = S_INT then sv_val (s_def_auto (k_tab K s)) \<noteq> CStr (sym_get_string_value K s)
         else True)"

text \<open>What the answer for a calculated symbol rests on stays.\<close>

lemma auto_changed_keeps:
  assumes "settles K K'" "has_flag SYMBOL_VALID s K" "\<not> sym_is_choice_value K s"
  shows "auto_changed K' s = auto_changed K s"
proof -
  note e = settles_edits [OF assms(1)]
  have v: "has_flag SYMBOL_WRITE s K' = has_flag SYMBOL_WRITE s K" "s_curr (k_tab K' s) = s_curr (k_tab K s)"
    using assms by (auto simp: settles_def)
  have f: "has_flag SYMBOL_AUTO s K' = has_flag SYMBOL_AUTO s K" "has_flag SYMBOL_DEF_AUTO s K' = has_flag SYMBOL_DEF_AUTO s K"
    using edits_flag [OF e] by (simp_all add: dynamic_flags_def)
  have "static (k_tab K' s) = static (k_tab K s)" using e by (simp add: edits_def)
  from arg_cong [OF this, of s_def_auto] have d: "s_def_auto (k_tab K' s) = s_def_auto (k_tab K s)" by (simp add: static_def)
  have t: "sym_get_tristate_value K' s = sym_get_tristate_value K s" by (simp add: sym_get_tristate_value_def v)
  have str: "sym_get_string_value K' s = sym_get_string_value K s"
    if "\<not> (s_type (k_tab K s) = S_BOOLEAN \<or> s_type (k_tab K s) = S_TRISTATE)"
    using that by (auto simp: sym_get_string_value_def edits_fields [OF e] v)
  show ?thesis
  proof (cases "s_type (k_tab K s) = S_BOOLEAN \<or> s_type (k_tab K s) = S_TRISTATE")
    case True
    then show ?thesis by (simp add: auto_changed_def Let_def f v t d edits_fields [OF e] def_tri_def)
  next
    case False
    from str [OF this] False show ?thesis by (simp add: auto_changed_def Let_def f v d edits_fields [OF e])
  qed
qed

lemma needs_touch_changed:
  assumes "needs_touch K s = Some (change, K')" "s_name (k_tab K s) \<noteq> None" "\<not> has_flag SYMBOL_AUTO s K"
  shows "K' = K" "change = auto_changed K s"
proof -
  have "K' = K \<and> change = auto_changed K s"
  proof (cases "s_type (k_tab K s) = S_BOOLEAN \<or> s_type (k_tab K s) = S_TRISTATE")
    case True
    then show ?thesis using assms by (auto simp: needs_touch_def auto_changed_def Let_def split: if_splits)
  next
    case False
    then show ?thesis using assms
      by (auto simp: needs_touch_def auto_changed_def Let_def get_string_value_def sym_get_string_value_def split: if_splits cval.splits)
  qed
  then show "K' = K" "change = auto_changed K s" by simp_all
qed

lemma mkdir_texts: "mkdir S p d = Some d' \<Longrightarrow> d_text d' = d_text d \<and> d_cwd d' = d_cwd d"
  by (auto simp: mkdir_def split: if_splits)

lemma make_dirs_texts: "make_dirs S seen p d = Some d' \<Longrightarrow> d_text d' = d_text d \<and> d_cwd d' = d_cwd d"
  by (induction S seen p d rule: make_dirs.induct) (auto dest: mkdir_texts split: if_splits option.splits)

lemma open_truncate_texts:
  "open_truncate S p d = Opened d' \<Longrightarrow> d_text d' = (d_text d)(resolve d p \<mapsto> []) \<and> d_cwd d' = d_cwd d"
  by (auto simp: open_truncate_def put_text_def split: if_splits)

lemma touch_texts:
  assumes "touch S p d = Some d'"
  shows "d_text d' = (d_text d)(resolve d p \<mapsto> []) \<and> d_cwd d' = d_cwd d"
proof (cases "open_truncate S p d")
  case (Opened d1)
  then show ?thesis using assms open_truncate_texts [OF Opened] by (simp add: touch_def)
next
  case Missing_dir
  then obtain d1 where 1: "make_dirs S [] p d = Some d1" "open_truncate S p d1 = Opened d'"
    using assms by (auto simp: touch_def split: option.splits opened_file.splits)
  then show ?thesis using make_dirs_texts [OF 1(1)] open_truncate_texts [OF 1(2)] by (simp add: resolve_def)
next
  case Not_allowed
  then show ?thesis using assms by (simp add: touch_def)
qed

definition header_of :: "kstate \<Rightarrow> symref \<Rightarrow> string" where
  "header_of K s = touch_path (case s_name (k_tab K s) of Some n \<Rightarrow> n | None \<Rightarrow> [])"

lemma split_loop_effect:
  "split_loop S ss log d K = Some (False, log', d', K') \<Longrightarrow> store_wf K \<Longrightarrow>
     settles K K' \<and> d_cwd d' = d_cwd d \<and>
     (\<exists>new. log' = log @ new \<and> set new \<subseteq> set ss \<and>
       (\<forall>s \<in> set ss. \<not> sym_is_choice K s \<and> \<not> sym_is_choice_value K s \<longrightarrow> (s \<in> set new \<longleftrightarrow> auto_changed K' s)) \<and>
       d_text d' = fold (\<lambda>s t. t(resolve d (header_of K s) \<mapsto> [])) new (d_text d))"
proof (induction ss arbitrary: log d K)
  case (Cons s ss)
  obtain u K1 where K1: "calc_sym s K = Some (u, K1)" "settles K K1"
    using returns_calc [OF Cons.prems(2), of s] by (auto simp: returns_def)
  have wf: "store_wf K1" by (rule returns_wf [OF Cons.prems(2) K1(2)])
  note f = edits_fields [OF settles_edits [OF K1(2)]]
  have V: "has_flag SYMBOL_VALID s K1" if "\<not> sym_is_choice K s" by (rule calc_valid [OF Cons.prems(2) K1(1) that])
  have hd: "header_of K1 = header_of K" by (simp add: header_of_def f fun_eq_iff)
  obtain touched d1 where touched: "split_loop S ss (log @ touched) d1 K1 = Some (False, log', d', K')"
    "touched = (if auto_changed K1 s then [s] else [])" "d_cwd d1 = d_cwd d"
    "d_text d1 = fold (\<lambda>s t. t(resolve d (header_of K s) \<mapsto> [])) touched (d_text d)"
  proof (cases "s_name (k_tab K1 s) = None \<or> has_flag SYMBOL_AUTO s K1")
    case True
    then show thesis using Cons.prems(1) K1(1) by (intro that [of "[]" d]) (auto simp: auto_changed_def split: option.splits)
  next
    case False
    then obtain name where name: "s_name (k_tab K1 s) = Some name" by auto
    obtain change K2 where 2: "needs_touch K1 s = Some (change, K2)"
      using Cons.prems(1) K1(1) False name by (auto simp: bind_eq_Some_conv)
    have 3: "K2 = K1" "change = auto_changed K1 s" using needs_touch_changed [OF 2] False by simp_all
    show thesis
    proof (cases change)
      case no: False
      then show thesis using Cons.prems(1) K1(1) False name 2 3 by (intro that [of "[]" d]) auto
    next
      case yes: True
      then obtain d1 where d1: "touch S (touch_path name) d = Some d1"
        using Cons.prems(1) K1(1) False name 2 by (auto split: if_splits option.splits)
      have "header_of K s = touch_path name" using name by (simp add: header_of_def f)
      then show thesis using Cons.prems(1) K1(1) False name 2 3 yes d1 touch_texts [OF d1]
        by (intro that [of "[s]" d1]) (auto split: if_splits)
    qed
  qed
  obtain new where ih: "settles K1 K'" "d_cwd d' = d_cwd d1" "log' = (log @ touched) @ new" "set new \<subseteq> set ss"
    "\<forall>t \<in> set ss. \<not> sym_is_choice K1 t \<and> \<not> sym_is_choice_value K1 t \<longrightarrow> (t \<in> set new \<longleftrightarrow> auto_changed K' t)"
    "d_text d' = fold (\<lambda>s t. t(resolve d1 (header_of K1 s) \<mapsto> [])) new (d_text d1)"
    using Cons.IH [OF touched(1) wf] by blast
  have re: "resolve d1 = resolve d" by (simp add: resolve_def touched(3) fun_eq_iff)
  have "s \<in> set (touched @ new) \<longleftrightarrow> auto_changed K' s" if "\<not> sym_is_choice K s" "\<not> sym_is_choice_value K s"
  proof -
    have "auto_changed K' s = auto_changed K1 s"
      by (rule auto_changed_keeps [OF ih(1) V [OF that(1)]]) (use that f in simp)
    moreover have "s \<in> set new \<Longrightarrow> auto_changed K' s" using ih(4,5) that f by blast
    ultimately show ?thesis using touched(2) by auto
  qed
  moreover have "t \<in> set (touched @ new) \<longleftrightarrow> t \<in> set new" if "t \<noteq> s" for t using touched(2) that by auto
  ultimately have "\<forall>t \<in> set (s # ss). \<not> sym_is_choice K t \<and> \<not> sym_is_choice_value K t \<longrightarrow>
      (t \<in> set (touched @ new) \<longleftrightarrow> auto_changed K' t)"
    using ih(5) f by (metis set_ConsD)
  moreover have "d_text d' = fold (\<lambda>s t. t(resolve d (header_of K s) \<mapsto> [])) (touched @ new) (d_text d)"
    unfolding ih(6) touched(4) hd re by (simp only: fold_append o_apply)
  moreover have "set (touched @ new) \<subseteq> set (s # ss)" using ih(4) touched(2) by auto
  ultimately show ?case
    using ih(2,3) touched(3) settles_trans [OF K1(2) ih(1)] append_assoc by metis
qed simp

lemma touched_texts: "fold (\<lambda>s t. t(h s \<mapsto> v)) ss t p = (if p \<in> h ` set ss then Some v else t p)"
  by (induction ss arbitrary: t) auto


definition touch_sample :: kstate where
  "touch_sample = save_sample\<lparr>k_tab := (\<lambda>t. if t = Sym 1 then (k_tab save_sample t)
     \<lparr>s_flags := {SYMBOL_VALID, SYMBOL_WRITE, SYMBOL_DEF_AUTO}, s_def_auto := \<lparr>sv_val = CStr ''a'', sv_tri = tri_no\<rparr>\<rparr>
     else k_tab save_sample t)\<rparr>"


section \<open>What is installed\<close>

lemma renamed:
  assumes "rename S a b d = Some d'"
  shows "d_cwd d' = d_cwd d" "resolve d' = resolve d" "resolve d a \<noteq> resolve d b \<Longrightarrow> get_text d' b = get_text d a"
    "resolve d p \<noteq> resolve d a \<Longrightarrow> resolve d p \<noteq> resolve d b \<Longrightarrow> get_text d' p = get_text d p"
  using assms by (auto simp: rename_def get_text_def resolve_def fun_eq_iff split: option.splits if_splits)


definition auto_os :: os where
  "auto_os = save_os\<lparr>os_env := (\<lambda>v. if v = ''KCONFIG_AUTOCONFIG'' then Some ''auto.conf'' else None),
     os_may_rename := (\<lambda>a b. b \<noteq> ''/work/auto.conf'')\<rparr>"

definition auto_disk :: disk where
  "auto_disk = \<lparr>d_text = [''/work/.tmpconfig.h'' \<mapsto> ''h'', ''/work/.tmpconfig_tristate'' \<mapsto> ''t'', ''/work/.tmpconfig'' \<mapsto> ''c'',
     ''/work/auto.conf'' \<mapsto> ''old''], d_dir = (\<lambda>p. p = ''/work''), d_cwd = ''/work''\<rparr>"


text \<open>
  The name that \<open>conf_write_autoconf\<close> gives to \<open>file_write_dep\<close> has the directory of the
  configuration already, and \<open>file_write_dep\<close> puts it in front once more: with a
  configuration in another directory, the dependency file is never written where it is
  looked for.
\<close>

theorem dep_file_misplaced:
  assumes "config_dir (conf_get_configname S) = dir" "dir \<noteq> []"
    and "file_write_dep S files envs K (Some (dir @ ''.config.cmd'')) d = Some (failed, d')"
  shows "get_text d' (dir @ ''.config.cmd'') = get_text d (dir @ ''.config.cmd'')"
proof -
  obtain c cs where dir: "dir = c # cs" using assms(2) by (cases dir) auto
  define pre where "pre = (if c = slash \<or> d_cwd d = [] then [] else d_cwd d @ [slash])"
  have pre: "resolve d (dir @ x) = pre @ dir @ x" for x
    by (simp add: pre_def resolve_def dir Conf_Read.begins_def)
  have ne: "resolve d (dir @ ''.config.cmd'') \<noteq> resolve d (dir @ ''..config.tmp'')"
    "resolve d (dir @ ''.config.cmd'') \<noteq> resolve d (dir @ dir @ ''.config.cmd'')"
    using assms(2) by (simp_all add: pre)
  show ?thesis
  proof (cases "can_open S d (dir @ ''..config.tmp'')")
    case False
    then show ?thesis using assms by (auto simp: file_write_dep_def Let_def split: if_splits)
  next
    case True
    then obtain out where "d' = (case rename S (dir @ ''..config.tmp'') (dir @ dir @ ''.config.cmd'') (put_text S (dir @ ''..config.tmp'') out d) of
        Some d \<Rightarrow> d | None \<Rightarrow> put_text S (dir @ ''..config.tmp'') out d)"
      using assms by (auto simp: file_write_dep_def Let_def bind_eq_Some_conv split: if_splits)
    moreover have "get_text (put_text S (dir @ ''..config.tmp'') out d) (dir @ ''.config.cmd'') = get_text d (dir @ ''.config.cmd'')"
      "resolve (put_text S (dir @ ''..config.tmp'') out d) = resolve d"
      using ne(1) by (simp_all add: get_text_def put_text_def resolve_def fun_eq_iff)
    ultimately show ?thesis using ne renamed(4) by (auto split: option.splits)
  qed
qed

end
