(* ===== verification/Conf_New.thy ===== *)
theory Conf_New
  imports Conf_Files
begin

text \<open>
  \<open>conf_set_all_new_symbols\<close> (confdata.c): values for the options without one, all y, m,
  n or random. The random numbers of \<open>rand\<close> are given by a function and the number of
  calls so far. \<open>None\<close> is a null pointer, or a remainder by zero.
\<close>

section \<open>Probabilities\<close>

datatype conf_def_mode = def_default | def_yes | def_mod | def_no | def_random

text \<open>
  \<open>KCONFIG_PROBABILITY\<close>: up to three numbers with colons between them. \<open>strtol\<close>
  returns a long, of which the code keeps an int. \<open>None\<close> is the exit with an error.
\<close>

definition int_of_long :: "int \<Rightarrow> int" where
  "int_of_long x = signed_take_bit 31 x"

fun percents :: "nat \<Rightarrow> string \<Rightarrow> int list option" where
  "percents 0 env = Some []"
| "percents (Suc n) env =
     (if env = [] then Some []
      else
        (let (val, rest, _) = strtoll env 10; tmp = int_of_long val
         in if 0 \<le> tmp \<and> tmp \<le> 100
            then map_option ((#) tmp) (percents n (if Conf_Read.begins CHR '':'' rest then tl rest else rest))
            else None))"

record probability =
  pby :: int
  pty :: int
  ptm :: int

definition probabilities :: "string option \<Rightarrow> probability option" where
  "probabilities env = do {
     p \<leftarrow> percents 3 (case env of Some e \<Rightarrow> e | None \<Rightarrow> []);
     let P = (case p of
         [a] \<Rightarrow> \<lparr>pby = a, pty = a - a div 2, ptm = a div 2\<rparr>
       | [a, b] \<Rightarrow> \<lparr>pby = a + b, pty = a, ptm = b\<rparr>
       | [a, b, c] \<Rightarrow> \<lparr>pby = a, pty = b, ptm = c\<rparr>
       | _ \<Rightarrow> \<lparr>pby = 50, pty = 33, ptm = 33\<rparr>);
     (if pty P + ptm P > 100 then None else Some P) }"

section \<open>New values\<close>

type_synonym random = "nat \<Rightarrow> nat"

definition set_user_tri :: "tristate \<Rightarrow> symref \<Rightarrow> kstate \<Rightarrow> kstate" where
  "set_user_tri t s K = upd_sym s (\<lambda>r. r\<lparr>s_def_user := (s_def_user r)\<lparr>sv_tri := t\<rparr>\<rparr>) K"

definition random_tri :: "probability \<Rightarrow> symbol_type \<Rightarrow> nat \<Rightarrow> tristate" where
  "random_tri P ty r =
     (let cnt = int (r mod 100) in
      if ty = S_TRISTATE then
        (if cnt < pty P then tri_yes else if cnt < pty P + ptm P then tri_mod else tri_no)
      else if cnt < pby P then tri_yes else tri_no)"

text \<open>A boolean or tristate symbol; the number of random numbers used is returned too.\<close>

definition new_tri :: "conf_def_mode \<Rightarrow> probability \<Rightarrow> random \<Rightarrow> nat \<Rightarrow> symref \<Rightarrow> kstate \<Rightarrow> (nat \<times> kstate)" where
  "new_tri mode P rand n s K =
     (let mark = (\<lambda>K. if sym_is_choice K s \<and> mode = def_random then K else set_flag SYMBOL_DEF_USER s K) in
      case mode of
        def_yes \<Rightarrow> (n, mark (set_user_tri tri_yes s K))
      | def_mod \<Rightarrow> (n, mark (set_user_tri tri_mod s K))
      | def_no \<Rightarrow> (n, mark (set_user_tri (if has_flag SYMBOL_ALLNOCONFIG_Y s K then tri_yes else tri_no) s K))
      | def_random \<Rightarrow> (Suc n, mark (set_user_tri (random_tri P (s_type (k_tab K s)) (rand n)) s K))
      | def_default \<Rightarrow> (n, K))"

text \<open>One step of the first loop, with whether something changed.\<close>

definition new_symbol_value :: "conf_def_mode \<Rightarrow> probability \<Rightarrow> random \<Rightarrow> symref \<Rightarrow> (bool \<times> nat) \<times> kstate \<Rightarrow> (bool \<times> nat) \<times> kstate" where
  "new_symbol_value mode P rand s C = (case C of ((changed, n), K) \<Rightarrow>
     if sym_has_value K s \<or> has_flag SYMBOL_VALID s K then C
     else if sym_get_type K s = S_BOOLEAN \<or> sym_get_type K s = S_TRISTATE then
       (case new_tri mode P rand n s K of (n, K) \<Rightarrow> ((True, n), K))
     else C)"

section \<open>Choices\<close>

text \<open>The values of a choice in turn: y for the one with the number that was drawn.\<close>

definition random_value :: "symref \<Rightarrow> nat \<Rightarrow> nat \<times> symref \<Rightarrow> kstate \<Rightarrow> kstate" where
  "random_value csym drawn iv K = (case iv of (i, v) \<Rightarrow>
     (let K = (if i = drawn
               then upd_sym csym (\<lambda>r. r\<lparr>s_def_user := (s_def_user r)\<lparr>sv_val := CSym v\<rparr>\<rparr>) (set_user_tri tri_yes v K)
               else set_user_tri tri_no v K)
      in clear_flag SYMBOL_VALID v (set_flag SYMBOL_DEF_USER v K)))"

definition randomize_choice_values :: "random \<Rightarrow> symref \<Rightarrow> nat \<times> kstate \<Rightarrow> (bool \<times> nat \<times> kstate) option" where
  "randomize_choice_values rand csym C = (case C of (n, K) \<Rightarrow>
     if sym_get_tristate_value K csym \<noteq> tri_yes then Some (False, n, K)
     else do {
       prop \<leftarrow> sym_get_choice_prop K csym;
       let vs = list_syms (p_expr prop);
       (if vs = [] then None
        else
          (let K = fold (random_value csym (rand n mod length vs)) (List.enumerate 0 vs) K
           in Some (True, Suc n, clear_flag SYMBOL_VALID csym (set_flag SYMBOL_DEF_USER csym K)))) })"

definition mark_choice :: "symref \<Rightarrow> kstate \<Rightarrow> kstate" where
  "mark_choice s K =
     (if (sym_is_choice K s \<and> \<not> sym_has_value K s) \<or> sym_is_choice_value K s
      then set_flag SYMBOL_NEED_SET_CHOICE_VALUES s K else K)"

text \<open>The last loop; in random mode the result is that of the last choice.\<close>

definition new_choice_value :: "conf_def_mode \<Rightarrow> random \<Rightarrow> symref \<Rightarrow> (bool \<times> nat) \<times> kstate \<Rightarrow> ((bool \<times> nat) \<times> kstate) option" where
  "new_choice_value mode rand s C = (case C of ((changed, n), K) \<Rightarrow>
     if sym_has_value K s \<or> \<not> sym_is_choice K s then Some C
     else do {
       (_, K) \<leftarrow> calc_sym s K;
       (if mode = def_random then do {
          (changed, n, K) \<leftarrow> randomize_choice_values rand s (n, K);
          Some ((changed, n), K) }
        else do {
          (_, K) \<leftarrow> set_all_choice_values s K;
          Some ((True, n), K) }) })"

datatype new_result = Exit_1 | New bool nat kstate

definition conf_set_all_new_symbols ::
  "os \<Rightarrow> conf_def_mode \<Rightarrow> random \<Rightarrow> nat \<Rightarrow> kstate \<Rightarrow> new_result option" where
  "conf_set_all_new_symbols S mode rand n K =
     (case (if mode = def_random then probabilities (os_env S ''KCONFIG_PROBABILITY'')
            else Some \<lparr>pby = 50, pty = 33, ptm = 33\<rparr>) of
        None \<Rightarrow> Some Exit_1
      | Some P \<Rightarrow>
          (let ((changed, n), K) = fold (new_symbol_value mode P rand) (hashed_symbols K) ((False, n), K) in do {
             (_, K) \<leftarrow> sym_clear_all_valid K;
             let K = (if mode \<noteq> def_random then fold mark_choice (hashed_symbols K) K else K);
             ((changed, n), K) \<leftarrow> for_syms (new_choice_value mode rand) (hashed_symbols K) ((changed, n), K);
             Some (New changed n K) }))"

text \<open>The loop of \<open>randconfig\<close>: again as long as something changed, with a bound.\<close>

fun random_loop :: "nat \<Rightarrow> os \<Rightarrow> random \<Rightarrow> nat \<Rightarrow> kstate \<Rightarrow> new_result option" where
  "random_loop 0 S rand n K = None"
| "random_loop (Suc i) S rand n K =
     (case conf_set_all_new_symbols S def_random rand n K of
        Some (New True n K) \<Rightarrow> random_loop i S rand n K
      | r \<Rightarrow> r)"

section \<open>What is drawn\<close>

lemma percents_range: "percents n env = Some ps \<Longrightarrow> \<forall>p \<in> set ps. 0 \<le> p \<and> p \<le> 100"
proof (induction n arbitrary: env ps)
  case (Suc n)
  show ?case
  proof (cases "env = []")
    case False
    obtain v rest q where s: "strtoll env 10 = (v, rest, q)" by (cases "strtoll env 10") auto
    obtain qs where "0 \<le> int_of_long v" "int_of_long v \<le> 100" "ps = int_of_long v # qs"
      "percents n (if Conf_Read.begins CHR '':'' rest then tl rest else rest) = Some qs"
      using Suc.prems False s by (auto simp: Let_def simp del: percents.simps(1) split: if_splits)
    then show ?thesis using Suc.IH by auto
  qed (use Suc.prems in simp)
qed simp

lemma probabilities_range:
  assumes "probabilities env = Some P"
  shows "0 \<le> pby P \<and> pby P \<le> 100 \<and> 0 \<le> pty P \<and> 0 \<le> ptm P \<and> pty P + ptm P \<le> 100"
proof -
  obtain ps where ps: "percents 3 (case env of Some e \<Rightarrow> e | None \<Rightarrow> []) = Some ps"
    using assms by (auto simp: probabilities_def bind_eq_Some_conv)
  from percents_range [OF ps] assms ps show ?thesis
    by (auto simp: probabilities_def Let_def split: list.splits if_splits)
qed

lemma card_below: "0 \<le> x \<Longrightarrow> x \<le> 100 \<Longrightarrow> card {r. r < (100 :: nat) \<and> int r < x} = nat x"
proof -
  assume "0 \<le> x" "x \<le> 100"
  then have "{r. r < (100 :: nat) \<and> int r < x} = {..<nat x}" by auto
  then show ?thesis by simp
qed

lemma card_between: "0 \<le> x \<Longrightarrow> 0 \<le> y \<Longrightarrow> x + y \<le> 100 \<Longrightarrow> card {r. r < (100 :: nat) \<and> x \<le> int r \<and> int r < x + y} = nat y"
proof -
  assume "0 \<le> x" "0 \<le> y" "x + y \<le> 100"
  then have "{r. r < (100 :: nat) \<and> x \<le> int r \<and> int r < x + y} = {nat x..<nat x + nat y}" by auto
  then show ?thesis by simp
qed



section \<open>The value of a choice\<close>

definition user_tri :: "kstate \<Rightarrow> symref \<Rightarrow> tristate" where
  "user_tri K s = sv_tri (s_def_user (k_tab K s))"

lemma random_value_fields:
  assumes "csym \<noteq> v"
  shows "user_tri (random_value csym drawn (i, v) K) u = (if u = v then (if i = drawn then tri_yes else tri_no) else user_tri K u)"
    "sv_val (s_def_user (k_tab (random_value csym drawn (i, v) K) csym)) =
       (if i = drawn then CSym v else sv_val (s_def_user (k_tab K csym)))"
    "has_flag SYMBOL_DEF_USER u (random_value csym drawn (i, v) K) \<longleftrightarrow> u = v \<or> has_flag SYMBOL_DEF_USER u K"
    "has_flag SYMBOL_VALID u (random_value csym drawn (i, v) K) \<longleftrightarrow> u \<noteq> v \<and> has_flag SYMBOL_VALID u K"
  using assms
  by (auto simp: random_value_def user_tri_def set_user_tri_def upd_sym_def set_flag_def clear_flag_def has_flag_def Let_def)

lemma random_values:
  "distinct vs \<Longrightarrow> csym \<notin> set vs \<Longrightarrow>
   let K' = fold (random_value csym drawn) (List.enumerate n vs) K in
     (\<forall>u. user_tri K' u = (if u \<in> set vs then (if n \<le> drawn \<and> drawn < n + length vs \<and> u = vs ! (drawn - n) then tri_yes else tri_no)
        else user_tri K u)) \<and>
     sv_val (s_def_user (k_tab K' csym)) = (if n \<le> drawn \<and> drawn < n + length vs then CSym (vs ! (drawn - n))
        else sv_val (s_def_user (k_tab K csym))) \<and>
     (\<forall>u. has_flag SYMBOL_DEF_USER u K' \<longleftrightarrow> u \<in> set vs \<or> has_flag SYMBOL_DEF_USER u K) \<and>
     (\<forall>u. has_flag SYMBOL_VALID u K' \<longleftrightarrow> u \<notin> set vs \<and> has_flag SYMBOL_VALID u K)"
proof (induction vs arbitrary: n K)
  case (Cons v vs)
  have ne: "csym \<noteq> v" using Cons.prems by auto
  have vs: "distinct vs" "csym \<notin> set vs" "v \<notin> set vs" using Cons.prems by auto
  note IH = Cons.IH [OF vs(1,2), of "Suc n" "random_value csym drawn (n, v) K", unfolded Let_def]
  have nth: "(v # vs) ! (drawn - n) = (if drawn = n then v else vs ! (drawn - Suc n))" if "n \<le> drawn"
    using that by (simp add: nth_Cons')
  have out: "vs ! (drawn - Suc n) \<noteq> v" if "Suc n \<le> drawn" "drawn < Suc n + length vs"
  proof -
    have "drawn - Suc n < length vs" using that by simp
    from nth_mem [OF this] vs(3) show ?thesis by auto
  qed
  let ?K = "fold (random_value csym drawn) (List.enumerate n (v # vs)) K"
  have tri: "user_tri ?K u = (if u \<in> set (v # vs) then (if n \<le> drawn \<and> drawn < n + length (v # vs) \<and>
      u = (v # vs) ! (drawn - n) then tri_yes else tri_no) else user_tri K u)" for u
  proof (cases "u = v")
    case True
    then show ?thesis using IH vs(3) nth out by (cases "drawn = n") (auto simp: random_value_fields [OF ne])
  next
    case False
    then show ?thesis using IH nth by (cases "drawn = n") (auto simp: random_value_fields [OF ne])
  qed
  have val: "sv_val (s_def_user (k_tab ?K csym)) = (if n \<le> drawn \<and> drawn < n + length (v # vs) then CSym ((v # vs) ! (drawn - n))
      else sv_val (s_def_user (k_tab K csym)))"
    using IH nth by (cases "drawn = n") (auto simp: random_value_fields [OF ne])
  show ?case using IH tri val by (simp add: Let_def random_value_fields [OF ne]) blast
qed (auto simp: Let_def)

text \<open>
  C35: \<open>randomize_choice_values\<close> on a choice that is y. It returns; of the values of the
  choice just one gets the user value y, and it is the one that the choice records; each
  of them and the choice itself count as set by the user and are calculated anew.
\<close>

theorem randomized_choice_has_one_value:
  assumes "sym_get_tristate_value K csym = tri_yes" "sym_get_choice_prop K csym = Some prop"
    and "vs = list_syms (p_expr prop)" "vs \<noteq> []" "distinct vs" "csym \<notin> set vs"
  shows "\<exists>v K'. randomize_choice_values rand csym (n, K) = Some (True, Suc n, K') \<and> v \<in> set vs \<and>
    (\<forall>u \<in> set vs. user_tri K' u = (if u = v then tri_yes else tri_no)) \<and>
    sv_val (s_def_user (k_tab K' csym)) = CSym v \<and>
    (\<forall>u \<in> insert csym (set vs). has_flag SYMBOL_DEF_USER u K' \<and> \<not> has_flag SYMBOL_VALID u K')"
proof -
  let ?d = "rand n mod length vs"
  let ?K = "fold (random_value csym ?d) (List.enumerate 0 vs) K"
  have d: "?d < length vs" using assms(4) by simp
  have fl: "s_def_user (k_tab (clear_flag SYMBOL_VALID csym (set_flag SYMBOL_DEF_USER csym K)) u) = s_def_user (k_tab K u)" for K u
    by (simp add: clear_flag_def set_flag_def upd_sym_def)
  show ?thesis
    using random_values [OF assms(5,6), of ?d 0 K] d assms
    by (intro exI [of _ "vs ! ?d"] exI [of _ "clear_flag SYMBOL_VALID csym (set_flag SYMBOL_DEF_USER csym ?K)"])
       (auto simp: randomize_choice_values_def Let_def fl user_tri_def)
qed

definition new_choice_store :: kstate where
  "new_choice_store = empty_table\<lparr>k_tab := (\<lambda>t.
     if t = Sym 0 then (new_symbol None {SYMBOL_CHOICE})\<lparr>s_type := S_BOOLEAN, s_curr := \<lparr>sv_val = CNull, sv_tri = tri_yes\<rparr>,
       s_prop := [\<lparr>p_type = P_CHOICE, p_text = None, p_vis_expr = None, p_vis_tri = tri_no,
         p_expr = Some (Elist (Some (Elist None (Sym 1))) (Sym 2)), p_menu = None\<rparr>]\<rparr>
     else new_symbol (Some ''V'') {SYMBOL_CHOICEVAL}), k_nsyms := 3\<rparr>"

theorem randomized_choice_has_one_value_witness:
  "\<exists>v K'. randomize_choice_values (\<lambda>_. 7) (Sym 0) (0, new_choice_store) = Some (True, 1, K') \<and> v \<in> {Sym 1, Sym 2} \<and>
    (\<forall>u \<in> {Sym 1, Sym 2}. user_tri K' u = (if u = v then tri_yes else tri_no))"
proof -
  let ?p = "hd (s_prop (k_tab new_choice_store (Sym 0)))"
  have vs: "set (list_syms (p_expr ?p)) = {Sym 1, Sym 2}" "distinct (list_syms (p_expr ?p))" "list_syms (p_expr ?p) \<noteq> []"
    by (simp_all add: new_choice_store_def insert_commute)
  have "sym_get_tristate_value new_choice_store (Sym 0) = tri_yes" "sym_get_choice_prop new_choice_store (Sym 0) = Some ?p"
    by (simp_all add: new_choice_store_def sym_get_tristate_value_def sym_get_choice_prop_def)
  moreover have "Sym 0 \<notin> set (list_syms (p_expr ?p))" unfolding vs(1) by simp
  ultimately show ?thesis
    using randomized_choice_has_one_value [OF _ _ refl vs(3,2), of new_choice_store "Sym 0" "\<lambda>_. 7" 0]
    unfolding vs(1) One_nat_def by blast
qed

end
