(* ===== verification/Conf_Ask.thy ===== *)
theory Conf_Ask
  imports Conf_Auto Conf_New
begin

text \<open>
  The line oriented configurator (conf.c). Its variables are a record: the symbols, what
  is left of the input, the line read last, the text printed, and the global variables.
  The input holds no null characters. Translations are the identity. Every loop has a
  bound; \<open>None\<close> is a bound that is too small, or a null pointer.
\<close>

section \<open>The state\<close>

datatype input_mode =
    oldaskconfig | syncconfig | oldconfig | allnoconfig | allyesconfig | allmodconfig | alldefconfig
  | randconfig | defconfig | savedefconfig | listnewconfig | olddefconfig

record ask =
  a_K :: kstate
  a_in :: string
  a_line :: string
  a_out :: string
  a_indent :: nat
  a_mode :: input_mode
  a_root :: "nat option"
  a_cnt :: nat

text \<open>What stays: the prefix of the options, the menus, where they are from, and \<open>tty_stdio\<close>.\<close>

record ask_env =
  e_cfg :: string
  e_tree :: menu
  e_place :: "nat \<Rightarrow> string \<times> nat"
  e_tty :: bool

definition say :: "string \<Rightarrow> ask \<Rightarrow> ask" where
  "say t A = A\<lparr>a_out := a_out A @ t\<rparr>"

definition on_K :: "(kstate \<Rightarrow> ('a \<times> kstate) option) \<Rightarrow> ask \<Rightarrow> ('a \<times> ask) option" where
  "on_K f A = do { (x, K) \<leftarrow> f (a_K A); Some (x, A\<lparr>a_K := K\<rparr>) }"

text \<open>\<open>%*s\<close> with an empty text, and \<open>%*c\<close>.\<close>

definition pad :: "ask \<Rightarrow> string" where "pad A = replicate (a_indent A - 1) CHR '' ''"

definition padded :: "ask \<Rightarrow> char \<Rightarrow> string" where "padded A c = pad A @ [c]"

section \<open>Reading lines\<close>

text \<open>\<open>fgets\<close>: up to the end of a line, and no more than the buffer holds; \<open>None\<close> at the end.\<close>

fun line_of :: "nat \<Rightarrow> string \<Rightarrow> string \<times> string" where
  "line_of 0 cs = ([], cs)"
| "line_of (Suc n) [] = ([], [])"
| "line_of (Suc n) (c # cs) =
     (if c = CHR 0x0a then ([c], cs) else (case line_of n cs of (l, rest) \<Rightarrow> (c # l, rest)))"

definition fgets :: "nat \<Rightarrow> string \<Rightarrow> (string \<times> string) option" where
  "fgets n inp = (if inp = [] then None else Some (line_of (n - 1) inp))"

definition xfgets :: "ask_env \<Rightarrow> ask \<Rightarrow> ask" where
  "xfgets E A =
     (let A = (case fgets PATH_MAX (a_in A) of None \<Rightarrow> A | Some (l, rest) \<Rightarrow> A\<lparr>a_line := l, a_in := rest\<rparr>)
      in if e_tty E then A else say (a_line A) A)"

definition strip :: "string \<Rightarrow> string" where
  "strip str = rev (dropWhile c_isspace (rev (dropWhile c_isspace str)))"

definition print_help :: "ask_env \<Rightarrow> menu \<Rightarrow> ask \<Rightarrow> ask option" where
  "print_help E m A = do {
     (gs, A) \<leftarrow> on_K (menu_get_ext_help (e_cfg E) (e_tree E) (e_place E) (m_node m) str_new) A;
     Some (say (newline @ gs_s gs @ newline) A) }"

section \<open>One question\<close>

text \<open>Is there an answer in the line? Where nothing is asked, the line is empty.\<close>

definition conf_askvalue :: "ask_env \<Rightarrow> symref \<Rightarrow> string \<Rightarrow> ask \<Rightarrow> bool \<times> ask" where
  "conf_askvalue E s def A =
     (let new = \<not> sym_has_value (a_K A) s;
          A = (if new then say ''(NEW) '' A else A)\<lparr>a_line := newline\<rparr>
      in if \<not> sym_is_changable (a_K A) s then (False, say (def @ newline) A)
         else if a_mode A \<in> {oldconfig, syncconfig} \<and> \<not> new then (False, say (def @ newline) A)
         else if a_mode A \<in> {oldconfig, syncconfig, oldaskconfig} then (True, xfgets E A)
         else if sym_get_type (a_K A) s \<in> {S_INT, S_HEX, S_STRING} then (True, say (def @ newline) A)
         else (True, say (a_line A) A))"

text \<open>A loop: every round tells whether it was the last.\<close>

fun rounds :: "nat \<Rightarrow> ('s \<Rightarrow> (bool \<times> 's) option) \<Rightarrow> 's \<Rightarrow> 's option" where
  "rounds 0 f x = None"
| "rounds (Suc n) f x = do { (fin, x) \<leftarrow> f x; (if fin then Some x else rounds n f x) }"

definition prompt_of :: "menu \<Rightarrow> ask \<Rightarrow> string option" where
  "prompt_of m A = map_option (\<lambda>p. printable (p_text p)) (prompt_prop (k_tab (a_K A)) (m_node m))"

definition string_round :: "ask_env \<Rightarrow> menu \<Rightarrow> ask \<Rightarrow> (bool \<times> ask) option" where
  "string_round E m A = do {
     s \<leftarrow> n_sym (m_node m);
     prompt \<leftarrow> prompt_of m A;
     let A = say (pad A @ prompt @ '' '') A;
     let A = say (''('' @ printable (s_name (k_tab (a_K A) s)) @ '') '') A;
     (def, A) \<leftarrow> on_K (get_string_value calc_sym s) A;
     (_, A) \<leftarrow> on_K (get_string_value calc_sym s) A;
     let (asked, A) = conf_askvalue E s def (say (''['' @ def @ ''] '') A);
     (if \<not> asked then Some (True, A)
      else (case a_line A of
          [] \<Rightarrow> None
        | c # rest \<Rightarrow>
            if c = CHR 0x0a then on_K (sym_set_string_value s def) A
            else if c = CHR ''?'' \<and> Conf_Read.begins CHR 0x0a rest then do { A \<leftarrow> print_help E m A; Some (False, A) }
            else (let A = A\<lparr>a_line := butlast (a_line A)\<rparr> in on_K (sym_set_string_value s (a_line A)) A))) }"

definition conf_string :: "nat \<Rightarrow> ask_env \<Rightarrow> menu \<Rightarrow> ask \<Rightarrow> ask option" where
  "conf_string n E m A = rounds n (string_round E m) A"

text \<open>What a stripped line says.\<close>

datatype answer = Answer tristate | Help | Again

definition answer_of :: "tristate \<Rightarrow> string \<Rightarrow> answer" where
  "answer_of oldval l =
     (case l of
        [] \<Rightarrow> Answer oldval
      | c # rest \<Rightarrow>
          if c = CHR ''n'' \<or> c = CHR ''N'' then (if rest = [] \<or> rest = ''o'' then Answer tri_no else Again)
          else if c = CHR ''m'' \<or> c = CHR ''M'' then (if rest = [] then Answer tri_mod else Again)
          else if c = CHR ''y'' \<or> c = CHR ''Y'' then (if rest = [] \<or> rest = ''es'' then Answer tri_yes else Again)
          else if c = CHR ''?'' then Help else Again)"

definition choices_text :: "kstate \<Rightarrow> symref \<Rightarrow> string" where
  "choices_text K s =
     (let oldval = sym_get_tristate_value K s in
      (case oldval of tri_no \<Rightarrow> ''N'' | tri_mod \<Rightarrow> ''M'' | tri_yes \<Rightarrow> ''Y'') @
      (if oldval \<noteq> tri_no \<and> sym_tristate_within_range K s tri_no then ''/n'' else []) @
      (if oldval \<noteq> tri_mod \<and> sym_tristate_within_range K s tri_mod then ''/m'' else []) @
      (if oldval \<noteq> tri_yes \<and> sym_tristate_within_range K s tri_yes then ''/y'' else []) @ ''/?] '')"

text \<open>What is printed before the answer is read, and what is done with the answer.\<close>

definition sym_prompt :: "menu \<Rightarrow> symref \<Rightarrow> ask \<Rightarrow> ask option" where
  "sym_prompt m s A = do {
     prompt \<leftarrow> prompt_of m A;
     let name = (case s_name (k_tab (a_K A) s) of Some nm \<Rightarrow> ''('' @ nm @ '') '' | None \<Rightarrow> []);
     Some (say (pad A @ prompt @ '' '' @ name @ ''['' @ choices_text (a_K A) s) A) }"

definition sym_take :: "ask_env \<Rightarrow> menu \<Rightarrow> symref \<Rightarrow> tristate \<Rightarrow> ask \<Rightarrow> (bool \<times> ask) option" where
  "sym_take E m s oldval A =
     (case answer_of oldval (a_line A) of
        Again \<Rightarrow> Some (False, A)
      | Help \<Rightarrow> do { A \<leftarrow> print_help E m A; Some (False, A) }
      | Answer newval \<Rightarrow> do {
          (ok, A) \<leftarrow> on_K (sym_set_tristate_value s newval) A;
          (if ok then Some (True, A) else do { A \<leftarrow> print_help E m A; Some (False, A) }) })"

definition sym_round :: "ask_env \<Rightarrow> menu \<Rightarrow> ask \<Rightarrow> (bool \<times> ask) option" where
  "sym_round E m A = do {
     s \<leftarrow> n_sym (m_node m);
     A1 \<leftarrow> sym_prompt m s A;
     (def, A2) \<leftarrow> on_K (get_string_value calc_sym s) A1;
     (case conf_askvalue E s def A2 of (asked, A3) \<Rightarrow>
        if \<not> asked then Some (True, A3)
        else sym_take E m s (sym_get_tristate_value (a_K A) s) (A3\<lparr>a_line := strip (a_line A3)\<rparr>)) }"

definition conf_sym :: "nat \<Rightarrow> ask_env \<Rightarrow> menu \<Rightarrow> ask \<Rightarrow> ask option" where
  "conf_sym n E m A = rounds n (sym_round E m) A"

section \<open>A choice\<close>

definition atoi_int :: "string \<Rightarrow> int" where
  "atoi_int l = int_of_long (fst (strtoll l 10))"

text \<open>The list of the values: their number, and the number of the chosen one.\<close>

fun list_values :: "symref option \<Rightarrow> menu list \<Rightarrow> int \<Rightarrow> int \<Rightarrow> ask \<Rightarrow> (int \<times> int \<times> ask) option" where
  "list_values def_sym [] cnt def A = Some (cnt, def, A)"
| "list_values def_sym (c # cs) cnt def A = do {
     (v, A) \<leftarrow> on_K (menu_is_visible c) A;
     (if \<not> v then list_values def_sym cs cnt def A
      else
        (let prompt = printable (menu_get_prompt (k_tab (a_K A)) (m_node c)) in
         case n_sym (m_node c) of
           None \<Rightarrow> list_values def_sym cs cnt def (say (padded A CHR ''*'' @ '' '' @ prompt @ newline) A)
         | Some s \<Rightarrow>
             (let cnt = cnt + 1; here = (def_sym = Some s);
                  A = say (padded A (if here then CHR ''>'' else CHR '' '') @ '' '' @ show_int cnt @ ''. '' @ prompt @
                    (case s_name (k_tab (a_K A) s) of Some nm \<Rightarrow> '' ('' @ nm @ '')'' | None \<Rightarrow> []) @
                    (if sym_has_value (a_K A) s then [] else '' (NEW)'') @ newline) A
              in list_values def_sym cs cnt (if here then cnt else def) A))) }"

text \<open>The visible value with the number that is left, counting down.\<close>

fun nth_value :: "menu list \<Rightarrow> int \<Rightarrow> ask \<Rightarrow> (menu option \<times> ask) option" where
  "nth_value [] cnt A = Some (None, A)"
| "nth_value (c # cs) cnt A =
     (if n_sym (m_node c) = None then nth_value cs cnt A
      else do {
        (v, A) \<leftarrow> on_K (menu_is_visible c) A;
        (if \<not> v then nth_value cs cnt A
         else if cnt - 1 = 0 then Some (Some c, A)
         else nth_value cs (cnt - 1) A) })"

text \<open>What was answered: a number, or to ask again, with or without help.\<close>

datatype choice_answer = Number int | Choice_help | Choice_again

definition choice_answer :: "ask_env \<Rightarrow> bool \<Rightarrow> int \<Rightarrow> int \<Rightarrow> ask \<Rightarrow> choice_answer \<times> ask" where
  "choice_answer E is_new cnt def A =
     (let A = say (pad A @ ''choice'') A in
      if cnt = 1 then (Number 1, say (''[1]: 1'' @ newline) A)
      else
        (let A = say (''[1-'' @ show_int cnt @ ''?]: '') A in
         if a_mode A \<in> {oldconfig, syncconfig} \<and> \<not> is_new then (Number def, say (show_int def @ newline) A)
         else if a_mode A \<in> {oldconfig, syncconfig, oldaskconfig} then
           (let A = xfgets E A; l = strip (a_line A); A = A\<lparr>a_line := l\<rparr>
            in (case l of
                  [] \<Rightarrow> Number def
                | c # _ \<Rightarrow> if c = CHR ''?'' then Choice_help else if c_isdigit c then Number (atoi_int l) else Choice_again, A))
         else (Number cnt, A)))"

definition choice_round :: "ask_env \<Rightarrow> bool \<Rightarrow> menu \<Rightarrow> menu option \<times> ask \<Rightarrow> (bool \<times> menu option \<times> ask) option" where
  "choice_round E is_new m C = (case C of (_, A) \<Rightarrow> do {
     s \<leftarrow> n_sym (m_node m);
     let A = say (pad A @ printable (menu_get_prompt (k_tab (a_K A)) (m_node m)) @ newline) A;
     let def_sym = (case sv_val (s_curr (k_tab (a_K A) s)) of CSym v \<Rightarrow> Some v | _ \<Rightarrow> None);
     (cnt, def, A) \<leftarrow> list_values def_sym (m_list m) 0 0 (A\<lparr>a_line := []\<rparr>);
     let (answer, A) = choice_answer E is_new cnt def A;
     (case answer of
        Choice_help \<Rightarrow> do { A \<leftarrow> print_help E m A; Some (False, None, A) }
      | Choice_again \<Rightarrow> Some (False, None, A)
      | Number i \<Rightarrow> do {
          (child, A) \<leftarrow> nth_value (m_list m) i A;
          (case child of
             None \<Rightarrow> Some (False, None, A)
           | Some c \<Rightarrow>
               if a_line A \<noteq> [] \<and> last (a_line A) = CHR ''?'' then do { A \<leftarrow> print_help E c A; Some (False, None, A) }
               else do {
                 v \<leftarrow> n_sym (m_node c);
                 (_, A) \<leftarrow> on_K (sym_set_tristate_value v tri_yes) A;
                 Some (True, Some c, A) }) }) })"

text \<open>Is a value to be chosen? Only if the choice is y.\<close>

definition choice_asked :: "nat \<Rightarrow> ask_env \<Rightarrow> menu \<Rightarrow> symref \<Rightarrow> ask \<Rightarrow> (bool \<times> ask) option" where
  "choice_asked n E m s A =
     (if sym_is_changable (a_K A) s then do {
        A \<leftarrow> conf_sym n E m A;
        (_, A) \<leftarrow> on_K (calc_sym s) A;
        Some (sym_get_tristate_value (a_K A) s = tri_yes, A) }
      else
        (let t = sym_get_tristate_value (a_K A) s in
         Some (t = tri_yes, if t = tri_mod
           then say (pad A @ printable (menu_get_prompt (k_tab (a_K A)) (m_node m)) @ newline) A else A)))"

text \<open>\<open>confs\<close> is \<open>conf\<close>, for the entries below the value that was chosen.\<close>

definition conf_choice :: "(menu \<Rightarrow> ask \<Rightarrow> ask option) \<Rightarrow> nat \<Rightarrow> ask_env \<Rightarrow> menu \<Rightarrow> ask \<Rightarrow> ask option" where
  "conf_choice confs n E m A = do {
     s \<leftarrow> n_sym (m_node m);
     let is_new = \<not> sym_has_value (a_K A) s;
     (asked, A) \<leftarrow> choice_asked n E m s A;
     (if \<not> asked then Some A
      else do {
        (child, A) \<leftarrow> rounds n (choice_round E is_new m) (None, A);
        c \<leftarrow> child;
        each_menu (\<lambda>m A. do { A \<leftarrow> confs m (A\<lparr>a_indent := a_indent A + 2\<rparr>); Some (A\<lparr>a_indent := a_indent A - 2\<rparr>) })
          (m_list c) A }) }"

section \<open>All of the menus\<close>

definition heading :: "menu \<Rightarrow> ask \<Rightarrow> ask" where
  "heading m A =
     (case prompt_prop (k_tab (a_K A)) (m_node m) of
        None \<Rightarrow> A
      | Some p \<Rightarrow>
          if p_type p = P_MENU \<or> p_type p = P_COMMENT then
            (case menu_get_prompt (k_tab (a_K A)) (m_node m) of
               None \<Rightarrow> A
             | Some t \<Rightarrow> (let star = padded A CHR ''*'' in
                 say (star @ newline @ star @ '' '' @ t @ newline @ star @ newline) A))
          else A)"

text \<open>The symbol of an entry and the entries below.\<close>

definition conf_entry :: "(menu \<Rightarrow> ask \<Rightarrow> ask option) \<Rightarrow> nat \<Rightarrow> ask_env \<Rightarrow> menu \<Rightarrow> ask \<Rightarrow> ask option" where
  "conf_entry confs n E m A =
     (case n_sym (m_node m) of
        None \<Rightarrow> each_menu confs (m_list m) A
      | Some s \<Rightarrow>
          (let inner = (\<lambda>A. do {
             A \<leftarrow> each_menu confs (m_list m) (A\<lparr>a_indent := a_indent A + 2\<rparr>);
             Some (A\<lparr>a_indent := a_indent A - 2\<rparr>) })
           in if sym_is_choice (a_K A) s then do {
                A \<leftarrow> conf_choice confs n E m A;
                (if sv_tri (s_curr (k_tab (a_K A) s)) \<noteq> tri_mod then Some A else inner A) }
              else do {
                A \<leftarrow> (if s_type (k_tab (a_K A) s) \<in> {S_INT, S_HEX, S_STRING} then conf_string else conf_sym) n E m A;
                inner A }))"

text \<open>A line of \<open>listnewconfig\<close>.\<close>

definition list_new :: "ask_env \<Rightarrow> symref \<Rightarrow> ask \<Rightarrow> ask option" where
  "list_new E s A =
     (case s_name (k_tab (a_K A) s) of
        None \<Rightarrow> Some A
      | Some nm \<Rightarrow> do {
          (v, A) \<leftarrow> on_K (get_string_value calc_sym s) A;
          v \<leftarrow> (if s_type (k_tab (a_K A) s) = S_STRING then sym_escape_string_value v else Some v);
          Some (say (e_cfg E @ nm @ ''='' @ v @ newline) A) })"

definition is_new_question :: "kstate \<Rightarrow> symref \<Rightarrow> bool" where
  "is_new_question K s \<longleftrightarrow> \<not> sym_has_value K s \<and>
     (sym_is_changable K s \<or> sym_is_choice K s \<and> sym_get_tristate_value K s = tri_yes)"

text \<open>\<open>conf\<close> and \<open>check_conf\<close>, which call each other.\<close>

fun conf_menu :: "nat \<Rightarrow> ask_env \<Rightarrow> menu \<Rightarrow> ask \<Rightarrow> ask option"
  and check_conf :: "nat \<Rightarrow> ask_env \<Rightarrow> menu \<Rightarrow> ask \<Rightarrow> ask option" where
  "conf_menu 0 E m A = None"
| "conf_menu (Suc n) E m A = do {
     (v, A) \<leftarrow> on_K (menu_is_visible m) A;
     (if \<not> v then Some A
      else if (\<exists>p \<in> set_option (prompt_prop (k_tab (a_K A)) (m_node m)). p_type p = P_MENU) \<and>
        a_mode A \<noteq> oldaskconfig \<and> a_root A \<noteq> Some (n_id (m_node m)) then check_conf n E m A
      else conf_entry (conf_menu n E) n E m (heading m A)) }"
| "check_conf 0 E m A = None"
| "check_conf (Suc n) E m A = do {
     (v, A) \<leftarrow> on_K (menu_is_visible m) A;
     (if \<not> v then Some A
      else do {
        A \<leftarrow> (case n_sym (m_node m) of
            None \<Rightarrow> Some A
          | Some s \<Rightarrow>
              if \<not> is_new_question (a_K A) s then Some A
              else if a_mode A = listnewconfig then list_new E s A
              else do {
                let A = (if a_cnt A = 0 then say (''*'' @ newline @ ''* Restart config...'' @ newline @ ''*'' @ newline) A else A);
                path \<leftarrow> path_to (n_id (m_node m)) (e_tree E);
                r \<leftarrow> menu_get_parent_menu (k_tab (a_K A)) path;
                conf_menu n E r (A\<lparr>a_cnt := Suc (a_cnt A), a_root := Some (n_id (m_node r))\<rparr>) });
        each_menu (check_conf n E) (m_list m) A }) }"

section \<open>The program\<close>

text \<open>
  What \<open>getopt_long\<close> gives, one value for every option; \<open>--oldnoconfig\<close> is
  \<open>olddefconfig\<close>.
\<close>

datatype conf_opt = Opt_s | Opt_mode input_mode "string option" | Opt_unknown

record conf_opts =
  o_mode :: input_mode
  o_sync :: bool
  o_file :: "string option"
  o_seed :: "int option"

text \<open>The seed of \<open>randconfig\<close>, an unsigned number of 32 bits.\<close>

definition random_seed :: "os \<Rightarrow> int \<Rightarrow> int" where
  "random_seed S now =
     (case os_env S ''KCONFIG_SEED'' of
        None \<Rightarrow> now
      | Some e \<Rightarrow>
          if e = [] then now
          else (case strtoll e 0 of (v, rest, _) \<Rightarrow> if rest = [] then v mod 2 ^ 32 else now))"

text \<open>\<open>None\<close> is the exit for an option that is not known.\<close>

fun parse_opts :: "os \<Rightarrow> int \<Rightarrow> conf_opt list \<Rightarrow> conf_opts \<Rightarrow> conf_opts option" where
  "parse_opts S now [] P = Some P"
| "parse_opts S now (Opt_s # os) P = parse_opts S now os P"
| "parse_opts S now (Opt_unknown # os) P = None"
| "parse_opts S now (Opt_mode mode arg # os) P =
     parse_opts S now os (P\<lparr>o_mode := mode, o_sync := o_sync P \<or> mode = syncconfig,
       o_file := (if mode = defconfig \<or> mode = savedefconfig then arg else o_file P),
       o_seed := (if mode = randconfig then Some (random_seed S now) else o_seed P)\<rparr>)"

text \<open>Reading: \<open>True\<close> is the exit with an error.\<close>

fun allconfig_name :: "input_mode \<Rightarrow> string" where
  "allconfig_name allnoconfig = ''allno.config''"
| "allconfig_name allyesconfig = ''allyes.config''"
| "allconfig_name allmodconfig = ''allmod.config''"
| "allconfig_name alldefconfig = ''alldef.config''"
| "allconfig_name randconfig = ''allrandom.config''"
| "allconfig_name _ = ''1''"

definition read_allconfig :: "os \<Rightarrow> string \<Rightarrow> disk \<Rightarrow> input_mode \<Rightarrow> conf \<Rightarrow> (bool \<times> conf) option" where
  "read_allconfig S cfg d mode C =
     (let read = (\<lambda>name. conf_read_simple cfg (zconf_fopen S d) (conf_get_configname S) None (Some name) S_DEF_USER) in
      case os_env S ''KCONFIG_ALLCONFIG'' of
        None \<Rightarrow> Some (False, C)
      | Some name \<Rightarrow>
          if name \<noteq> [] \<and> name \<noteq> ''1'' then read name C
          else do {
            (failed, C) \<leftarrow> read (allconfig_name mode) C;
            (if failed then read ''all.config'' C else Some (False, C)) })"

definition read_phase :: "os \<Rightarrow> string \<Rightarrow> disk \<Rightarrow> symref option \<Rightarrow> conf_opts \<Rightarrow> conf \<Rightarrow> (bool \<times> conf) option" where
  "read_phase S cfg d defconfig_list P C =
     (let read = (\<lambda>name. conf_read cfg (zconf_fopen S d) (conf_get_configname S) defconfig_list name) in
      if o_mode P = defconfig then
        (case o_file P of
           Some f \<Rightarrow> read (Some f) C
         | None \<Rightarrow> do { (f, K) \<leftarrow> conf_get_default_confname S d (fst C); read (Some f) (K, snd C) })
      else if o_mode P \<in> {savedefconfig, syncconfig, oldaskconfig, oldconfig, listnewconfig, olddefconfig} then do {
        (_, C) \<leftarrow> read None C;
        Some (False, C) }
      else read_allconfig S cfg d (o_mode P) C)"

text \<open>New values, and the questions until a round has none.\<close>

definition all_new :: "os \<Rightarrow> conf_def_mode \<Rightarrow> random \<Rightarrow> ask \<Rightarrow> (bool \<times> ask) option" where
  "all_new S mode rand A = do {
     r \<leftarrow> conf_set_all_new_symbols S mode rand 0 (a_K A);
     Some (case r of Exit_1 \<Rightarrow> (True, A) | New changed n K \<Rightarrow> (False, A\<lparr>a_K := K\<rparr>)) }"

definition check_round :: "nat \<Rightarrow> ask_env \<Rightarrow> ask \<Rightarrow> (bool \<times> ask) option" where
  "check_round n E A = do { A \<leftarrow> check_conf n E (e_tree E) (A\<lparr>a_cnt := 0\<rparr>); Some (a_cnt A = 0, A) }"

definition ask_phase :: "nat \<Rightarrow> os \<Rightarrow> random \<Rightarrow> ask_env \<Rightarrow> ask \<Rightarrow> (bool \<times> ask) option" where
  "ask_phase n S rand E A =
     (case a_mode A of
        allnoconfig \<Rightarrow> all_new S def_no rand A
      | allyesconfig \<Rightarrow> all_new S def_yes rand A
      | allmodconfig \<Rightarrow> all_new S def_mod rand A
      | alldefconfig \<Rightarrow> all_new S def_default rand A
      | defconfig \<Rightarrow> all_new S def_default rand A
      | randconfig \<Rightarrow> do {
          r \<leftarrow> random_loop n S rand 0 (a_K A);
          Some (case r of Exit_1 \<Rightarrow> (True, A) | New changed i K \<Rightarrow> (False, A\<lparr>a_K := K\<rparr>)) }
      | oldaskconfig \<Rightarrow> do {
          A \<leftarrow> conf_menu n E (e_tree E) (A\<lparr>a_root := Some (n_id (m_node (e_tree E)))\<rparr>);
          A \<leftarrow> rounds n (check_round n E) (A\<lparr>a_mode := oldconfig\<rparr>);
          Some (False, A) }
      | savedefconfig \<Rightarrow> Some (False, A)
      | olddefconfig \<Rightarrow> Some (False, A)
      | _ \<Rightarrow> do { A \<leftarrow> rounds n (check_round n E) A; Some (False, A) })"

text \<open>Writing: the exit status, and what is on the disk.\<close>

definition write_phase ::
  "os \<Rightarrow> string \<Rightarrow> menu \<Rightarrow> string list \<Rightarrow> symref list \<Rightarrow> conf_opts \<Rightarrow> input_mode \<Rightarrow> disk \<Rightarrow> conf \<Rightarrow> (nat \<times> disk \<times> kstate) option" where
  "write_phase S cfg root files envs P mode d C =
     (if o_sync P then do {
        (failed, d, K) \<leftarrow> (if conf_get_changed (fst C) then conf_write S cfg root None d (fst C) else Some (False, d, fst C));
        (if failed then Some (1, d, K)
         else do {
           (failed, d, K, _) \<leftarrow> conf_write_autoconf S cfg root files envs d (K, snd C);
           Some (if failed then 1 else 0, d, K) }) }
      else if mode = savedefconfig then do {
        f \<leftarrow> o_file P;
        (failed, d, K) \<leftarrow> conf_write_defconfig S cfg root f d (fst C);
        Some (if failed then 1 else 0, d, K) }
      else if mode \<noteq> listnewconfig then do {
        (failed, d, K) \<leftarrow> conf_write S cfg root None d (fst C);
        Some (if failed then 1 else 0, d, K) }
      else Some (0, d, fst C))"

text \<open>
  \<open>main\<close>. The menus and symbols are what \<open>conf_parse\<close> makes of the file that the
  arguments name; \<open>inp\<close> is the standard input, \<open>srand\<close> the generator that a seed
  selects. The result is the exit status, the output and the disk.
\<close>

definition missing_config :: "os \<Rightarrow> disk \<Rightarrow> bool" where
  "missing_config S d \<longleftrightarrow> get_text d (conf_get_configname S) = None \<and> \<not> d_dir d (resolve d (conf_get_configname S))"

definition refuses_update :: "os \<Rightarrow> kstate \<Rightarrow> bool" where
  "refuses_update S K \<longleftrightarrow> conf_get_changed K \<and>
     (case os_env S ''KCONFIG_NOSILENTUPDATE'' of None \<Rightarrow> False | Some e \<Rightarrow> e \<noteq> [])"

definition conf_main ::
  "nat \<Rightarrow> os \<Rightarrow> int \<Rightarrow> (int \<Rightarrow> random) \<Rightarrow> ask_env \<Rightarrow> string list \<Rightarrow> symref list \<Rightarrow> symref option \<Rightarrow>
   conf_opt list \<Rightarrow> bool \<Rightarrow> string \<Rightarrow> disk \<Rightarrow> kstate \<Rightarrow> (nat \<times> string \<times> disk) option" where
  "conf_main n S now srand E files envs defconfig_list opts has_file inp d K =
     (case parse_opts S now opts \<lparr>o_mode = oldaskconfig, o_sync = False, o_file = None, o_seed = None\<rparr> of
        None \<Rightarrow> Some (1, [], d)
      | Some P \<Rightarrow>
          if \<not> has_file \<or> (o_sync P \<and> missing_config S d) then Some (1, [], d)
          else do {
            (failed, K, w) \<leftarrow> read_phase S (e_cfg E) d defconfig_list P (K, 0);
            (if failed \<or> (o_sync P \<and> refuses_update S K) then Some (1, [], d)
             else do {
               (failed, A) \<leftarrow> ask_phase n S (srand (case o_seed P of Some s \<Rightarrow> s | None \<Rightarrow> 1)) E
                 \<lparr>a_K = K, a_in = inp, a_line = [], a_out = [], a_indent = 1, a_mode = o_mode P, a_root = None, a_cnt = 0\<rparr>;
               (if failed then Some (1, a_out A, d)
                else do {
                  (status, d, K) \<leftarrow> write_phase S (e_cfg E) (e_tree E) files envs P (a_mode A) d (a_K A, w);
                  Some (status, a_out A, d) }) }) })"

end
