(* ===== verification/Conf_Ask_Props.thy ===== *)
theory Conf_Ask_Props
  imports Conf_Ask
begin

text \<open>
  How the configurator asks: when its questions end, what an answer does, and that the
  values keep to the types of the symbols.
\<close>

section \<open>Help changes no value\<close>

text \<open>If a computation returns, what is calculated is kept; \<open>st\<close> is its store.\<close>

definition keeps :: "('a \<Rightarrow> kstate) \<Rightarrow> kstate \<Rightarrow> 'a option \<Rightarrow> bool" where
  "keeps st K r \<longleftrightarrow> (\<forall>y. r = Some y \<longrightarrow> settles K (st y))"

lemma keeps_Some [simp]: "keeps st K (Some y) \<longleftrightarrow> settles K (st y)"
  and keeps_None [simp]: "keeps st K None"
  by (simp_all add: keeps_def)

lemma keeps_bind:
  assumes "store_wf K" "keeps snd K r" "\<And>x K1. store_wf K1 \<Longrightarrow> keeps st K1 (f (x, K1))"
  shows "keeps st K (Option.bind r f)"
proof (cases r)
  case (Some y)
  then have "settles K (snd y)" using assms(2) by (simp add: keeps_def)
  with assms(3) [of "snd y" "fst y"] returns_wf [OF assms(1) this] Some show ?thesis
    by (auto simp: keeps_def intro: settles_trans)
qed simp

lemma keeps_bind2:
  assumes "store_wf K" "keeps (\<lambda>y. snd (snd y)) K r" "\<And>x z K1. store_wf K1 \<Longrightarrow> keeps st K1 (f (x, z, K1))"
  shows "keeps st K (Option.bind r f)"
proof (cases r)
  case (Some y)
  then have "settles K (snd (snd y))" using assms(2) by (simp add: keeps_def)
  with assms(3) [of "snd (snd y)" "fst y" "fst (snd y)"] returns_wf [OF assms(1) this] Some show ?thesis
    by (auto simp: keeps_def intro: settles_trans)
qed simp

lemma keeps_plain: "(\<And>x. keeps st K (f x)) \<Longrightarrow> keeps st K (Option.bind r f)"
  by (cases r) simp_all

lemma returns_keeps: "returns K r \<Longrightarrow> keeps snd K r"
  by (auto simp: returns_def)

lemma returns_range: "store_wf K \<Longrightarrow> returns K (sym_get_range_prop calc_sym s K)"
  using returns_runs [OF runs_first_prop [OF calc_sym_safe store_ready] calm_first_prop [OF calm_calc_sym wf_tab_wf]]
  by (simp add: sym_get_range_prop_def returns_bind)

lemmas keeps_calc = returns_keeps [OF returns_calc] and keeps_string = returns_keeps [OF returns_string]
  and keeps_visible = returns_keeps [OF returns_visible] and keeps_range = returns_keeps [OF returns_range]

lemma keeps_line: "store_wf K \<Longrightarrow> keeps snd K (do { gs \<leftarrow> r; Some (g gs, K) })"
  by (rule keeps_plain) simp

lemma head_keeps:
  assumes "store_wf K"
  shows "keeps snd K (symbol_head s gs K)"
proof (cases "s_name (k_tab K s)")
  case (Some nm)
  then show ?thesis unfolding symbol_head_def Let_def option.case
    by (simp only: option.case) (rule keeps_bind [OF assms keeps_string [OF assms]],
      auto intro!: keeps_bind [OF _ keeps_range] keeps_line split: option.split)
qed (simp add: symbol_head_def)

lemma location_keeps:
  assumes "store_wf K"
  shows "keeps snd K (location_symbol n gs K)"
  using keeps_bind [OF assms keeps_string [OF assms], of snd "\<lambda>(v, K). Some (F v K, K)" for F]
  by (auto simp: location_symbol_def split: option.split)

lemma lines_keeps: "store_wf K \<Longrightarrow> keeps (\<lambda>y. snd (snd y)) K (location_lines ms j loc off gs K)"
proof (induction ms arbitrary: j off gs K)
  case (Cons m ms)
  show ?case unfolding location_lines.simps Let_def
    by (rule keeps_bind [OF Cons.prems location_keeps [OF Cons.prems]]) (simp add: Cons.IH)
qed simp

lemma innermost_keeps: "store_wf K \<Longrightarrow> keeps snd K (innermost_visible ms loc K)"
proof (induction ms arbitrary: loc K)
  case (Cons m ms)
  show ?case unfolding innermost_visible.simps
    by (rule keeps_bind [OF Cons.prems keeps_visible [OF Cons.prems]]) (simp add: Cons.IH)
qed simp

lemma locations_keeps: "store_wf K \<Longrightarrow> keeps (\<lambda>y. snd (snd y)) K (print_locations ms loc gs K)"
  by (auto simp: print_locations_def lines_keeps)

lemma jump_keeps: "store_wf K \<Longrightarrow> keeps snd K (jump_target e l K)"
  unfolding jump_target_def by (rule keeps_bind [OF _ keeps_visible]) simp_all

lemma prompt_keeps:
  assumes "store_wf K"
  shows "keeps (\<lambda>y. snd (snd y)) K (print_prompt e ms (gs, head, K))"
proof -
  have none: "keeps (\<lambda>y. snd (snd y)) K1 (do { (off, gs, K) \<leftarrow> print_locations ms None gs K1; Some (gs, head, K) })"
    if "store_wf K1" for K1 head
    by (rule keeps_bind2 [OF that locations_keeps [OF that]]) simp
  have some: "keeps (\<lambda>y. snd (snd y)) K1 (do { (t, K) \<leftarrow> jump_target e l K1;
      (off, gs, K) \<leftarrow> print_locations ms (Some l) gs K; Some (gs, F t off, K) })" if "store_wf K1" for K1 l F
    by (rule keeps_bind [OF that jump_keeps [OF that]]) (simp, rule keeps_bind2, assumption, rule locations_keeps, simp_all)
  show ?thesis unfolding print_prompt_def prod.case
    by (rule keeps_bind [OF assms innermost_keeps [OF assms]]) (auto intro!: none some split: option.split)
qed

lemma prompts_keeps: "store_wf K \<Longrightarrow> keeps (\<lambda>y. snd (snd y)) K (prompts_str root ps (gs, head, K))"
proof (induction ps arbitrary: gs head K)
  case (Cons p ps)
  have one: "keeps (\<lambda>y. snd (snd y)) K (get_prompt_str root p (gs, head, K))"
    using Cons.prems unfolding get_prompt_str_def prod.case
    by (intro keeps_plain) (simp add: prompt_keeps)
  show ?case unfolding prompts_str.simps
    using Cons.IH Cons.prems by (auto intro!: keeps_bind2 [OF Cons.prems one])
qed simp

lemma symbol_keeps:
  assumes "store_wf K"
  shows "keeps (\<lambda>y. snd (snd y)) K (get_symbol_str root place s (gs, head, K))"
  unfolding get_symbol_str_def prod.case
proof (rule keeps_bind [OF assms head_keeps [OF assms]], unfold prod.case)
  fix gs :: gstr and K1 :: kstate
  assume K1: "store_wf K1"
  show "keeps (\<lambda>y. snd (snd y)) K1 (do { (gs, head, K) \<leftarrow> prompts_str root (s_prop (k_tab K1 s)) (gs, head, K1);
      gs \<leftarrow> symbol_rest place s K gs; Some (gs, head, K) })"
    by (rule keeps_bind2 [OF K1 prompts_keeps [OF K1]]) (simp, rule keeps_plain, simp)
qed

lemma help_keeps:
  assumes "store_wf K"
  shows "keeps snd K (menu_get_ext_help cfg root place n gs K)"
  unfolding menu_get_ext_help_def Let_def
proof (rule keeps_plain)
  fix gs :: gstr
  show "keeps snd K (case n_sym n of None \<Rightarrow> Some (str_printf ((if menu_has_help n then menu_get_help n else nohelp_text) @ newline) gs, K)
    | Some s \<Rightarrow> do { (gs, head, K) \<leftarrow> get_symbol_str root place s
        (str_printf ((if menu_has_help n then menu_get_help n else nohelp_text) @ newline) gs, None, K); Some (gs, K) })"
    by (auto intro!: keeps_bind2 [OF assms symbol_keeps [OF assms]] split: option.split)
qed

section \<open>When the questions end\<close>

text \<open>What a number of rounds leads to; \<open>Still\<close> means that all of them went by without an end.\<close>

datatype 'a outcome = Ended 'a | Faulted | Still 'a

fun run :: "nat \<Rightarrow> ('s \<Rightarrow> (bool \<times> 's) option) \<Rightarrow> 's \<Rightarrow> 's outcome" where
  "run 0 f x = Still x"
| "run (Suc n) f x =
     (case f x of None \<Rightarrow> Faulted | Some (fin, y) \<Rightarrow> if fin then Ended y else run n f y)"

lemma rounds_outcome: "rounds n f x = (case run n f x of Ended y \<Rightarrow> Some y | _ \<Rightarrow> None)"
  by (induction n arbitrary: x) (auto split: option.splits outcome.splits)

text \<open>A measure that goes down with every round bounds their number.\<close>

lemma outcome_bounded:
  assumes "\<And>x y. I x \<Longrightarrow> f x = Some (False, y) \<Longrightarrow> I y \<and> (b y :: nat) < b x"
  shows "I x \<Longrightarrow> b x < n \<Longrightarrow> run n f x \<noteq> Still y"
proof (induction n arbitrary: x)
  case (Suc n)
  show ?case
  proof (cases "f x")
    case (Some r)
    obtain fin z where r: "r = (fin, z)" by (cases r) auto
    show ?thesis
    proof (cases fin)
      case False
      with Some r assms [OF Suc.prems(1)] have "I z" "b z < b x" by auto
      with Suc Some r False show ?thesis by simp
    qed (simp add: Some r)
  qed simp
qed simp

lemma outcome_total:
  assumes "\<And>x y. I x \<Longrightarrow> f x = Some (False, y) \<Longrightarrow> I y" "\<And>x. I x \<Longrightarrow> f x \<noteq> None"
  shows "I x \<Longrightarrow> run n f x \<noteq> Faulted"
proof (induction n arbitrary: x)
  case (Suc n)
  obtain fin z where "f x = Some (fin, z)" using assms(2) [OF Suc.prems] by auto
  then show ?case using Suc assms(1) [OF Suc.prems, of z] by (cases fin) auto
qed simp

lemma line_of_shorter: "n > 0 \<Longrightarrow> cs \<noteq> [] \<Longrightarrow> line_of n cs = (l, rest) \<Longrightarrow> length rest < length cs"
proof (induction n cs arbitrary: l rest rule: line_of.induct)
  case (3 n c cs)
  show ?case
  proof (cases "c = CHR 0x0a")
    case False
    obtain l' rest' where r: "line_of n cs = (l', rest')" by (cases "line_of n cs") auto
    show ?thesis
    proof (cases "n = 0 \<or> cs = []")
      case True
      then have "rest' = cs" using r by (cases n) auto
      then show ?thesis using 3(4) False r by simp
    next
      case ne: False
      then show ?thesis using 3(1) [OF False _ _ r] 3(4) False r by simp
    qed
  qed (use 3(4) in simp)
qed simp_all

lemma xfgets_effect:
  "a_K (xfgets E A) = a_K A \<and>
   (length (a_in (xfgets E A)) < length (a_in A) \<or> a_in (xfgets E A) = [] \<and> a_in A = [] \<and> a_line (xfgets E A) = a_line A)"
proof (cases "a_in A = []")
  case False
  obtain l rest where r: "line_of (PATH_MAX - 1) (a_in A) = (l, rest)" by (cases "line_of (PATH_MAX - 1) (a_in A)") auto
  have "length rest < length (a_in A)" by (rule line_of_shorter [OF _ False r]) (simp add: PATH_MAX_def)
  then show ?thesis using False r by (auto simp: xfgets_def Let_def fgets_def say_def)
qed (auto simp: xfgets_def Let_def fgets_def say_def)

lemma askvalue_effect:
  assumes "conf_askvalue E s def A = (True, B)"
  shows "a_K B = a_K A \<and> (length (a_in B) < length (a_in A) \<or> a_in B = a_in A \<and> a_line B = newline)"
proof -
  define A1 where "A1 = (if \<not> sym_has_value (a_K A) s then say ''(NEW) '' A else A)\<lparr>a_line := newline\<rparr>"
  have A1: "a_K A1 = a_K A" "a_in A1 = a_in A" "a_line A1 = newline" "a_mode A1 = a_mode A" by (simp_all add: A1_def say_def)
  have "B = xfgets E A1 \<or> a_K B = a_K A1 \<and> a_in B = a_in A1 \<and> a_line B = newline"
    using assms unfolding conf_askvalue_def Let_def A1_def [symmetric] by (auto simp: say_def A1 split: if_splits)
  then show ?thesis using xfgets_effect [of E A1] A1 by auto
qed

definition askable :: "symref \<Rightarrow> ask \<Rightarrow> bool" where
  "askable s A \<longleftrightarrow> store_wf (a_K A) \<and> has_flag SYMBOL_VALID s (a_K A)"

lemma askable_settles: "askable s A \<Longrightarrow> settles (a_K A) (a_K B) \<Longrightarrow> askable s B"
  by (auto simp: askable_def settles_def intro: returns_wf)

lemma print_help_effect:
  assumes "print_help E m A = Some B" "store_wf (a_K A)"
  shows "settles (a_K A) (a_K B) \<and> a_in B = a_in A"
  using assms help_keeps [OF assms(2), of "e_cfg E" "e_tree E" "e_place E" "m_node m" str_new]
  by (auto simp: print_help_def on_K_def bind_eq_Some_conv say_def)

lemma strip_newline: "strip newline = []"
  by (simp add: strip_def newline_def c_isspace_def)

lemma set_tristate_again:
  assumes "store_wf K" "sym_set_tristate_value s v K = Some (False, K')"
  shows "K' = K \<and> sym_get_tristate_value K s \<noteq> v"
  using set_tristate_total [OF assms(1), of s v] assms(2) by auto

lemma sym_take_again:
  assumes "sym_take E m s oldval A = Some (False, B)" "store_wf (a_K A)"
  shows "settles (a_K A) (a_K B) \<and> a_in B = a_in A \<and> \<not> (a_line A = [] \<and> sym_get_tristate_value (a_K A) s = oldval)"
proof (cases "answer_of oldval (a_line A)")
  case (Answer v)
  then obtain K1 where 1: "sym_set_tristate_value s v (a_K A) = Some (False, K1)" "print_help E m (A\<lparr>a_K := K1\<rparr>) = Some B"
    using assms(1) by (auto simp: sym_take_def on_K_def bind_eq_Some_conv split: if_splits)
  note f = set_tristate_again [OF assms(2) 1(1)]
  have "a_line A = [] \<Longrightarrow> v = oldval" using Answer by (simp add: answer_of_def)
  then show ?thesis using f print_help_effect [OF 1(2)] assms(2) by auto
next
  case Help
  then have "print_help E m A = Some B" "a_line A \<noteq> []"
    using assms(1) by (auto simp: sym_take_def bind_eq_Some_conv answer_of_def split: list.splits)
  then show ?thesis using print_help_effect [OF _ assms(2)] by blast
next
  case Again
  then show ?thesis using assms(1) by (auto simp: sym_take_def answer_of_def split: list.splits)
qed

lemma sym_round_again:
  assumes "askable s A" "n_sym (m_node m) = Some s" "sym_round E m A = Some (False, B)"
  shows "askable s B \<and> settles (a_K A) (a_K B) \<and> length (a_in B) < length (a_in A)"
proof -
  have wf: "store_wf (a_K A)" using assms(1) by (simp add: askable_def)
  obtain A1 where a1: "sym_prompt m s A = Some A1" using assms(2,3) by (auto simp: sym_round_def bind_eq_Some_conv)
  obtain def K2 where k2: "get_string_value calc_sym s (a_K A1) = Some (def, K2)"
    using assms(2,3) a1 by (auto simp: sym_round_def on_K_def bind_eq_Some_conv)
  obtain asked A3 where a3: "conf_askvalue E s def (A1\<lparr>a_K := K2\<rparr>) = (asked, A3)"
    by (cases "conf_askvalue E s def (A1\<lparr>a_K := K2\<rparr>)") auto
  have 1: "sym_prompt m s A = Some A1" "get_string_value calc_sym s (a_K A1) = Some (def, K2)"
    "conf_askvalue E s def (A1\<lparr>a_K := K2\<rparr>) = (True, A3)"
    "sym_take E m s (sym_get_tristate_value (a_K A) s) (A3\<lparr>a_line := strip (a_line A3)\<rparr>) = Some (False, B)"
    using assms(2,3) a1 k2 a3 by (auto simp: sym_round_def on_K_def split: if_splits)
  have A1: "a_K A1 = a_K A" "a_in A1 = a_in A" using 1(1) by (auto simp: sym_prompt_def Let_def bind_eq_Some_conv say_def)
  have s2: "settles (a_K A) K2" using returns_string [OF wf, of s] 1(2) by (simp add: returns_def A1)
  have v: "sym_get_tristate_value K2 s = sym_get_tristate_value (a_K A) s"
    using s2 assms(1) by (auto simp: settles_def askable_def sym_get_tristate_value_def)
  note a3 = askvalue_effect [OF 1(3), simplified]
  have "store_wf (a_K (A3\<lparr>a_line := strip (a_line A3)\<rparr>))" using returns_wf [OF wf s2] a3 by simp
  from sym_take_again [OF 1(4) this]
  have t: "settles K2 (a_K B)" "a_in B = a_in A3" "a_line A3 = newline \<longrightarrow> sym_get_tristate_value K2 s \<noteq> sym_get_tristate_value (a_K A) s"
    using a3 by (auto simp: strip_newline)
  have "settles (a_K A) (a_K B)" by (rule settles_trans [OF s2 t(1)])
  then show ?thesis using askable_settles [OF assms(1)] t a3 v A1(2) by auto
qed

lemma sym_stops:
  assumes "askable s A" "n_sym (m_node m) = Some s" "length (a_in A) < n"
  shows "run n (sym_round E m) A \<noteq> Still B"
  by (rule outcome_bounded [where I = "askable s" and b = "\<lambda>A. length (a_in A)", OF _ assms(1,3)])
    (use sym_round_again [OF _ assms(2)] in blast)

lemma prompt_same: "prompt_prop (k_tab K) n = None \<longleftrightarrow> prompt_prop (k_tab K') n = None"
  by (auto simp: prompt_prop_def split: option.splits prompt_ref.splits)

lemma sym_returns:
  assumes "store_wf (a_K A)" "has_flag SYMBOL_VALID s (a_K A)" "n_sym (m_node m) = Some s" "prompt_of m A \<noteq> None"
    and "\<forall>K. settles (a_K A) K \<longrightarrow> menu_get_ext_help (e_cfg E) (e_tree E) (e_place E) (m_node m) str_new K \<noteq> None"
    and "length (a_in A) < n"
  shows "\<exists>B. conf_sym n E m A = Some B"
proof -
  define I where "I = (\<lambda>X. askable s X \<and> settles (a_K A) (a_K X))"
  have I: "I A" using assms(1,2) by (simp add: I_def askable_def)
  have helps: "print_help E m X \<noteq> None" if "settles (a_K A) (a_K X)" for X
    using that assms(5) by (auto simp: print_help_def on_K_def)
  have step: "I Y" if "I X" "sym_round E m X = Some (False, Y)" for X Y
    using sym_round_again [OF _ assms(3) that(2)] that(1) settles_trans by (auto simp: I_def)
  have total: "sym_round E m X \<noteq> None" if "I X" for X
  proof -
    have wf: "store_wf (a_K X)" and X: "settles (a_K A) (a_K X)" using that by (simp_all add: I_def askable_def)
    have "prompt_of m X \<noteq> None"
      using assms(4) prompt_same [of "a_K X" "m_node m" "a_K A"] by (simp add: prompt_of_def)
    then obtain X1 where X1: "sym_prompt m s X = Some X1" "a_K X1 = a_K X"
      by (auto simp: sym_prompt_def Let_def say_def)
    obtain def K2 where K2: "get_string_value calc_sym s (a_K X) = Some (def, K2)" "settles (a_K X) K2"
      using returns_string [OF wf, of s] by (auto simp: returns_def)
    obtain asked X3 where c: "conf_askvalue E s def (X1\<lparr>a_K := K2\<rparr>) = (asked, X3)"
      by (cases "conf_askvalue E s def (X1\<lparr>a_K := K2\<rparr>)") auto
    have "sym_take E m s v (X3\<lparr>a_line := l\<rparr>) \<noteq> None" if asked for v l
    proof -
      have K3: "a_K X3 = K2" using askvalue_effect [of E s def "X1\<lparr>a_K := K2\<rparr>" X3] c that by simp
      have wf3: "store_wf K2" by (rule returns_wf [OF wf K2(2)])
      have st: "settles (a_K A) K2" by (rule settles_trans [OF X K2(2)])
      have "do { (ok, A) \<leftarrow> on_K (sym_set_tristate_value s w) (X3\<lparr>a_line := l\<rparr>);
          (if ok then Some (True, A) else do { A \<leftarrow> print_help E m A; Some (False, A) }) } \<noteq> None" for w
      proof -
        obtain b K4 where "sym_set_tristate_value s w K2 = Some (b, K4)" "\<not> b \<longrightarrow> K4 = K2"
          using set_tristate_total [OF wf3, of s w] by blast
        then show ?thesis using st helps [of "X3\<lparr>a_line := l, a_K := K4\<rparr>"] by (auto simp: on_K_def K3 ex_bool_eq)
      qed
      then show ?thesis using st helps [of "X3\<lparr>a_line := l\<rparr>"] by (auto simp: sym_take_def K3 split: answer.split)
    qed
    then show ?thesis using assms(3) X1 K2 c by (auto simp: sym_round_def on_K_def)
  qed
  have "run n (sym_round E m) A \<noteq> Faulted" by (rule outcome_total [where I = I, OF _ _ I]) (use step total in blast)+
  moreover have "run n (sym_round E m) A \<noteq> Still B" for B
    by (rule sym_stops [OF _ assms(3,6)]) (use I in \<open>simp add: I_def\<close>)
  ultimately obtain B where "run n (sym_round E m) A = Ended B" by (cases "run n (sym_round E m) A") auto
  then show ?thesis by (simp add: conf_sym_def rounds_outcome)
qed

text \<open>
  C36: the configurator never hangs at a question. The input may be anything, empty
  too: \<open>conf_sym\<close> returns after at most one round for every character of it, and at
  the end of the input it takes the value that the symbol has. The symbol is calculated
  and has a prompt, and the help can be printed.
\<close>

theorem conf_sym_returns:
  assumes "store_wf (a_K A)" "has_flag SYMBOL_VALID s (a_K A)" "n_sym (m_node m) = Some s" "prompt_of m A \<noteq> None"
    and "\<forall>K. settles (a_K A) K \<longrightarrow> menu_get_ext_help (e_cfg E) (e_tree E) (e_place E) (m_node m) str_new K \<noteq> None"
    and "length (a_in A) < n"
  shows "\<exists>B. conf_sym n E m A = Some B"
  by (rule sym_returns [OF assms])

section \<open>At the end of the input\<close>

lemma run_same:
  assumes "\<And>x. I x \<Longrightarrow> \<exists>y. f x = Some (False, y) \<and> I y"
  shows "I x \<Longrightarrow> \<exists>y. run n f x = Still y \<and> I y"
proof (induction n arbitrary: x)
  case (Suc n)
  from assms [OF Suc.prems] obtain y where "f x = Some (False, y)" "I y" by blast
  with Suc.IH [of y] show ?case by simp
qed auto

text \<open>
  C37: \<open>conf_string\<close> has no such end. At the end of the input it tries the text that the
  symbol has, and when this is no valid value (the empty text of a number without a
  default), every round fails in the same way: it asks forever, whatever the bound.
\<close>

theorem conf_string_loops_at_end:
  assumes "a_in A = []" "n_sym (m_node m) = Some s" "prompt_of m A \<noteq> None"
    and "get_string_value calc_sym s (a_K A) = Some (v, a_K A)" "sym_set_string_value s v (a_K A) = Some (False, a_K A)"
    and "sym_is_changable (a_K A) s" "a_mode A = oldaskconfig \<or> a_mode A \<in> {oldconfig, syncconfig} \<and> \<not> sym_has_value (a_K A) s"
  shows "\<exists>B. run n (string_round E m) A = Still B \<and> a_K B = a_K A \<and> conf_string n E m A = None"
proof -
  define I where "I = (\<lambda>X :: ask. a_in X = [] \<and> a_K X = a_K A \<and> a_mode X = a_mode A)"
  have round: "\<exists>Y. string_round E m X = Some (False, Y) \<and> I Y" if IX: "I X" for X
  proof -
    obtain p where p: "prompt_of m A = Some p" using assms(3) by blast
    have pX: "prompt_of m X = Some p" using IX p by (simp add: I_def prompt_of_def)
    have fg: "fgets PATH_MAX [] = None" by (simp add: fgets_def)
    have ask: "\<exists>Z. conf_askvalue E s v Y = (True, Z) \<and> a_line Z = newline \<and> I Z" if "I Y" for Y
      using that assms(6,7) by (auto simp: conf_askvalue_def Let_def I_def xfgets_def fg say_def)
    have st: "on_K (get_string_value calc_sym s) Y = Some (v, Y)" "on_K (sym_set_string_value s v) Y = Some (False, Y)"
      if "I Y" for Y
      using that assms(4,5) by (simp_all add: on_K_def I_def)
    define Y where "Y = say (''['' @ v @ ''] '') (say (''('' @ printable (s_name (k_tab (a_K A) s)) @ '') '') (say (pad X @ p @ '' '') X))"
    have IY: "I (say t W)" if "I W" for t W using that by (simp add: I_def say_def)
    have kX: "a_K (say t X) = a_K A" for t using IX by (simp add: I_def say_def)
    obtain Z where Z: "conf_askvalue E s v Y = (True, Z)" "a_line Z = newline" "I Z"
      using ask [of Y] IY [OF IY [OF IY [OF IX]]] by (auto simp: Y_def)
    have "string_round E m X = Some (False, Z)"
      using st IY IX Z assms(2) pX by (simp add: string_round_def Let_def Y_def newline_def kX)
    with Z show ?thesis by blast
  qed
  have "I A" using assms(1) by (simp add: I_def)
  from run_same [where I = I and n = n and f = "string_round E m", OF round this]
  obtain B where B: "run n (string_round E m) A = Still B" "I B" by blast
  then show ?thesis by (auto simp: I_def conf_string_def rounds_outcome)
qed

section \<open>What an answer does\<close>

text \<open>The lines that \<open>conf_sym\<close> understands for a value.\<close>

fun answers :: "tristate \<Rightarrow> string list" where
  "answers tri_no = [''n'', ''N'', ''no'', ''No'']"
| "answers tri_mod = [''m'', ''M'']"
| "answers tri_yes = [''y'', ''Y'', ''yes'', ''Yes'']"

lemma answer_of_answers: "l \<in> set (answers t) \<Longrightarrow> answer_of oldval l = Answer t"
  by (cases t) (auto simp: answer_of_def)

lemma get_string_valid:
  "has_flag SYMBOL_VALID (k_modules_sym K) K \<Longrightarrow> get_string_value calc_sym s K = Some (sym_get_string_value K s, K)"
  by (simp add: get_string_value_def sym_get_string_value_def calc_sym_valid sym_get_tristate_value_def split: tristate.split)

lemma line_of_line: "CHR 0x0a \<notin> set l \<Longrightarrow> length l < n \<Longrightarrow> line_of n (l @ CHR 0x0a # rest) = (l @ [CHR 0x0a], rest)"
proof (induction l arbitrary: n)
  case Nil
  then show ?case by (cases n) auto
next
  case (Cons c l)
  then show ?case by (cases n) auto
qed

lemma strip_answer: "l \<in> set (answers t) \<Longrightarrow> strip (l @ [CHR 0x0a]) = l"
  by (cases t) (auto simp: strip_def c_isspace_def)

text \<open>
  C38: an answer is taken. When \<open>conf_sym\<close> asks for a symbol, and the next line of the
  input is one of the words for a value that is in range, it returns at once: the line
  is read, the rest of the input is left, and the symbol is set to this value.
\<close>

theorem conf_sym_takes_answer:
  assumes "store_wf (a_K A)" "has_flag SYMBOL_VALID (k_modules_sym (a_K A)) (a_K A)" "n_sym (m_node m) = Some s"
    and "prompt_of m A \<noteq> None" "sym_is_changable (a_K A) s"
    and "a_mode A = oldaskconfig \<or> a_mode A \<in> {oldconfig, syncconfig} \<and> \<not> sym_has_value (a_K A) s"
    and "a_in A = l @ newline @ rest" "l \<in> set (answers t)" "sym_tristate_within_range (a_K A) s t"
  shows "\<exists>B. conf_sym (Suc n) E m A = Some B \<and> a_in B = rest \<and> sym_set_tristate_value s t (a_K A) = Some (True, a_K B)"
proof -
  let ?K = "a_K A"
  obtain K' where K': "sym_set_tristate_value s t ?K = Some (True, K')"
    using set_tristate_total [OF assms(1), of s t] assms(9) by auto
  obtain A1 where A1: "sym_prompt m s A = Some A1" "a_K A1 = ?K" "a_in A1 = a_in A" "a_mode A1 = a_mode A"
    using assms(4) by (auto simp: sym_prompt_def Let_def say_def)
  have on1: "on_K (get_string_value calc_sym s) A1 = Some (sym_get_string_value ?K s, A1)"
    by (simp add: on_K_def A1(2) get_string_valid [OF assms(2)])
  have l: "CHR 0x0a \<notin> set l" "length l < PATH_MAX - 1" using assms(8) by (cases t; auto simp: PATH_MAX_def)+
  define A2 where "A2 = (if \<not> sym_has_value ?K s then say ''(NEW) '' A1 else A1)\<lparr>a_line := newline\<rparr>"
  have A2: "a_K A2 = ?K" "a_in A2 = l @ CHR 0x0a # rest" by (simp_all add: A2_def say_def A1 assms(7) newline_def)
  have "xfgets E A2 = (if e_tty E then id else say (l @ newline)) (A2\<lparr>a_line := l @ newline, a_in := rest\<rparr>)"
    using line_of_line [OF l, of rest] by (simp add: xfgets_def fgets_def A2(2) newline_def Let_def)
  then have x: "a_K (xfgets E A2) = ?K" "a_in (xfgets E A2) = rest" "a_line (xfgets E A2) = l @ newline"
    by (simp_all add: say_def A2)
  have ask: "conf_askvalue E s (sym_get_string_value ?K s) A1 = (True, xfgets E A2)"
    using assms(5,6) unfolding conf_askvalue_def Let_def A1(2) A2_def [symmetric]
    by (auto simp: A2 A1(2,4) A2_def say_def)
  have "sym_take E m s (sym_get_tristate_value ?K s) ((xfgets E A2)\<lparr>a_line := strip (a_line (xfgets E A2))\<rparr>) =
      Some (True, (xfgets E A2)\<lparr>a_line := l, a_K := K'\<rparr>)"
    using K' assms(8) by (simp add: sym_take_def x strip_answer newline_def answer_of_answers on_K_def)
  then have "sym_round E m A = Some (True, (xfgets E A2)\<lparr>a_line := l, a_K := K'\<rparr>)"
    using assms(3) by (simp add: sym_round_def A1(1) on1 ask)
  then show ?thesis using K' x by (simp add: conf_sym_def)
qed

section \<open>Values keep to the type\<close>

lemma boolean_set:
  assumes "store_wf K" "sym_set_tristate_value s v K = Some (True, K')" "s_type (k_tab K s) = S_BOOLEAN"
    "sym_get_tristate_value K s \<noteq> tri_mod"
  shows "v \<noteq> tri_mod"
proof
  assume v: "v = tri_mod"
  have "sym_get_type K s = S_BOOLEAN" using assms(3) by (simp add: sym_get_type_def)
  then have "\<not> sym_tristate_within_range K s tri_mod" by (simp add: sym_tristate_within_range_def Let_def)
  then show False using set_tristate_total [OF assms(1), of s v] assms(2,4) v by auto
qed

lemma sym_round_sets:
  assumes "askable s A" "n_sym (m_node m) = Some s" "sym_round E m A = Some (True, B)"
    "s_type (k_tab (a_K A) s) = S_BOOLEAN" "sym_get_tristate_value (a_K A) s \<noteq> tri_mod"
  shows "\<exists>K v. settles (a_K A) K \<and> (a_K B = K \<or> v \<noteq> tri_mod \<and> sym_set_tristate_value s v K = Some (True, a_K B))"
proof -
  have wf: "store_wf (a_K A)" using assms(1) by (simp add: askable_def)
  obtain A1 where a1: "sym_prompt m s A = Some A1" using assms(2,3) by (auto simp: sym_round_def bind_eq_Some_conv)
  then have A1: "a_K A1 = a_K A" by (auto simp: sym_prompt_def Let_def bind_eq_Some_conv say_def)
  obtain def K2 where k2: "get_string_value calc_sym s (a_K A) = Some (def, K2)" "settles (a_K A) K2"
    using returns_string [OF wf, of s] by (auto simp: returns_def)
  obtain asked A3 where a3: "conf_askvalue E s def (A1\<lparr>a_K := K2\<rparr>) = (asked, A3)"
    by (cases "conf_askvalue E s def (A1\<lparr>a_K := K2\<rparr>)") auto
  have K3: "a_K A3 = K2"
  proof (cases asked)
    case True
    then show ?thesis using askvalue_effect [of E s def "A1\<lparr>a_K := K2\<rparr>" A3] a3 by simp
  next
    case False
    then show ?thesis using a3 by (auto simp: conf_askvalue_def Let_def say_def split: if_splits)
  qed
  have r: "(if \<not> asked then Some (True, A3)
      else sym_take E m s (sym_get_tristate_value (a_K A) s) (A3\<lparr>a_line := strip (a_line A3)\<rparr>)) = Some (True, B)"
    using assms(2,3) a1 A1 k2(1) a3 by (simp add: sym_round_def on_K_def)
  show ?thesis
  proof (cases asked)
    case False
    then show ?thesis using r K3 k2(2) by auto
  next
    case True
    then obtain v where v: "sym_set_tristate_value s v K2 = Some (True, a_K B)"
      using r K3 by (auto simp: sym_take_def on_K_def bind_eq_Some_conv split: answer.splits if_splits)
    have "sym_get_tristate_value K2 s \<noteq> tri_mod"
      using k2(2) assms(1,5) by (auto simp: settles_def askable_def sym_get_tristate_value_def)
    then have "v \<noteq> tri_mod"
      using boolean_set [OF returns_wf [OF wf k2(2)] v] assms(4) edits_fields(1) [OF settles_edits [OF k2(2)]] by simp
    then show ?thesis using v k2(2) by blast
  qed
qed

text \<open>
  C39: the questions keep to the types. Whatever is answered, in any number of rounds, a
  symbol of type bool that is not m is never set to m: \<open>conf_sym\<close> leaves every value as
  it was calculated, or sets the symbol to a value that its type has.
\<close>

theorem conf_sym_keeps_type:
  assumes "store_wf (a_K A)" "has_flag SYMBOL_VALID s (a_K A)" "n_sym (m_node m) = Some s"
    and "s_type (k_tab (a_K A) s) = S_BOOLEAN" "sym_get_tristate_value (a_K A) s \<noteq> tri_mod" "conf_sym n E m A = Some B"
  shows "\<exists>K v. settles (a_K A) K \<and> (a_K B = K \<or> v \<noteq> tri_mod \<and> sym_set_tristate_value s v K = Some (True, a_K B))"
  using assms unfolding conf_sym_def
proof (induction n arbitrary: A)
  case (Suc n)
  have ask: "askable s A" using Suc.prems(1,2) by (simp add: askable_def)
  obtain fin X where r: "sym_round E m A = Some (fin, X)" using Suc.prems(6) by (auto simp: bind_eq_Some_conv)
  show ?case
  proof (cases fin)
    case True
    with r have f: "sym_round E m A = Some (True, X)" "X = B" using Suc.prems(6) by simp_all
    from sym_round_sets [OF ask Suc.prems(3) f(1) Suc.prems(4,5)] f(2) show ?thesis by simp
  next
    case False
    with r have f: "sym_round E m A = Some (False, X)" "rounds n (sym_round E m) X = Some B" using Suc.prems(6) by simp_all
    note g = sym_round_again [OF ask Suc.prems(3) f(1)]
    have st: "settles (a_K A) (a_K X)" and X: "store_wf (a_K X)" "has_flag SYMBOL_VALID s (a_K X)"
      using g by (simp_all add: askable_def)
    have "sym_get_tristate_value (a_K X) s \<noteq> tri_mod" "s_type (k_tab (a_K X) s) = S_BOOLEAN"
      using st Suc.prems(2,4,5) edits_fields(1) [OF settles_edits [OF st]] by (auto simp: settles_def sym_get_tristate_value_def)
    from Suc.IH [OF X Suc.prems(3) this(2,1) f(2)] show ?thesis using settles_trans [OF st] by blast
  qed
qed simp

section \<open>Listing new options\<close>

definition same_input :: "ask \<Rightarrow> ask \<Rightarrow> bool" where
  "same_input A B \<longleftrightarrow> settles (a_K A) (a_K B) \<and> a_in B = a_in A \<and> a_mode B = a_mode A \<and> a_cnt B = a_cnt A"

lemma same_input_trans [trans]: "same_input A B \<Longrightarrow> same_input B C \<Longrightarrow> same_input A C"
  unfolding same_input_def using settles_trans by metis

lemma same_input_refl [simp]: "same_input A A" by (simp add: same_input_def)

lemma on_K_input:
  "returns (a_K A) (f (a_K A)) \<Longrightarrow> \<exists>x B. on_K f A = Some (x, B) \<and> same_input A B"
  by (auto simp: returns_def on_K_def same_input_def)

lemma list_new_input:
  assumes "store_wf (a_K A)"
  shows "\<exists>B. list_new E s A = Some B \<and> same_input A B"
proof (cases "s_name (k_tab (a_K A) s)")
  case (Some nm)
  obtain v B where B: "on_K (get_string_value calc_sym s) A = Some (v, B)" "same_input A B"
    using on_K_input [of A "get_string_value calc_sym s"] returns_string [OF assms] by blast
  have "same_input B (say t B)" for t by (simp add: same_input_def say_def)
  then have "same_input A (say t B)" for t using same_input_trans [OF B(2)] by blast
  then show ?thesis using Some B(1) by (auto simp: list_new_def escape_fits)
qed (simp add: list_new_def)

lemma each_input:
  assumes "\<And>c A. c \<in> set cs \<Longrightarrow> store_wf (a_K A) \<Longrightarrow> I A \<Longrightarrow> \<exists>B. f c A = Some B \<and> same_input A B"
    "\<And>A B. same_input A B \<Longrightarrow> I A \<Longrightarrow> I B"
  shows "store_wf (a_K A) \<Longrightarrow> I A \<Longrightarrow> \<exists>B. each_menu f cs A = Some B \<and> same_input A B"
  using assms(1)
proof (induction cs arbitrary: A)
  case (Cons c cs)
  from Cons.prems(3) [OF _ Cons.prems(1,2)] obtain B where B: "f c A = Some B" "same_input A B" by auto
  have "store_wf (a_K B)" using B(2) Cons.prems(1) returns_wf by (auto simp: same_input_def)
  from Cons.IH [OF this assms(2) [OF B(2) Cons.prems(2)]] Cons.prems(3)
  obtain C where "each_menu f cs B = Some C" "same_input B C" by auto
  then show ?case using B same_input_trans by auto
qed simp

lemma child_size: "c \<in> set cs \<Longrightarrow> menu_size c \<le> list_size cs"
  by (induction cs) auto

lemma check_lists:
  "menu_size m \<le> n \<Longrightarrow> store_wf (a_K A) \<Longrightarrow> a_mode A = listnewconfig \<Longrightarrow>
     \<exists>B. check_conf n E m A = Some B \<and> same_input A B"
proof (induction n arbitrary: m A)
  case 0
  then show ?case by (cases m) simp
next
  case (Suc n)
  obtain v A1 where A1: "on_K (menu_is_visible m) A = Some (v, A1)" "same_input A A1"
    using on_K_input [of A "menu_is_visible m"] returns_visible [OF Suc.prems(2)] by blast
  have wf: "store_wf (a_K A1)" using A1(2) Suc.prems(2) returns_wf by (auto simp: same_input_def)
  have mode: "a_mode A1 = listnewconfig" using A1(2) Suc.prems(3) by (simp add: same_input_def)
  define r where "r = (case n_sym (m_node m) of None \<Rightarrow> Some A1
    | Some s \<Rightarrow> if \<not> is_new_question (a_K A1) s then Some A1 else list_new E s A1)"
  have "\<exists>A2. r = Some A2 \<and> same_input A1 A2"
    using list_new_input [OF wf] by (auto simp: r_def split: option.split)
  then obtain A2 where A2: "r = Some A2" "same_input A1 A2" by blast
  have wf2: "store_wf (a_K A2)" using A2(2) wf returns_wf by (auto simp: same_input_def)
  have mode2: "a_mode A2 = listnewconfig" using A2(2) mode by (simp add: same_input_def)
  have small: "menu_size c \<le> n" if "c \<in> set (m_list m)" for c
    using Suc.prems(1) child_size [OF that] by (cases m) simp
  have "\<exists>A3. each_menu (check_conf n E) (m_list m) A2 = Some A3 \<and> same_input A2 A3"
    by (rule each_input [where I = "\<lambda>A. a_mode A = listnewconfig", OF Suc.IH _ wf2 mode2])
      (simp_all add: small same_input_def)
  then obtain A3 where A3: "each_menu (check_conf n E) (m_list m) A2 = Some A3" "same_input A2 A3" by blast
  have "check_conf (Suc n) E m A = (if \<not> v then Some A1 else do { A \<leftarrow> r; each_menu (check_conf n E) (m_list m) A })"
    using A1(1) mode by (simp add: r_def split: option.split)
  moreover have "same_input A A3" by (rule same_input_trans [OF A1(2) same_input_trans [OF A2(2) A3(2)]])
  ultimately show ?case using A1(2) A2(1) A3(1) by (cases v) simp_all
qed

text \<open>
  C40: \<open>conf --listnewconfig\<close> only lists. It ends within one round of the menus, reads
  nothing from the input, keeps every value that was calculated, and leaves the disk as
  it was, with the exit status 0.
\<close>

theorem listnewconfig_only_lists:
  assumes "store_wf (a_K A)" "a_mode A = listnewconfig" "menu_size (e_tree E) \<le> n" "\<not> o_sync P"
  shows "\<exists>B. ask_phase n S rand E A = Some (False, B) \<and> a_in B = a_in A \<and> settles (a_K A) (a_K B) \<and>
    write_phase S cfg root files envs P (a_mode B) d (a_K B, w) = Some (0, d, a_K B)"
proof -
  obtain B where B: "check_conf n E (e_tree E) (A\<lparr>a_cnt := 0\<rparr>) = Some B" "same_input (A\<lparr>a_cnt := 0\<rparr>) B"
    using check_lists [OF assms(3), of "A\<lparr>a_cnt := 0\<rparr>" E] assms(1,2) by auto
  obtain i where "n = Suc i" using assms(3) by (cases "e_tree E"; cases n) auto
  then have "rounds n (check_round n E) A = Some B" using B by (simp add: check_round_def same_input_def)
  then show ?thesis using B(2) assms(2,4) by (simp add: ask_phase_def same_input_def write_phase_def)
qed

section \<open>Examples\<close>

definition ask_store :: kstate where
  "ask_store = empty_table\<lparr>k_tab := (\<lambda>t.
     if t = Sym 0 then (new_symbol (Some ''A'') {SYMBOL_VALID})\<lparr>s_type := S_BOOLEAN, s_visible := tri_yes\<rparr>
     else if t = Sym 1 then (new_symbol (Some ''N'') {SYMBOL_VALID})\<lparr>s_type := S_INT, s_visible := tri_yes, s_curr := \<lparr>sv_val = CStr [], sv_tri = tri_no\<rparr>\<rparr>
     else new_symbol (Some ''X'') {SYMBOL_VALID}), k_nsyms := 2\<rparr>"

definition ask_entry :: "nat \<Rightarrow> symref \<Rightarrow> menu" where
  "ask_entry i s = Menu (view_node i (Some s) (Some (Own_prompt (view_prop ''p'' tri_yes i)))) []"

definition ask_tree :: menu where
  "ask_tree = Menu (view_node 0 None (Some (Own_prompt (view_prop ''Main'' tri_yes 0)))) [ask_entry 1 (Sym 0), ask_entry 2 (Sym 1)]"

definition ask_sample :: "string \<Rightarrow> input_mode \<Rightarrow> ask" where
  "ask_sample inp mode = \<lparr>a_K = ask_store, a_in = inp, a_line = [], a_out = [], a_indent = 1, a_mode = mode, a_root = None, a_cnt = 0\<rparr>"

definition ask_sample_env :: ask_env where
  "ask_sample_env = \<lparr>e_cfg = [], e_tree = ask_tree, e_place = (\<lambda>_. ([], 0)), e_tty = True\<rparr>"

lemma ask_tab:
  "s_type (k_tab ask_store t) = (if t = Sym 0 then S_BOOLEAN else if t = Sym 1 then S_INT else S_UNKNOWN)"
  "s_flags (k_tab ask_store t) = {SYMBOL_VALID}" "s_prop (k_tab ask_store t) = []" "k_modules_sym ask_store = symbol_no"
  "s_rev_dep (k_tab ask_store t) = None" "s_implied (k_tab ask_store t) = None" "s_name (k_tab ask_store (Sym 0)) = Some ''A''"
  "s_visible (k_tab ask_store t) = (if t = Sym 0 \<or> t = Sym 1 then tri_yes else tri_no)" "s_rev_tri (k_tab ask_store t) = tri_no"
  "s_curr (k_tab ask_store t) = (if t = Sym 1 then \<lparr>sv_val = CStr [], sv_tri = tri_no\<rparr> else \<lparr>sv_val = CNull, sv_tri = tri_no\<rparr>)"
  by (simp_all add: ask_store_def new_symbol_def empty_table_def)

lemma ask_wf: "store_wf ask_store"
  by (simp add: store_wf_def symbol_wf_def ask_tab has_flag_def)

lemma ask_valid: "has_flag SYMBOL_VALID t ask_store"
  by (simp add: has_flag_def ask_tab)

lemma plain_help:
  assumes "store_wf K" "s_prop (k_tab K s) = []" "s_rev_dep (k_tab K s) = None" "s_implied (k_tab K s) = None"
    "s_type (k_tab K s) = S_BOOLEAN" "n_sym n = Some s"
  shows "menu_get_ext_help cfg root place n gs K \<noteq> None"
proof -
  have st: "s_prop (k_tab K' s) = [] \<and> s_rev_dep (k_tab K' s) = None \<and> s_implied (k_tab K' s) = None \<and> s_type (k_tab K' s) = S_BOOLEAN"
    if "settles K K'" for K'
  proof -
    have "static (k_tab K' s) = static (k_tab K s)" using settles_edits [OF that] by (simp add: edits_def)
    from arg_cong [OF this, of s_prop] arg_cong [OF this, of s_rev_dep] arg_cong [OF this, of s_implied] arg_cong [OF this, of s_type]
    show ?thesis using assms(2-5) by (simp add: static_def)
  qed
  obtain v K1 where K1: "get_string_value calc_sym s K = Some (v, K1)" "settles K K1"
    using returns_string [OF assms(1), of s] by (auto simp: returns_def)
  have "\<exists>gs' K'. symbol_head s gs K = Some (gs', K') \<and> settles K K'" for gs
    using K1 st [OF K1(2)] by (cases "s_name (k_tab K s)") (auto simp: symbol_head_def Let_def)
  then have sym: "do { (gs, head, K) \<leftarrow> get_symbol_str root place s (gs, None, K); Some (gs, K) } \<noteq> None" for gs
  proof -
    obtain gs' K' where h: "symbol_head s gs K = Some (gs', K')" "settles K K'"
      using \<open>\<And>gs. \<exists>gs' K'. symbol_head s gs K = Some (gs', K') \<and> settles K K'\<close> by blast
    from h(1) st [OF h(2)] show ?thesis
      by (simp add: get_symbol_str_def symbol_rest_def defined_at_def get_symbol_prop_def get_symbol_props_str_def revdeps_def Let_def)
  qed
  show ?thesis using assms(6) sym by (simp add: menu_get_ext_help_def Let_def del: not_None_eq)
qed

lemma sample_help:
  "\<forall>K. settles (a_K (ask_sample [] oldconfig)) K \<longrightarrow> menu_get_ext_help (e_cfg ask_sample_env) (e_tree ask_sample_env)
      (e_place ask_sample_env) (m_node (ask_entry 1 (Sym 0))) str_new K \<noteq> None"
proof (intro allI impI)
  fix K assume st: "settles (a_K (ask_sample [] oldconfig)) K"
  then have e: "settles ask_store K" by (simp add: ask_sample_def)
  have "static (k_tab K (Sym 0)) = static (k_tab ask_store (Sym 0))" using settles_edits [OF e] by (simp add: edits_def)
  from arg_cong [OF this, of s_prop] arg_cong [OF this, of s_rev_dep] arg_cong [OF this, of s_implied] arg_cong [OF this, of s_type]
  show "menu_get_ext_help (e_cfg ask_sample_env) (e_tree ask_sample_env)
      (e_place ask_sample_env) (m_node (ask_entry 1 (Sym 0))) str_new K \<noteq> None"
    by (intro plain_help [where s = "Sym 0"] returns_wf [OF ask_wf e])
      (simp_all add: static_def ask_tab ask_entry_def view_node_def)
qed

lemma sample_premises:
  "store_wf (a_K (ask_sample [] oldconfig))" "has_flag SYMBOL_VALID (Sym 0) (a_K (ask_sample [] oldconfig))"
  "n_sym (m_node (ask_entry 1 (Sym 0))) = Some (Sym 0)" "prompt_of (ask_entry 1 (Sym 0)) (ask_sample [] oldconfig) \<noteq> None"
  "length (a_in (ask_sample [] oldconfig)) < 1"
  by (simp_all add: ask_sample_def ask_wf ask_valid ask_entry_def view_node_def prompt_of_def prompt_prop_def)

theorem conf_sym_returns_witness:
  "\<exists>B. conf_sym 1 ask_sample_env (ask_entry 1 (Sym 0)) (ask_sample [] oldconfig) = Some B"
  by (rule conf_sym_returns [OF sample_premises(1-4) sample_help sample_premises(5)])

theorem conf_sym_keeps_type_witness:
  "\<exists>B K v. conf_sym 1 ask_sample_env (ask_entry 1 (Sym 0)) (ask_sample [] oldconfig) = Some B \<and> settles ask_store K \<and>
     (a_K B = K \<or> v \<noteq> tri_mod \<and> sym_set_tristate_value (Sym 0) v K = Some (True, a_K B))"
proof -
  have K: "a_K (ask_sample [] oldconfig) = ask_store" by (simp add: ask_sample_def)
  obtain B where B: "conf_sym 1 ask_sample_env (ask_entry 1 (Sym 0)) (ask_sample [] oldconfig) = Some B"
    using sym_returns [OF sample_premises(1-4) sample_help sample_premises(5)] by blast
  have "s_type (k_tab (a_K (ask_sample [] oldconfig)) (Sym 0)) = S_BOOLEAN"
    "sym_get_tristate_value (a_K (ask_sample [] oldconfig)) (Sym 0) \<noteq> tri_mod"
    by (simp_all add: K ask_tab sym_get_tristate_value_def)
  from conf_sym_keeps_type [OF sample_premises(1-3) this B] B show ?thesis unfolding K by blast
qed

theorem conf_string_loops_at_end_witness:
  "\<forall>n. conf_string n ask_sample_env (ask_entry 2 (Sym 1)) (ask_sample [] oldaskconfig) = None"
proof
  fix n
  have iv: "\<not> int_valid []" by code_simp
  have 1: "a_in (ask_sample [] oldaskconfig) = []" "n_sym (m_node (ask_entry 2 (Sym 1))) = Some (Sym 1)"
    "prompt_of (ask_entry 2 (Sym 1)) (ask_sample [] oldaskconfig) \<noteq> None"
    "get_string_value calc_sym (Sym 1) (a_K (ask_sample [] oldaskconfig)) = Some ([], a_K (ask_sample [] oldaskconfig))"
    "sym_set_string_value (Sym 1) [] (a_K (ask_sample [] oldaskconfig)) = Some (False, a_K (ask_sample [] oldaskconfig))"
    "sym_is_changable (a_K (ask_sample [] oldaskconfig)) (Sym 1)" "a_mode (ask_sample [] oldaskconfig) = oldaskconfig"
    by (simp_all add: ask_sample_def ask_entry_def view_node_def prompt_of_def prompt_prop_def get_string_value_def ask_tab
        sym_set_string_value_def sym_string_within_range_def sym_string_valid_def iv sym_is_changable_def less_tristate_def)
  from conf_string_loops_at_end [OF 1(1-6), of n ask_sample_env] 1(7)
  show "conf_string n ask_sample_env (ask_entry 2 (Sym 1)) (ask_sample [] oldaskconfig) = None" by blast
qed

theorem conf_sym_takes_answer_witness:
  "\<exists>B. conf_sym 1 ask_sample_env (ask_entry 1 (Sym 0)) (ask_sample (''yes'' @ newline @ ''n'' @ newline) oldconfig) = Some B \<and>
     a_in B = ''n'' @ newline"
proof -
  let ?A = "ask_sample (''yes'' @ newline @ ''n'' @ newline) oldconfig"
  have 1: "store_wf (a_K ?A)" "has_flag SYMBOL_VALID (k_modules_sym (a_K ?A)) (a_K ?A)"
    by (simp_all add: ask_sample_def ask_wf ask_valid)
  have 2: "n_sym (m_node (ask_entry 1 (Sym 0))) = Some (Sym 0)" "prompt_of (ask_entry 1 (Sym 0)) ?A \<noteq> None"
    "sym_is_changable (a_K ?A) (Sym 0)" "a_mode ?A = oldaskconfig \<or> a_mode ?A \<in> {oldconfig, syncconfig} \<and> \<not> sym_has_value (a_K ?A) (Sym 0)"
    "a_in ?A = ''yes'' @ newline @ ''n'' @ newline" "''yes'' \<in> set (answers tri_yes)" "sym_tristate_within_range (a_K ?A) (Sym 0) tri_yes"
    by (simp_all add: ask_sample_def ask_entry_def view_node_def prompt_of_def prompt_prop_def ask_tab sym_is_changable_def less_tristate_def
        sym_has_value_def has_flag_def sym_tristate_within_range_def Let_def sym_get_type_def sym_is_choice_value_def)
  from conf_sym_takes_answer [OF 1 2, of 0 ask_sample_env] show ?thesis by auto
qed

theorem listnewconfig_only_lists_witness:
  "\<exists>B. ask_phase 9 save_os (\<lambda>_. 0) ask_sample_env (ask_sample ''y'' listnewconfig) = Some (False, B) \<and> a_in B = ''y''"
proof -
  have "menu_size (e_tree ask_sample_env) \<le> 9" by (simp add: ask_sample_env_def ask_tree_def ask_entry_def)
  from listnewconfig_only_lists [OF _ _ this, of "ask_sample ''y'' listnewconfig"
      "\<lparr>o_mode = listnewconfig, o_sync = False, o_file = None, o_seed = None\<rparr>" save_os "\<lambda>_. 0" "[]" ask_tree "[]" "[]" save_disk 0]
  show ?thesis by (auto simp: ask_sample_def ask_wf)
qed

end
