(* ===== verification/Spec2Isabelle.thy ===== *)
theory Spec2Isabelle
  imports Expr_Normal Symbol_Props Menu_Build Check_Graph Expr_Print Mkpimage Md5 Gpio_I2c Toolchain_Wrapper
    Menu_View Conf_Save Conf_Auto Conf_New Conf_Ask_Props
begin

text \<open>
  \<^bold>\<open>A verification development for the configuration system and the build tools.\<close>

  The repository is a Buildroot tree for network switches. Its own programs are written
  in C; below KC stands for \<open>src/dl/buildroot-2021.08-p3/support/kconfig\<close>.

  \<^bold>\<open>Parts and how they interact\<close>

  \<^item> kconfig (KC) reads a description of options and a configuration, calculates
    the value of every option from its defaults, dependencies, selections and user
    value, and writes the configuration the build works with. \<open>expr.c\<close> holds
    the dependency expressions, \<open>symbol.c\<close> the options (symbols) and the symbol
    table, \<open>menu.c\<close> the tree of entries, \<open>confdata.c\<close> the files. \<open>expr_calc_value\<close> and
    \<open>sym_calc_value\<close> call each other; \<open>menu_finalize\<close> simplifies the dependencies by the
    operations of \<open>expr.c\<close>; the reader sets the user values of symbols it looks up in
    the table; the printers write calculated values; \<open>conf.c\<close> reads a configuration,
    asks for what is new, and writes the configuration and the files the build reads.
  \<^item> \<open>toolchain/toolchain-wrapper.c\<close> stands for every tool of the cross toolchain.
  \<^item> \<open>package/mkpimage/mkpimage.c\<close> puts a header with checksums before a boot loader.
  \<^item> \<open>package/x11r7/mcookie/mcookie.c\<close> derives an X cookie by MD5.
  \<^item> \<open>local_sources/platform_drivers/gpio_i2c.c\<close> is a Linux driver for pins that are
    bits of registers behind an I2C bus.

  \<^bold>\<open>Theories\<close>

  \<^item> \<open>Prelude\<close>, \<open>Strto\<close>, \<open>Numerals\<close>: C strings, \<open>strcmp\<close>, byte buffers whose stores
    outside have no result, weakest preconditions of option-valued computations, the C
    library's number parsing and that it reads back printed numbers.
  \<^item> \<open>Kconfig_Types\<close> (\<open>expr.h\<close>, \<open>lkc.h\<close>): tristate values, symbols, expressions,
    properties, and the store \<open>kstate\<close> of symbols; a pointer to a symbol is a
    \<open>symref\<close>, a null expression (which means y) is \<open>None\<close>.
  \<^item> \<open>Expr\<close>, \<open>Expr_Eval\<close>: the operations of \<open>expr.c\<close> that build, simplify and evaluate
    expressions. \<open>Expr_Sound\<close>, \<open>Expr_Dups\<close>, \<open>Expr_Store\<close> and \<open>Expr_Normal\<close> prove, against
    the locale \<open>symbol_values\<close> interpreted on the store, that every simplification keeps
    the value, that the loop of \<open>expr_eliminate_dups\<close> ends, and what the results look like.
  \<^item> \<open>Symbol_Calc\<close>: visibility, choices, ranges and \<open>sym_calc_value\<close>. The recursion gets
    fuel \<open>Suc (2 * k_nsyms)\<close>: a call marks its symbol as valid before it calls others, so
    a chain of calls that still work is at most as long as twice the number of symbols
    (a symbol and its choice). \<open>Symbol_Total\<close> proves that this fuel suffices in
    every well-formed store, \<open>Symbol_Fuel\<close> that more fuel changes nothing.
  \<^item> \<open>Symbol\<close>, \<open>Symbol_Props\<close>: setting, toggling and reading values, and their properties.
  \<^item> \<open>Symtab\<close>: the hash table with its invariant, as an interpretation of the locale
    \<open>symbol_table\<close>, expansion and escaping of strings.
  \<^item> \<open>Conf_Read\<close>, \<open>Conf_Write\<close>: reading and printing configurations, and the round trip.
    The prefix \<open>CONFIG_\<close> and the files are parameters.
  \<^item> \<open>Menu_View\<close>: visible entries and the texts that describe symbols (\<open>menu.c\<close>).
    \<open>Symbol_Write\<close> shows that a calculated symbol keeps its value and its mark for writing
    while others are calculated; the lemmas \<open>returns\<close> and \<open>settles\<close> of \<open>Menu_View\<close> carry
    this, and that the calculations return, to every function that calculates on the way.
  \<^item> \<open>Conf_Files\<close>, \<open>Conf_Save\<close>: \<open>conf_read\<close>, \<open>conf_write\<close> and \<open>conf_write_defconfig\<close> on a disk of
    named files; the walk over the menus, what the text holds, that it is read back, and
    that the old file survives. \<open>Conf_Auto\<close>: \<open>conf_split_config\<close>, \<open>conf_write_autoconf\<close> and
    \<open>file_write_dep\<close>. \<open>Conf_New\<close>: \<open>conf_set_all_new_symbols\<close>.
  \<^item> \<open>Conf_Ask\<close>, \<open>Conf_Ask_Props\<close>: \<open>conf.c\<close>. A loop is a round that tells whether it is the
    last, repeated up to a bound. For \<open>conf_sym\<close> a bound above the length of the input is
    enough, for \<open>listnewconfig\<close> the size of the menus; \<open>conf_string\<close> and \<open>conf_choice\<close> have no
    such bound at the end of the input, which is proved of the first.
  \<^item> \<open>Menu\<close>, \<open>Menu_Final\<close>: \<open>menu_finalize\<close> on a tree of entries, and what it keeps.
    \<open>Menu_Build\<close>: the pointers of \<open>menu.c\<close> while the parser adds entries, with their
    invariant, and the tree behind them.
  \<^item> \<open>Check_Deps\<close>, \<open>Check_Graph\<close>: the search for recursive dependencies, and how its reports
    relate to cycles of the dependency graph. Its fuel is twice the number of symbols, for
    a call marks its symbol or goes from a value to its choice.
  \<^item> \<open>Expr_Print\<close>: printing of expressions, against the grammar that reads them.
  \<^item> \<open>Toolchain_Wrapper\<close>: the whole wrapper; build-time macros and the system are records.
  \<^item> \<open>Crc\<close>, \<open>Mkpimage\<close>: the checksum as polynomial division, the image and its bounds.
  \<^item> \<open>Md5\<close>: MD5 in pieces against MD5 of a whole message, and the bytes hashed.
  \<^item> \<open>Gpio_I2c\<close>: the handlers over the locale \<open>registers\<close>, interpreted on a device.

  \<^bold>\<open>What the models abstract from\<close>

  Memory is garbage-free: \<open>free\<close> has no counterpart, and \<open>xmalloc\<close>, which exits the
  program, always succeeds. Reads and writes outside of buffers and null pointer
  dereferences are the result \<open>None\<close> or a constructor of the result. Texts of
  warnings are counted or values, not printed. The system calls, the C library's time
  zones, the I2C bus and the device tree are parameters.

  \<^bold>\<open>Not modelled\<close>

  The text and graphical user interfaces (terminal and widget code), \<open>sym_re_search\<close>
  (regular expressions), \<open>makedevs.c\<close>, \<open>mkpasswd.c\<close>, the generated parser, and the test
  programs.
\<close>

end
